(* ===== verification/Mana_Prelude.thy ===== *)
theory Mana_Prelude
  imports Main "HOL-Library.Word"
begin

unbundle bit_operations_syntax

text \<open>
  Shared vocabulary of the ManaOS verification library: Rust's fixed-width integers as
  words, the checked and saturating arithmetic of the Rust core library, panics as a
  value of the model, little-endian byte reads, and the generic list lemmas the
  component theories use.
\<close>

section \<open>Machine integers\<close>

text \<open>
  The kernel is built for x86-64 only, so \<open>usize\<close> and \<open>u64\<close> have the same width
  and \<open>usize::try_from(u64)\<close> always succeeds.
\<close>

type_synonym u8 = "8 word"
type_synonym u16 = "16 word"
type_synonym u32 = "32 word"
type_synonym u64 = "64 word"
type_synonym usize = "64 word"

named_theorems arith_defs \<open>definitions of Rust's checked and saturating arithmetic\<close>
named_theorems unat_simps \<open>word facts moved to natural numbers\<close>

definition checked_add :: "'a::len word \<Rightarrow> 'a word \<Rightarrow> 'a word option" where
  [arith_defs]: "checked_add a b = (if unat a + unat b < 2 ^ LENGTH('a) then Some (a + b) else None)"

definition checked_sub :: "'a::len word \<Rightarrow> 'a word \<Rightarrow> 'a word option" where
  [arith_defs]: "checked_sub a b = (if unat b \<le> unat a then Some (a - b) else None)"

definition checked_mul :: "'a::len word \<Rightarrow> 'a word \<Rightarrow> 'a word option" where
  [arith_defs]: "checked_mul a b = (if unat a * unat b < 2 ^ LENGTH('a) then Some (a * b) else None)"

definition saturating_add :: "'a::len word \<Rightarrow> 'a word \<Rightarrow> 'a word" where
  [arith_defs]: "saturating_add a b = (if unat a + unat b < 2 ^ LENGTH('a) then a + b else - 1)"

definition saturating_sub :: "'a::len word \<Rightarrow> 'a word \<Rightarrow> 'a word" where
  [arith_defs]: "saturating_sub a b = (if unat b \<le> unat a then a - b else 0)"

definition is_multiple_of :: "'a::len word \<Rightarrow> 'a word \<Rightarrow> bool" where
  [arith_defs]: "is_multiple_of a b = (if b = 0 then a = 0 else a mod b = 0)"

definition usize_try_from :: "u64 \<Rightarrow> usize option" where
  [arith_defs]: "usize_try_from a = Some a"

lemma checked_add_Some_iff:
  "checked_add a b = Some c \<longleftrightarrow> unat c = unat a + unat b"
proof
  assume "checked_add a b = Some c"
  then show "unat c = unat a + unat b"
    by (auto simp: checked_add_def unat_word_ariths split: if_splits)
next
  assume c: "unat c = unat a + unat b"
  then have "unat a + unat b < 2 ^ LENGTH('a)"
    by (metis unsigned_less)
  moreover from this c have "a + b = c"
    by (simp add: word_unat_eq_iff unat_word_ariths)
  ultimately show "checked_add a b = Some c"
    by (simp add: checked_add_def)
qed

lemma checked_add_None_iff:
  "checked_add (a::'a::len word) b = None \<longleftrightarrow> 2 ^ LENGTH('a) \<le> unat a + unat b"
  by (auto simp: checked_add_def not_less)

lemma checked_sub_Some_iff:
  "checked_sub a b = Some c \<longleftrightarrow> unat b \<le> unat a \<and> unat c = unat a - unat b"
proof
  assume "checked_sub a b = Some c"
  then show "unat b \<le> unat a \<and> unat c = unat a - unat b"
    by (auto simp: checked_sub_def unat_sub word_le_nat_alt split: if_splits)
next
  assume c: "unat b \<le> unat a \<and> unat c = unat a - unat b"
  then have "a - b = c"
    by (simp add: word_unat_eq_iff unat_sub word_le_nat_alt)
  with c show "checked_sub a b = Some c"
    by (simp add: checked_sub_def)
qed

lemma checked_sub_None_iff: "checked_sub a b = None \<longleftrightarrow> unat a < unat b"
  by (auto simp: checked_sub_def not_le)

lemma checked_mul_Some_iff:
  "checked_mul a b = Some c \<longleftrightarrow> unat c = unat a * unat b"
proof
  assume "checked_mul a b = Some c"
  then show "unat c = unat a * unat b"
    by (auto simp: checked_mul_def unat_word_ariths split: if_splits)
next
  assume c: "unat c = unat a * unat b"
  then have "unat a * unat b < 2 ^ LENGTH('a)"
    by (metis unsigned_less)
  moreover from this c have "a * b = c"
    by (simp add: word_unat_eq_iff unat_word_ariths)
  ultimately show "checked_mul a b = Some c"
    by (simp add: checked_mul_def)
qed

lemma checked_mul_None_iff:
  "checked_mul (a::'a::len word) b = None \<longleftrightarrow> 2 ^ LENGTH('a) \<le> unat a * unat b"
  by (auto simp: checked_mul_def not_less)

lemmas checked_iffs =
  checked_add_Some_iff checked_add_None_iff checked_sub_Some_iff checked_sub_None_iff
  checked_mul_Some_iff checked_mul_None_iff

lemma unat_saturating_add:
  "unat (saturating_add (a::'a::len word) b) = min (unat a + unat b) (2 ^ LENGTH('a) - 1)"
  by (auto simp: saturating_add_def unat_word_ariths unsigned_minus_1_eq_mask mask_eq_exp_minus_1 min_def)

text \<open>A counter that only ever grows by saturating addition holds the true sum, cut off at the maximum.\<close>

lemma fold_saturating:
  fixes get :: "'s \<Rightarrow> 'a::len word"
  assumes "\<And>x s. get (f x s) = (if p x then saturating_add (get s) (w x) else get s)"
  shows "unat (get (fold f xs s)) = min (2 ^ LENGTH('a) - 1) (unat (get s) + sum_list (map (\<lambda>x. unat (w x)) (filter p xs)))"
proof (induction xs arbitrary: s)
  have le: "unat (get s) \<le> 2 ^ LENGTH('a) - 1" for s
    using unsigned_less [of "get s"] by (metis Suc_pred' less_Suc_eq_le zero_less_numeral zero_less_power)
  {
    case Nil
    show ?case using le [of s] by (simp add: min_absorb2)
  next
    case (Cons x xs)
    with le [of s] show ?case by (auto simp: assms unat_saturating_add min_def)
  }
qed

lemma unat_saturating_sub: "unat (saturating_sub a b) = unat a - unat b"
  by (auto simp: saturating_sub_def unat_sub word_le_nat_alt)

lemma is_multiple_of_iff: "is_multiple_of a b \<longleftrightarrow> unat b dvd unat a"
  by (auto simp: is_multiple_of_def unat_eq_0 dvd_eq_mod_eq_0 simp flip: unat_mod)

lemma unat_u64_bound: "unat (x::u64) < 18446744073709551616"
  using unsigned_less [of x] by simp

lemmas word_to_nat = word_less_nat_alt word_le_nat_alt

definition is_some_and :: "'a option \<Rightarrow> ('a \<Rightarrow> bool) \<Rightarrow> bool" where
  "is_some_and x p = (case x of None \<Rightarrow> False | Some y \<Rightarrow> p y)"

definition is_none :: "'a option \<Rightarrow> bool" where
  "is_none x = (case x of None \<Rightarrow> True | Some _ \<Rightarrow> False)"

lemma is_some_and_simps [simp]: "is_some_and None p = False" "is_some_and (Some x) p = p x"
  by (simp_all add: is_some_and_def)

lemma is_none_simps [simp]: "is_none None" "\<not> is_none (Some x)"
  by (simp_all add: is_none_def)

text \<open>The question mark operator on options: early return of \<open>None\<close>.\<close>

lemma case_option_Some_iff:
  "(case m of None \<Rightarrow> None | Some x \<Rightarrow> f x) = Some y \<longleftrightarrow> (\<exists>x. m = Some x \<and> f x = Some y)"
  by (cases m) auto

lemma case_option_None_iff:
  "(case m of None \<Rightarrow> None | Some x \<Rightarrow> f x) = None \<longleftrightarrow> (\<forall>x. m = Some x \<longrightarrow> f x = None)"
  by (cases m) auto

lemma if_option_iffs:
  "(if b then Some x else None) = Some y \<longleftrightarrow> b \<and> x = y"
  "(if b then None else Some x) = Some y \<longleftrightarrow> \<not> b \<and> x = y"
  "(if b then None else m) = Some y \<longleftrightarrow> \<not> b \<and> m = Some y"
  by auto

lemmas option_iffs = case_option_Some_iff if_option_iffs

text \<open>Clearing the low bits of a word rounds it down to a multiple of a power of two.\<close>

lemma word_and_not_mask:
  fixes x :: "'a::len word"
  shows "x AND NOT (mask n) = x - take_bit n x"
proof -
  have "take_bit n x AND NOT x = 0"
    by (rule bit_word_eqI) (auto simp: bit_simps)
  then have "x - take_bit n x = x AND NOT (take_bit n x)"
    by (intro disjunctive_diff_eq_and_not) (simp add: ac_simps)
  also have "\<dots> = x AND NOT (mask n)"
    by (rule bit_word_eqI) (auto simp: bit_simps)
  finally show ?thesis by simp
qed

lemma unat_and_not_mask:
  fixes x :: "'a::len word"
  shows "unat (x AND NOT (mask n)) = unat x - unat x mod 2 ^ n"
proof -
  have t: "unat (take_bit n x) = unat x mod 2 ^ n"
    unfolding unsigned_take_bit_eq by (simp only: take_bit_eq_mod)
  then have "unat (take_bit n x) \<le> unat x" by simp
  then show ?thesis
    by (simp add: word_and_not_mask unat_sub word_le_nat_alt t)
qed

section \<open>Panics\<close>

text \<open>
  A Rust function that can panic (a failed \<open>assert!\<close>, \<open>expect\<close> on \<open>None\<close>, an index
  out of range, an arithmetic overflow in the checked build profile) returns a value of
  type \<open>'a run\<close>: \<open>Panic\<close> is the panic, \<open>Done x\<close> the normal return.
\<close>

datatype 'a run = Done 'a | Panic

fun bind_run :: "'a run \<Rightarrow> ('a \<Rightarrow> 'b run) \<Rightarrow> 'b run" where
  "bind_run (Done x) f = f x"
| "bind_run Panic f = Panic"

lemma bind_run_cong [fundef_cong]:
  "m = m' \<Longrightarrow> (\<And>x. m' = Done x \<Longrightarrow> f x = g x) \<Longrightarrow> bind_run m f = bind_run m' g"
  by (cases m') auto

definition expect :: "'a option \<Rightarrow> 'a run" where
  "expect x = (case x of None \<Rightarrow> Panic | Some y \<Rightarrow> Done y)"

definition assert_run :: "bool \<Rightarrow> unit run" where
  "assert_run b = (if b then Done () else Panic)"

text \<open>Rust's short-circuit \<open>&&\<close> and \<open>is_some_and\<close> on operands that may panic.\<close>

definition and_run :: "bool run \<Rightarrow> bool run \<Rightarrow> bool run" where
  "and_run a b = bind_run a (\<lambda>x. if x then b else Done False)"

definition is_some_and_run :: "'a option \<Rightarrow> ('a \<Rightarrow> bool run) \<Rightarrow> bool run" where
  "is_some_and_run x p = (case x of None \<Rightarrow> Done False | Some y \<Rightarrow> p y)"

definition map_run :: "('a \<Rightarrow> 'b) \<Rightarrow> 'a run \<Rightarrow> 'b run" where
  "map_run f m = bind_run m (\<lambda>x. Done (f x))"

lemma and_run_simps [simp]:
  "and_run (Done True) b = b" "and_run (Done False) b = Done False" "and_run Panic b = Panic"
  by (simp_all add: and_run_def)

lemma is_some_and_run_simps [simp]:
  "is_some_and_run None q = Done False" "is_some_and_run (Some x) q = q x"
  by (simp_all add: is_some_and_run_def)

lemma map_run_simps [simp]: "map_run f (Done x) = Done (f x)" "map_run f Panic = Panic"
  by (simp_all add: map_run_def)

lemma expect_simps [simp]: "expect None = Panic" "expect (Some x) = Done x"
  by (simp_all add: expect_def)

lemma assert_run_simps [simp]: "assert_run True = Done ()" "assert_run False = Panic"
  by (simp_all add: assert_run_def)

lemma bind_run_Done_iff: "bind_run m f = Done y \<longleftrightarrow> (\<exists>x. m = Done x \<and> f x = Done y)"
  by (cases m) auto

lemma expect_Done_iff: "expect x = Done y \<longleftrightarrow> x = Some y"
  by (cases x) auto

lemma assert_run_Done_iff: "assert_run b = Done u \<longleftrightarrow> b"
  by (cases b) auto

lemmas run_iffs = bind_run_Done_iff expect_Done_iff assert_run_Done_iff

text \<open>
  Total correctness of a computation that may panic: \<open>runs m P\<close> says that \<open>m\<close> returns and
  that its value satisfies \<open>P\<close>.
\<close>

fun runs :: "'a run \<Rightarrow> ('a \<Rightarrow> bool) \<Rightarrow> bool" where
  "runs (Done x) P = P x"
| "runs Panic P = False"

lemma runs_iff: "runs m P \<longleftrightarrow> (\<exists>x. m = Done x \<and> P x)"
  by (cases m) auto

lemma runs_bind [simp]: "runs (bind_run m f) P = runs m (\<lambda>x. runs (f x) P)"
  by (cases m) auto

lemma runs_map [simp]: "runs (map_run f m) P = runs m (\<lambda>x. P (f x))"
  by (simp add: map_run_def)

lemma runs_conseq: "runs m P \<Longrightarrow> (\<And>x. P x \<Longrightarrow> Q x) \<Longrightarrow> runs m Q"
  by (cases m) auto

lemma runs_conj: "runs m P \<Longrightarrow> runs m Q \<Longrightarrow> runs m (\<lambda>x. P x \<and> Q x)"
  by (cases m) auto

lemma runs_expect: "x = Some y \<Longrightarrow> P y \<Longrightarrow> runs (expect x) P"
  by simp

text \<open>
  Total correctness is too strong for operations that panic when page-table frames run out:
  \<open>ensures m P\<close> says that \<open>m\<close> panics or returns a value that satisfies \<open>P\<close>.
\<close>

definition ensures :: "'a run \<Rightarrow> ('a \<Rightarrow> bool) \<Rightarrow> bool" where
  "ensures m P \<longleftrightarrow> (\<forall>x. m = Done x \<longrightarrow> P x)"

lemma ensures_simps [simp]:
  "ensures (Done x) P \<longleftrightarrow> P x" "ensures Panic P"
  by (simp_all add: ensures_def)

lemma ensures_bind [simp]: "ensures (bind_run m f) P = ensures m (\<lambda>x. ensures (f x) P)"
  by (cases m) auto

lemma ensures_map [simp]: "ensures (map_run f m) P = ensures m (\<lambda>x. P (f x))"
  by (simp add: map_run_def)

lemma ensures_conseq: "ensures m P \<Longrightarrow> (\<And>x. P x \<Longrightarrow> Q x) \<Longrightarrow> ensures m Q"
  by (auto simp: ensures_def)

lemma runs_ensures: "runs m P \<Longrightarrow> ensures m P"
  by (cases m) auto

text \<open>
  The question mark operator on \<open>Result\<close>, in code that may also panic: an error returns early.
  \<open>ok_or\<close> turns \<open>None\<close> into an error.
\<close>

definition try_run :: "('e + 'a) run \<Rightarrow> ('a \<Rightarrow> ('e + 'b) run) \<Rightarrow> ('e + 'b) run" where
  "try_run m f = bind_run m (\<lambda>r. case r of Inl e \<Rightarrow> Done (Inl e) | Inr x \<Rightarrow> f x)"

definition ok_or :: "'a option \<Rightarrow> 'e \<Rightarrow> ('e + 'a) run" where
  "ok_or x e = (case x of None \<Rightarrow> Done (Inl e) | Some y \<Rightarrow> Done (Inr y))"

lemma try_run_simps [simp]:
  "try_run (Done (Inr x)) f = f x" "try_run (Done (Inl e)) f = Done (Inl e)" "try_run Panic f = Panic"
  by (simp_all add: try_run_def)

lemma ok_or_simps [simp]: "ok_or None e = Done (Inl e)" "ok_or (Some x) e = Done (Inr x)"
  by (simp_all add: ok_or_def)

lemma try_run_cong [fundef_cong]:
  "m = m' \<Longrightarrow> (\<And>x. m' = Done (Inr x) \<Longrightarrow> f x = g x) \<Longrightarrow> try_run m f = try_run m' g"
  unfolding try_run_def by (rule bind_run_cong) (auto split: sum.split)

lemma runs_try: "runs (try_run m f) P = runs m (\<lambda>r. case r of Inl e \<Rightarrow> P (Inl e) | Inr x \<Rightarrow> runs (f x) P)"
  unfolding try_run_def runs_bind by (cases m) (auto split: sum.split)

lemma try_run_Ok_iff: "try_run m f = Done (Inr y) \<longleftrightarrow> (\<exists>x. m = Done (Inr x) \<and> f x = Done (Inr y))"
proof (cases m)
  case (Done r)
  then show ?thesis by (cases r) auto
qed simp

lemma ok_or_Ok_iff: "ok_or x e = Done (Inr y) \<longleftrightarrow> x = Some y"
  by (cases x) auto

end
