(* ===== verification/Address.thy ===== *)
theory Address
  imports Mana_Prelude
begin

text \<open>
  The typed address wrappers of \<open>src/src/kernel/memory/address.rs\<close> and the user layout
  constants of \<open>user_layout.rs\<close>: one datatype per newtype, one definition per associated
  function, the type invariants the smart constructors establish, the arithmetic meaning of
  page rounding and of user byte ranges, and the boot-time self-checks of the file.
\<close>

named_theorems address_defs \<open>definitions of the typed address operations\<close>

section \<open>Constants\<close>

abbreviation PAGE_SIZE :: u64 where "PAGE_SIZE \<equiv> 4096"
abbreviation KERNEL_DYNAMIC_MAPPING_START :: u64 where
  "KERNEL_DYNAMIC_MAPPING_START \<equiv> 0xffff800000000000"
abbreviation USER_SPACE_END :: u64 where "USER_SPACE_END \<equiv> 0x0000800000000000"

text \<open>The fixed user layout (\<open>user_layout.rs\<close>).\<close>

abbreviation USER_PROGRAM_BASE :: u64 where "USER_PROGRAM_BASE \<equiv> 0x0000400000000000"
abbreviation USER_HEAP_END :: u64 where "USER_HEAP_END \<equiv> 0x0000600000000000"
abbreviation USER_MAPPING_BASE :: u64 where "USER_MAPPING_BASE \<equiv> USER_HEAP_END"
abbreviation USER_MAPPING_END :: u64 where "USER_MAPPING_END \<equiv> 0x0000700000000000"
abbreviation USER_STACK_REGION_BASE :: u64 where "USER_STACK_REGION_BASE \<equiv> 0x00007ffff0000000"
abbreviation USER_STACK_SLOT_BYTES :: u64 where "USER_STACK_SLOT_BYTES \<equiv> 0x00100000"

section \<open>Physical addresses\<close>

datatype AddressConversionError = DoesNotFitUsize

datatype PhysAddr = PhysAddr (PhysAddr_as_u64: u64)

definition PhysAddr_try_as_usize :: "PhysAddr \<Rightarrow> AddressConversionError + usize" where
  [address_defs]: "PhysAddr_try_as_usize a =
     (case usize_try_from (PhysAddr_as_u64 a) of None \<Rightarrow> Inl DoesNotFitUsize | Some u \<Rightarrow> Inr u)"

definition PhysAddr_as_usize :: "PhysAddr \<Rightarrow> usize run" where
  [address_defs]: "PhysAddr_as_usize a = (case PhysAddr_try_as_usize a of Inl _ \<Rightarrow> Panic | Inr u \<Rightarrow> Done u)"

definition PhysAddr_checked_add :: "PhysAddr \<Rightarrow> u64 \<Rightarrow> PhysAddr option" where
  [address_defs]: "PhysAddr_checked_add a offset =
     (case checked_add (PhysAddr_as_u64 a) offset of None \<Rightarrow> None | Some x \<Rightarrow> Some (PhysAddr x))"

definition PhysAddr_align_down_to_page :: "PhysAddr \<Rightarrow> PhysAddr" where
  [address_defs]: "PhysAddr_align_down_to_page a = PhysAddr (PhysAddr_as_u64 a AND NOT (PAGE_SIZE - 1))"

datatype DmaPhysicalAddress = DmaPhysicalAddress (DmaPhysicalAddress_inner: PhysAddr)

definition DmaPhysicalAddress_as_u64 :: "DmaPhysicalAddress \<Rightarrow> u64" where
  [address_defs]: "DmaPhysicalAddress_as_u64 a = PhysAddr_as_u64 (DmaPhysicalAddress_inner a)"

definition DmaPhysicalAddress_try_as_usize ::
    "DmaPhysicalAddress \<Rightarrow> AddressConversionError + usize" where
  [address_defs]: "DmaPhysicalAddress_try_as_usize a = PhysAddr_try_as_usize (DmaPhysicalAddress_inner a)"

definition DmaPhysicalAddress_as_usize :: "DmaPhysicalAddress \<Rightarrow> usize run" where
  [address_defs]: "DmaPhysicalAddress_as_usize a = PhysAddr_as_usize (DmaPhysicalAddress_inner a)"

datatype StorageDataAddress = StorageDataAddress (StorageDataAddress_inner: DmaPhysicalAddress)

definition StorageDataAddress_as_u64 :: "StorageDataAddress \<Rightarrow> u64" where
  [address_defs]: "StorageDataAddress_as_u64 a = DmaPhysicalAddress_as_u64 (StorageDataAddress_inner a)"

definition StorageDataAddress_try_as_usize ::
    "StorageDataAddress \<Rightarrow> AddressConversionError + usize" where
  [address_defs]: "StorageDataAddress_try_as_usize a = DmaPhysicalAddress_try_as_usize (StorageDataAddress_inner a)"

definition StorageDataAddress_as_usize :: "StorageDataAddress \<Rightarrow> usize run" where
  [address_defs]: "StorageDataAddress_as_usize a = DmaPhysicalAddress_as_usize (StorageDataAddress_inner a)"

section \<open>Virtual addresses\<close>

datatype VirtAddr = VirtAddr (VirtAddr_as_u64: u64)

definition VirtAddr_try_as_usize :: "VirtAddr \<Rightarrow> AddressConversionError + usize" where
  [address_defs]: "VirtAddr_try_as_usize a =
     (case usize_try_from (VirtAddr_as_u64 a) of None \<Rightarrow> Inl DoesNotFitUsize | Some u \<Rightarrow> Inr u)"

definition VirtAddr_checked_add :: "VirtAddr \<Rightarrow> u64 \<Rightarrow> VirtAddr option" where
  [address_defs]: "VirtAddr_checked_add a offset =
     (case checked_add (VirtAddr_as_u64 a) offset of None \<Rightarrow> None | Some x \<Rightarrow> Some (VirtAddr x))"

definition VirtAddr_checked_sub :: "VirtAddr \<Rightarrow> u64 \<Rightarrow> VirtAddr option" where
  [address_defs]: "VirtAddr_checked_sub a offset =
     (case checked_sub (VirtAddr_as_u64 a) offset of None \<Rightarrow> None | Some x \<Rightarrow> Some (VirtAddr x))"

definition VirtAddr_align_down_to_page :: "VirtAddr \<Rightarrow> VirtAddr" where
  [address_defs]: "VirtAddr_align_down_to_page a = VirtAddr (VirtAddr_as_u64 a AND NOT (PAGE_SIZE - 1))"

datatype KernelVirtualAddress = KernelVirtualAddress (KernelVirtualAddress_inner: VirtAddr)

definition KernelVirtualAddress_as_u64 :: "KernelVirtualAddress \<Rightarrow> u64" where
  [address_defs]: "KernelVirtualAddress_as_u64 a = VirtAddr_as_u64 (KernelVirtualAddress_inner a)"

definition KernelVirtualAddress_try_as_usize ::
    "KernelVirtualAddress \<Rightarrow> AddressConversionError + usize" where
  [address_defs]: "KernelVirtualAddress_try_as_usize a = VirtAddr_try_as_usize (KernelVirtualAddress_inner a)"

definition KernelVirtualAddress_as_mut_ptr :: "KernelVirtualAddress \<Rightarrow> usize run" where
  [address_defs]: "KernelVirtualAddress_as_mut_ptr a =
     (case KernelVirtualAddress_try_as_usize a of Inl _ \<Rightarrow> Panic | Inr u \<Rightarrow> Done u)"

datatype KernelPageStart = KernelPageStart (KernelPageStart_as_address: VirtAddr)

definition KernelPageStart_as_u64 :: "KernelPageStart \<Rightarrow> u64" where
  [address_defs]: "KernelPageStart_as_u64 p = VirtAddr_as_u64 (KernelPageStart_as_address p)"

definition KernelPageStart_new :: "VirtAddr \<Rightarrow> KernelPageStart option" where
  [address_defs]: "KernelPageStart_new a =
     (if is_multiple_of (VirtAddr_as_u64 a) PAGE_SIZE
         \<and> KERNEL_DYNAMIC_MAPPING_START \<le> VirtAddr_as_u64 a
      then Some (KernelPageStart a) else None)"

definition KernelPageStart_checked_add :: "KernelPageStart \<Rightarrow> u64 \<Rightarrow> KernelPageStart option" where
  [address_defs]: "KernelPageStart_checked_add p offset =
     (case VirtAddr_checked_add (KernelPageStart_as_address p) offset of
        None \<Rightarrow> None | Some a \<Rightarrow> KernelPageStart_new a)"

datatype PageCount = PageCount (PageCount_as_u64: u64)

definition PageCount_new :: "u64 \<Rightarrow> PageCount option" where
  [address_defs]: "PageCount_new count =
     (if count = 0 \<or> (- 1) div PAGE_SIZE < count then None else Some (PageCount count))"

definition PageCount_byte_len :: "PageCount \<Rightarrow> u64" where
  [address_defs]: "PageCount_byte_len c = PageCount_as_u64 c * PAGE_SIZE"

record KernelVirtualRange =
  kvr_start :: KernelPageStart
  kvr_page_count :: PageCount

definition KernelVirtualRange_new :: "KernelPageStart \<Rightarrow> PageCount \<Rightarrow> KernelVirtualRange option" where
  [address_defs]: "KernelVirtualRange_new start page_count =
     (case checked_add (KernelPageStart_as_u64 start) (PageCount_byte_len page_count) of
        None \<Rightarrow> None
      | Some _ \<Rightarrow> Some \<lparr>kvr_start = start, kvr_page_count = page_count\<rparr>)"

definition KernelVirtualRange_byte_len :: "KernelVirtualRange \<Rightarrow> u64" where
  [address_defs]: "KernelVirtualRange_byte_len r = PageCount_byte_len (kvr_page_count r)"

definition KernelVirtualRange_end_exclusive :: "KernelVirtualRange \<Rightarrow> VirtAddr run" where
  [address_defs]: "KernelVirtualRange_end_exclusive r =
     expect (VirtAddr_checked_add (KernelPageStart_as_address (kvr_start r))
       (KernelVirtualRange_byte_len r))"

record FramebufferPhysicalRange =
  fpr_start :: PhysAddr
  fpr_byte_len :: u64

definition FramebufferPhysicalRange_new :: "PhysAddr \<Rightarrow> u64 \<Rightarrow> FramebufferPhysicalRange option" where
  [address_defs]: "FramebufferPhysicalRange_new start byte_len =
     (if byte_len = 0 then None else Some \<lparr>fpr_start = start, fpr_byte_len = byte_len\<rparr>)"

section \<open>Physical frames\<close>

datatype PhysicalFrameStart = PhysicalFrameStart (PhysicalFrameStart_as_address: PhysAddr)

definition PhysicalFrameStart_new :: "PhysAddr \<Rightarrow> PhysicalFrameStart option" where
  [address_defs]: "PhysicalFrameStart_new a =
     (if is_multiple_of (PhysAddr_as_u64 a) PAGE_SIZE then Some (PhysicalFrameStart a) else None)"

definition PhysicalFrameStart_as_u64 :: "PhysicalFrameStart \<Rightarrow> u64" where
  [address_defs]: "PhysicalFrameStart_as_u64 f = PhysAddr_as_u64 (PhysicalFrameStart_as_address f)"

definition PhysicalFrameStart_try_as_usize ::
    "PhysicalFrameStart \<Rightarrow> AddressConversionError + usize" where
  [address_defs]: "PhysicalFrameStart_try_as_usize f = PhysAddr_try_as_usize (PhysicalFrameStart_as_address f)"

definition PhysicalFrameStart_as_usize :: "PhysicalFrameStart \<Rightarrow> usize run" where
  [address_defs]: "PhysicalFrameStart_as_usize f = PhysAddr_as_usize (PhysicalFrameStart_as_address f)"

definition PhysicalFrameStart_as_identity_mapped_kernel_address ::
    "PhysicalFrameStart \<Rightarrow> KernelVirtualAddress" where
  [address_defs]: "PhysicalFrameStart_as_identity_mapped_kernel_address f =
     KernelVirtualAddress (VirtAddr (PhysicalFrameStart_as_u64 f))"

definition PhysicalFrameStart_as_dma_address :: "PhysicalFrameStart \<Rightarrow> DmaPhysicalAddress" where
  [address_defs]: "PhysicalFrameStart_as_dma_address f = DmaPhysicalAddress (PhysicalFrameStart_as_address f)"

datatype FrameCount = FrameCount (FrameCount_as_u64: u64)

definition FrameCount_new :: "u64 \<Rightarrow> FrameCount option" where
  [address_defs]: "FrameCount_new count =
     (if count = 0 \<or> (- 1) div PAGE_SIZE < count then None else Some (FrameCount count))"

definition FrameCount_byte_len :: "FrameCount \<Rightarrow> u64" where
  [address_defs]: "FrameCount_byte_len c = FrameCount_as_u64 c * PAGE_SIZE"

record PhysicalFrameRange =
  pfr_start :: PhysicalFrameStart
  pfr_frame_count :: FrameCount

definition PhysicalFrameRange_new ::
    "PhysicalFrameStart \<Rightarrow> FrameCount \<Rightarrow> PhysicalFrameRange option" where
  [address_defs]: "PhysicalFrameRange_new start frame_count =
     (case checked_add (PhysicalFrameStart_as_u64 start) (FrameCount_byte_len frame_count) of
        None \<Rightarrow> None
      | Some _ \<Rightarrow> Some \<lparr>pfr_start = start, pfr_frame_count = frame_count\<rparr>)"

definition PhysicalFrameRange_byte_len :: "PhysicalFrameRange \<Rightarrow> u64" where
  [address_defs]: "PhysicalFrameRange_byte_len r = FrameCount_byte_len (pfr_frame_count r)"

section \<open>User addresses\<close>

datatype UserVirtualAddress = UserVirtualAddress (UserVirtualAddress_as_address: VirtAddr)

definition UserVirtualAddress_new :: "VirtAddr \<Rightarrow> UserVirtualAddress option" where
  [address_defs]: "UserVirtualAddress_new a =
     (if VirtAddr_as_u64 a \<noteq> 0 \<and> VirtAddr_as_u64 a < USER_SPACE_END
      then Some (UserVirtualAddress a) else None)"

definition UserVirtualAddress_as_u64 :: "UserVirtualAddress \<Rightarrow> u64" where
  [address_defs]: "UserVirtualAddress_as_u64 u = VirtAddr_as_u64 (UserVirtualAddress_as_address u)"

definition UserVirtualAddress_try_as_usize ::
    "UserVirtualAddress \<Rightarrow> AddressConversionError + usize" where
  [address_defs]: "UserVirtualAddress_try_as_usize u = VirtAddr_try_as_usize (UserVirtualAddress_as_address u)"

definition UserVirtualAddress_as_usize :: "UserVirtualAddress \<Rightarrow> usize run" where
  [address_defs]: "UserVirtualAddress_as_usize u =
     (case UserVirtualAddress_try_as_usize u of Inl _ \<Rightarrow> Panic | Inr x \<Rightarrow> Done x)"

definition UserVirtualAddress_checked_add ::
    "UserVirtualAddress \<Rightarrow> u64 \<Rightarrow> UserVirtualAddress option" where
  [address_defs]: "UserVirtualAddress_checked_add u offset =
     (case VirtAddr_checked_add (UserVirtualAddress_as_address u) offset of
        None \<Rightarrow> None | Some a \<Rightarrow> UserVirtualAddress_new a)"

definition UserVirtualAddress_checked_sub ::
    "UserVirtualAddress \<Rightarrow> u64 \<Rightarrow> UserVirtualAddress option" where
  [address_defs]: "UserVirtualAddress_checked_sub u offset =
     (case VirtAddr_checked_sub (UserVirtualAddress_as_address u) offset of
        None \<Rightarrow> None | Some a \<Rightarrow> UserVirtualAddress_new a)"

datatype UserPageStart = UserPageStart (UserPageStart_as_address: UserVirtualAddress)

definition UserPageStart_new :: "UserVirtualAddress \<Rightarrow> UserPageStart option" where
  [address_defs]: "UserPageStart_new u =
     (if is_multiple_of (UserVirtualAddress_as_u64 u) PAGE_SIZE then Some (UserPageStart u) else None)"

definition UserVirtualAddress_align_down_to_page :: "UserVirtualAddress \<Rightarrow> UserPageStart option" where
  [address_defs]: "UserVirtualAddress_align_down_to_page u =
     (case UserVirtualAddress_new (VirtAddr_align_down_to_page (UserVirtualAddress_as_address u)) of
        None \<Rightarrow> None | Some a \<Rightarrow> UserPageStart_new a)"

definition UserVirtualAddress_align_up_to_page :: "UserVirtualAddress \<Rightarrow> UserPageStart option" where
  [address_defs]: "UserVirtualAddress_align_up_to_page u =
     (case VirtAddr_checked_add (UserVirtualAddress_as_address u) (PAGE_SIZE - 1) of
        None \<Rightarrow> None
      | Some a \<Rightarrow>
          (case UserVirtualAddress_new (VirtAddr_align_down_to_page a) of
             None \<Rightarrow> None | Some b \<Rightarrow> UserPageStart_new b))"

definition UserPageStart_as_u64 :: "UserPageStart \<Rightarrow> u64" where
  [address_defs]: "UserPageStart_as_u64 p = UserVirtualAddress_as_u64 (UserPageStart_as_address p)"

definition UserPageStart_try_as_usize :: "UserPageStart \<Rightarrow> AddressConversionError + usize" where
  [address_defs]: "UserPageStart_try_as_usize p = UserVirtualAddress_try_as_usize (UserPageStart_as_address p)"

definition UserPageStart_checked_add :: "UserPageStart \<Rightarrow> u64 \<Rightarrow> UserPageStart option" where
  [address_defs]: "UserPageStart_checked_add p offset =
     (case UserVirtualAddress_checked_add (UserPageStart_as_address p) offset of
        None \<Rightarrow> None | Some u \<Rightarrow> UserPageStart_new u)"

definition UserPageStart_checked_sub :: "UserPageStart \<Rightarrow> u64 \<Rightarrow> UserPageStart option" where
  [address_defs]: "UserPageStart_checked_sub p offset =
     (case UserVirtualAddress_checked_sub (UserPageStart_as_address p) offset of
        None \<Rightarrow> None | Some u \<Rightarrow> UserPageStart_new u)"

section \<open>User ranges\<close>

record UserVirtualRange =
  uvr_start :: UserVirtualAddress
  uvr_byte_len :: usize

definition UserVirtualRange_new :: "UserVirtualAddress \<Rightarrow> usize \<Rightarrow> UserVirtualRange option" where
  [address_defs]: "UserVirtualRange_new start byte_len =
     (if byte_len = 0 then None
      else case VirtAddr_checked_add (UserVirtualAddress_as_address start) byte_len of
             None \<Rightarrow> None
           | Some e \<Rightarrow>
               if USER_SPACE_END < VirtAddr_as_u64 e then None
               else Some \<lparr>uvr_start = start, uvr_byte_len = byte_len\<rparr>)"

definition UserVirtualRange_from_syscall_arguments :: "u64 \<Rightarrow> u64 \<Rightarrow> UserVirtualRange option" where
  [address_defs]: "UserVirtualRange_from_syscall_arguments user_pointer byte_len =
     (case usize_try_from byte_len of
        None \<Rightarrow> None
      | Some byte_len \<Rightarrow>
          (case UserVirtualAddress_new (VirtAddr user_pointer) of
             None \<Rightarrow> None | Some start \<Rightarrow> UserVirtualRange_new start byte_len))"

definition UserVirtualRange_end_exclusive :: "UserVirtualRange \<Rightarrow> VirtAddr run" where
  [address_defs]: "UserVirtualRange_end_exclusive r =
     expect (VirtAddr_checked_add (UserVirtualAddress_as_address (uvr_start r)) (uvr_byte_len r))"

definition UserVirtualRange_first_page_start :: "UserVirtualRange \<Rightarrow> UserPageStart option" where
  [address_defs]: "UserVirtualRange_first_page_start r = UserVirtualAddress_align_down_to_page (uvr_start r)"

definition UserVirtualRange_last_page_start :: "UserVirtualRange \<Rightarrow> UserPageStart option run" where
  [address_defs]: "UserVirtualRange_last_page_start r =
     bind_run (UserVirtualRange_end_exclusive r) (\<lambda>e.
       Done (case VirtAddr_checked_sub e 1 of
               None \<Rightarrow> None
             | Some last_address \<Rightarrow>
                 (case UserVirtualAddress_new last_address of
                    None \<Rightarrow> None
                  | Some last_user_address \<Rightarrow> UserVirtualAddress_align_down_to_page last_user_address)))"

datatype UserReadableRange = UserReadableRange (UserReadableRange_as_range: UserVirtualRange)

definition UserReadableRange_from_syscall_arguments :: "u64 \<Rightarrow> u64 \<Rightarrow> UserReadableRange option" where
  [address_defs]: "UserReadableRange_from_syscall_arguments user_pointer byte_len =
     map_option UserReadableRange (UserVirtualRange_from_syscall_arguments user_pointer byte_len)"

datatype UserCString = UserCString (UserCString_as_readable_range: UserReadableRange)

definition UserCString_from_syscall_arguments :: "u64 \<Rightarrow> u64 \<Rightarrow> UserCString option" where
  [address_defs]: "UserCString_from_syscall_arguments user_pointer byte_len =
     map_option UserCString (UserReadableRange_from_syscall_arguments user_pointer byte_len)"

datatype UserWritableRange = UserWritableRange (UserWritableRange_as_range: UserVirtualRange)

definition UserWritableRange_from_syscall_arguments :: "u64 \<Rightarrow> u64 \<Rightarrow> UserWritableRange option" where
  [address_defs]: "UserWritableRange_from_syscall_arguments user_pointer byte_len =
     map_option UserWritableRange (UserVirtualRange_from_syscall_arguments user_pointer byte_len)"

section \<open>Page rounding\<close>

lemma page_mask_eq: "PAGE_SIZE - 1 = (mask 12 :: u64)"
  by (simp add: mask_eq_exp_minus_1)

lemma unat_page_mask [unat_simps]:
  "unat (x AND NOT (PAGE_SIZE - 1)) = unat x - unat x mod 4096"
  unfolding page_mask_eq unat_and_not_mask by simp

lemma VirtAddr_align_down_unat [unat_simps]:
  "unat (VirtAddr_as_u64 (VirtAddr_align_down_to_page a))
     = unat (VirtAddr_as_u64 a) - unat (VirtAddr_as_u64 a) mod 4096"
  unfolding VirtAddr_align_down_to_page_def VirtAddr.sel by (rule unat_page_mask)

lemma is_multiple_of_page: "is_multiple_of x PAGE_SIZE \<longleftrightarrow> 4096 dvd unat x"
  by (simp add: is_multiple_of_iff)

lemma align_down_page_dvd: "4096 dvd n - n mod (4096::nat)"
  by (simp add: minus_mod_eq_mult_div)

lemma align_down_page_greatest:
  assumes "4096 dvd m" "m \<le> (n::nat)"
  shows "m \<le> n - n mod 4096"
proof -
  from assms obtain k where "m = 4096 * k" by (auto elim: dvdE)
  with assms(2) have "k \<le> n div 4096" by (simp add: less_eq_div_iff_mult_less_eq ac_simps)
  with \<open>m = 4096 * k\<close> show ?thesis by (simp add: minus_mod_eq_mult_div)
qed

section \<open>Type invariants\<close>

definition user_address_ok :: "UserVirtualAddress \<Rightarrow> bool" where
  "user_address_ok u \<longleftrightarrow> UserVirtualAddress_as_u64 u \<noteq> 0 \<and> UserVirtualAddress_as_u64 u < USER_SPACE_END"

definition user_page_ok :: "UserPageStart \<Rightarrow> bool" where
  "user_page_ok p \<longleftrightarrow> user_address_ok (UserPageStart_as_address p)
     \<and> 4096 dvd unat (UserPageStart_as_u64 p)"

definition user_range_ok :: "UserVirtualRange \<Rightarrow> bool" where
  "user_range_ok r \<longleftrightarrow> user_address_ok (uvr_start r) \<and> uvr_byte_len r \<noteq> 0
     \<and> unat (UserVirtualAddress_as_u64 (uvr_start r)) + unat (uvr_byte_len r) \<le> unat USER_SPACE_END"

definition kernel_page_ok :: "KernelPageStart \<Rightarrow> bool" where
  "kernel_page_ok p \<longleftrightarrow> KERNEL_DYNAMIC_MAPPING_START \<le> KernelPageStart_as_u64 p
     \<and> 4096 dvd unat (KernelPageStart_as_u64 p)"

definition page_count_ok :: "PageCount \<Rightarrow> bool" where
  "page_count_ok c \<longleftrightarrow> PageCount_as_u64 c \<noteq> 0 \<and> unat (PageCount_as_u64 c) < 2 ^ 52"

definition frame_start_ok :: "PhysicalFrameStart \<Rightarrow> bool" where
  "frame_start_ok f \<longleftrightarrow> 4096 dvd unat (PhysicalFrameStart_as_u64 f)"

definition frame_count_ok :: "FrameCount \<Rightarrow> bool" where
  "frame_count_ok c \<longleftrightarrow> FrameCount_as_u64 c \<noteq> 0 \<and> unat (FrameCount_as_u64 c) < 2 ^ 52"

lemma UserVirtualAddress_new_Some_iff:
  "UserVirtualAddress_new a = Some u \<longleftrightarrow> UserVirtualAddress_as_address u = a \<and> user_address_ok u"
  by (cases u) (auto simp: UserVirtualAddress_new_def user_address_ok_def UserVirtualAddress_as_u64_def)

lemma UserPageStart_new_Some_iff:
  "UserPageStart_new u = Some p \<longleftrightarrow>
     UserPageStart_as_address p = u \<and> 4096 dvd unat (UserPageStart_as_u64 p)"
  by (cases p) (auto simp: UserPageStart_new_def UserPageStart_as_u64_def is_multiple_of_page)

lemma KernelPageStart_new_Some_iff:
  "KernelPageStart_new a = Some p \<longleftrightarrow> KernelPageStart_as_address p = a \<and> kernel_page_ok p"
  by (cases p) (auto simp: KernelPageStart_new_def kernel_page_ok_def KernelPageStart_as_u64_def
      is_multiple_of_page)

lemma PageCount_new_Some_iff:
  "PageCount_new c = Some n \<longleftrightarrow> PageCount_as_u64 n = c \<and> page_count_ok n"
  by (cases n) (auto simp: PageCount_new_def page_count_ok_def word_less_nat_alt)

lemma FrameCount_new_Some_iff:
  "FrameCount_new c = Some n \<longleftrightarrow> FrameCount_as_u64 n = c \<and> frame_count_ok n"
  by (cases n) (auto simp: FrameCount_new_def frame_count_ok_def word_less_nat_alt)

lemma PageCount_byte_len_unat:
  "page_count_ok c \<Longrightarrow> unat (PageCount_byte_len c) = unat (PageCount_as_u64 c) * 4096"
  by (simp add: page_count_ok_def PageCount_byte_len_def unat_word_ariths)

lemma FrameCount_byte_len_unat:
  "frame_count_ok c \<Longrightarrow> unat (FrameCount_byte_len c) = unat (FrameCount_as_u64 c) * 4096"
  by (simp add: frame_count_ok_def FrameCount_byte_len_def unat_word_ariths)

section \<open>Operations keep the invariants\<close>

lemma VirtAddr_checked_add_Some_iff:
  "VirtAddr_checked_add a n = Some b \<longleftrightarrow>
     unat (VirtAddr_as_u64 b) = unat (VirtAddr_as_u64 a) + unat n"
  by (cases b) (simp add: VirtAddr_checked_add_def option_iffs checked_iffs)

lemma VirtAddr_checked_sub_Some_iff:
  "VirtAddr_checked_sub a n = Some b \<longleftrightarrow>
     unat (VirtAddr_as_u64 a) = unat (VirtAddr_as_u64 b) + unat n"
  by (cases b) (auto simp: VirtAddr_checked_sub_def option_iffs checked_iffs)

lemma UserVirtualAddress_checked_add_Some_iff:
  "UserVirtualAddress_checked_add u n = Some v \<longleftrightarrow> user_address_ok v
     \<and> unat (UserVirtualAddress_as_u64 v) = unat (UserVirtualAddress_as_u64 u) + unat n"
  by (auto simp: UserVirtualAddress_checked_add_def UserVirtualAddress_as_u64_def
      UserVirtualAddress_new_Some_iff VirtAddr_checked_add_Some_iff option_iffs)

lemma UserVirtualAddress_checked_sub_Some_iff:
  "UserVirtualAddress_checked_sub u n = Some v \<longleftrightarrow> user_address_ok v
     \<and> unat (UserVirtualAddress_as_u64 u) = unat (UserVirtualAddress_as_u64 v) + unat n"
  by (auto simp: UserVirtualAddress_checked_sub_def UserVirtualAddress_as_u64_def
      UserVirtualAddress_new_Some_iff VirtAddr_checked_sub_Some_iff option_iffs)

lemma UserPageStart_checked_add_Some_iff:
  "UserPageStart_checked_add p n = Some q \<longleftrightarrow> user_page_ok q
     \<and> unat (UserPageStart_as_u64 q) = unat (UserPageStart_as_u64 p) + unat n"
  by (auto simp: UserPageStart_checked_add_def UserPageStart_as_u64_def user_page_ok_def
      UserPageStart_new_Some_iff UserVirtualAddress_checked_add_Some_iff option_iffs)

lemma UserPageStart_checked_sub_Some_iff:
  "UserPageStart_checked_sub p n = Some q \<longleftrightarrow> user_page_ok q
     \<and> unat (UserPageStart_as_u64 p) = unat (UserPageStart_as_u64 q) + unat n"
  by (auto simp: UserPageStart_checked_sub_def UserPageStart_as_u64_def user_page_ok_def
      UserPageStart_new_Some_iff UserVirtualAddress_checked_sub_Some_iff option_iffs)

lemma KernelPageStart_checked_add_Some_iff:
  "KernelPageStart_checked_add p n = Some q \<longleftrightarrow> kernel_page_ok q
     \<and> unat (KernelPageStart_as_u64 q) = unat (KernelPageStart_as_u64 p) + unat n"
  by (auto simp: KernelPageStart_checked_add_def KernelPageStart_as_u64_def
      KernelPageStart_new_Some_iff VirtAddr_checked_add_Some_iff option_iffs)

lemma user_address_ok_unat:
  "user_address_ok u \<longleftrightarrow> 0 < unat (UserVirtualAddress_as_u64 u)
     \<and> unat (UserVirtualAddress_as_u64 u) < 0x800000000000"
  by (simp add: user_address_ok_def word_less_nat_alt unat_gt_0)

lemma align_down_Some_iff:
  "UserVirtualAddress_align_down_to_page u = Some p \<longleftrightarrow> user_page_ok p
     \<and> unat (UserPageStart_as_u64 p)
         = unat (UserVirtualAddress_as_u64 u) - unat (UserVirtualAddress_as_u64 u) mod 4096"
proof -
  have eq: "VirtAddr_align_down_to_page a = b \<longleftrightarrow>
      unat (VirtAddr_as_u64 b) = unat (VirtAddr_as_u64 a) - unat (VirtAddr_as_u64 a) mod 4096" for a b
    by (metis VirtAddr_align_down_unat VirtAddr.expand word_unat_eq_iff)
  show ?thesis
    unfolding UserVirtualAddress_align_down_to_page_def option_iffs
      UserVirtualAddress_new_Some_iff UserPageStart_new_Some_iff
      eq [symmetric] user_page_ok_def UserPageStart_as_u64_def UserVirtualAddress_as_u64_def
    by auto
qed

lemma align_up_Some_iff:
  "UserVirtualAddress_align_up_to_page u = Some p \<longleftrightarrow> user_page_ok p
     \<and> unat (UserPageStart_as_u64 p) = (unat (UserVirtualAddress_as_u64 u) + 4095) div 4096 * 4096
     \<and> unat (UserVirtualAddress_as_u64 u) + 4095 < 2 ^ 64"
  (is "?l \<longleftrightarrow> ?r")
proof -
  have eq: "VirtAddr_align_down_to_page a = b \<longleftrightarrow>
      unat (VirtAddr_as_u64 b) = unat (VirtAddr_as_u64 a) - unat (VirtAddr_as_u64 a) mod 4096" for a b
    by (metis VirtAddr_align_down_unat VirtAddr.expand word_unat_eq_iff)
  have "?l \<longleftrightarrow> (\<exists>a. unat (VirtAddr_as_u64 a) = unat (UserVirtualAddress_as_u64 u) + 4095
     \<and> VirtAddr_align_down_to_page a = UserVirtualAddress_as_address (UserPageStart_as_address p)
     \<and> user_page_ok p)"
    unfolding UserVirtualAddress_align_up_to_page_def option_iffs
      UserVirtualAddress_new_Some_iff UserPageStart_new_Some_iff VirtAddr_checked_add_Some_iff
      user_page_ok_def UserPageStart_as_u64_def UserVirtualAddress_as_u64_def
    by auto
  also have "\<dots> \<longleftrightarrow> (\<exists>a. unat (VirtAddr_as_u64 a) = unat (UserVirtualAddress_as_u64 u) + 4095) \<and> user_page_ok p
     \<and> unat (UserPageStart_as_u64 p) = (unat (UserVirtualAddress_as_u64 u) + 4095) div 4096 * 4096"
    unfolding eq UserPageStart_as_u64_def UserVirtualAddress_as_u64_def
    by (auto simp: minus_mod_eq_div_mult)
  also have "(\<exists>a. unat (VirtAddr_as_u64 a) = unat (UserVirtualAddress_as_u64 u) + 4095)
     \<longleftrightarrow> unat (UserVirtualAddress_as_u64 u) + 4095 < 2 ^ 64" (is "?e \<longleftrightarrow> ?b")
  proof
    assume ?e
    then obtain a where "unat (UserVirtualAddress_as_u64 u) + 4095 = unat (VirtAddr_as_u64 a)" by metis
    with unat_u64_bound [of "VirtAddr_as_u64 a"] show ?b by simp
  next
    assume ?b
    then have "unat (VirtAddr_as_u64 (VirtAddr (UserVirtualAddress_as_u64 u + 4095)))
        = unat (UserVirtualAddress_as_u64 u) + 4095"
      by (simp add: unat_word_ariths)
    then show ?e by blast
  qed
  finally show ?thesis by blast
qed

lemma UserVirtualRange_new_Some_iff:
  assumes "user_address_ok start"
  shows "UserVirtualRange_new start n = Some r \<longleftrightarrow>
     uvr_start r = start \<and> uvr_byte_len r = n \<and> user_range_ok r"
proof -
  have "UserVirtualRange_new start n = Some r \<longleftrightarrow> n \<noteq> 0
     \<and> (\<exists>e. unat (VirtAddr_as_u64 e) = unat (UserVirtualAddress_as_u64 start) + unat n
           \<and> unat (VirtAddr_as_u64 e) \<le> unat USER_SPACE_END)
     \<and> \<lparr>uvr_start = start, uvr_byte_len = n\<rparr> = r"
    unfolding UserVirtualRange_new_def option_iffs VirtAddr_checked_add_Some_iff
      UserVirtualAddress_as_u64_def word_less_nat_alt not_less
    by auto
  also have "(\<exists>e. unat (VirtAddr_as_u64 e) = unat (UserVirtualAddress_as_u64 start) + unat n
           \<and> unat (VirtAddr_as_u64 e) \<le> unat USER_SPACE_END)
     \<longleftrightarrow> unat (UserVirtualAddress_as_u64 start) + unat n \<le> unat USER_SPACE_END" (is "?e \<longleftrightarrow> ?b")
  proof
    assume ?b
    then have "unat (VirtAddr_as_u64 (VirtAddr (UserVirtualAddress_as_u64 start + n)))
        = unat (UserVirtualAddress_as_u64 start) + unat n"
      by (simp add: unat_word_ariths)
    with \<open>?b\<close> show ?e by metis
  qed auto
  finally show ?thesis
    using assms by (cases r) (auto simp: user_range_ok_def)
qed

lemma UserVirtualRange_end_exclusive_Done:
  assumes "user_range_ok r"
  shows "UserVirtualRange_end_exclusive r
     = Done (VirtAddr (UserVirtualAddress_as_u64 (uvr_start r) + uvr_byte_len r))"
proof -
  have "unat (UserVirtualAddress_as_u64 (uvr_start r)) + unat (uvr_byte_len r) < 2 ^ 64"
    using assms by (simp add: user_range_ok_def)
  then show ?thesis
    by (simp add: UserVirtualRange_end_exclusive_def expect_Done_iff VirtAddr_checked_add_Some_iff
        UserVirtualAddress_as_u64_def unat_word_ariths)
qed

lemma range_end_unat:
  assumes "user_range_ok r"
  shows "unat (UserVirtualAddress_as_u64 (uvr_start r) + uvr_byte_len r)
     = unat (UserVirtualAddress_as_u64 (uvr_start r)) + unat (uvr_byte_len r)"
  using assms by (simp add: user_range_ok_def unat_word_ariths)

lemma last_page_start_Done:
  assumes "user_range_ok r"
    and "unat b = unat (UserVirtualAddress_as_u64 (uvr_start r)) + unat (uvr_byte_len r) - 1"
  shows "UserVirtualRange_last_page_start r
     = Done (UserVirtualAddress_align_down_to_page (UserVirtualAddress (VirtAddr b)))"
proof -
  let ?e = "UserVirtualAddress_as_u64 (uvr_start r) + uvr_byte_len r"
  have len: "0 < unat (uvr_byte_len r)" using assms(1) by (simp add: user_range_ok_def unat_gt_0)
  have sub: "VirtAddr_checked_sub (VirtAddr ?e) 1 = Some (VirtAddr b)"
    using assms len by (simp add: VirtAddr_checked_sub_Some_iff range_end_unat)
  have new: "UserVirtualAddress_new (VirtAddr b) = Some (UserVirtualAddress (VirtAddr b))"
    using assms len
    by (auto simp: UserVirtualAddress_new_Some_iff user_address_ok_unat user_range_ok_def
        UserVirtualAddress_as_u64_def)
  show ?thesis
    by (simp add: UserVirtualRange_last_page_start_def UserVirtualRange_end_exclusive_Done
        assms(1) sub new)
qed

lemma align_down_Some:
  assumes "user_address_ok u" "4096 \<le> unat (UserVirtualAddress_as_u64 u)"
  shows "\<exists>p. UserVirtualAddress_align_down_to_page u = Some p"
proof -
  let ?n = "unat (UserVirtualAddress_as_u64 u)"
  define m where "m = ?n - ?n mod 4096"
  let ?p = "UserPageStart (UserVirtualAddress (VirtAddr (of_nat m)))"
  have b: "?n < 0x800000000000" using assms(1) by (simp add: user_address_ok_unat)
  then have "m < 0x800000000000" by (simp add: m_def)
  then have n: "unat (UserPageStart_as_u64 ?p) = m"
    by (simp add: UserPageStart_as_u64_def UserVirtualAddress_as_u64_def unat_of_nat)
  have "4096 \<le> m" unfolding m_def by (rule align_down_page_greatest) (use assms(2) in simp_all)
  moreover have "4096 dvd m" unfolding m_def by (rule align_down_page_dvd)
  ultimately have "user_page_ok ?p"
    using n \<open>m < 0x800000000000\<close>
    by (simp only: user_page_ok_def user_address_ok_unat flip: UserPageStart_as_u64_def) simp
  with n have "UserVirtualAddress_align_down_to_page u = Some ?p"
    by (simp only: align_down_Some_iff m_def)
  then show ?thesis by blast
qed

section \<open>Properties\<close>

abbreviation page_nat :: "UserPageStart \<Rightarrow> nat" where
  "page_nat p \<equiv> unat (UserPageStart_as_u64 p)"

abbreviation user_nat :: "UserVirtualAddress \<Rightarrow> nat" where
  "user_nat u \<equiv> unat (UserVirtualAddress_as_u64 u)"

lemma user_page_ok_unat:
  "user_page_ok p \<longleftrightarrow> 4096 dvd page_nat p \<and> 0 < page_nat p \<and> page_nat p < 0x800000000000"
  by (auto simp: user_page_ok_def user_address_ok_unat UserPageStart_as_u64_def)

lemma user_range_ok_unat:
  "user_range_ok r \<longleftrightarrow> 0 < user_nat (uvr_start r) \<and> 0 < unat (uvr_byte_len r)
     \<and> user_nat (uvr_start r) + unat (uvr_byte_len r) \<le> 0x800000000000"
  unfolding user_range_ok_def user_address_ok_unat unat_gt_0 [symmetric] by auto

lemma user_page_exists:
  assumes "4096 dvd m" "0 < m" "m < 0x800000000000"
  shows "\<exists>p. user_page_ok p \<and> page_nat p = m"
proof -
  let ?p = "UserPageStart (UserVirtualAddress (VirtAddr (of_nat m)))"
  have "page_nat ?p = m"
    using assms(3) by (simp add: UserPageStart_as_u64_def UserVirtualAddress_as_u64_def unat_of_nat)
  with assms show ?thesis by (auto simp: user_page_ok_unat intro!: exI [of _ ?p])
qed

lemma page_multiples_le: "4096 dvd x \<Longrightarrow> 4096 dvd y \<Longrightarrow> x < y + 4096 \<Longrightarrow> x \<le> (y::nat)"
  by (auto elim!: dvdE)

lemma round_down_char:
  "4096 dvd m \<and> m \<le> n \<and> n < m + 4096 \<longleftrightarrow> m = n - n mod (4096::nat)"
proof
  assume "4096 dvd m \<and> m \<le> n \<and> n < m + 4096"
  then obtain k where k: "m = 4096 * k" "4096 * k \<le> n" "n < 4096 * k + 4096" by (auto elim: dvdE)
  then have "n div 4096 = k" by (intro div_nat_eqI) auto
  with k show "m = n - n mod 4096" by (simp add: minus_mod_eq_mult_div)
next
  assume "m = n - n mod 4096"
  moreover have "n mod 4096 < 4096" by simp
  moreover have "n mod 4096 \<le> n" by simp
  ultimately show "4096 dvd m \<and> m \<le> n \<and> n < m + 4096"
    using align_down_page_dvd [of n] by (metis add.commute diff_le_self le_add_diff_inverse nat_add_left_cancel_less)
qed

lemma round_up_char:
  "4096 dvd m \<and> n \<le> m \<and> m < n + 4096 \<longleftrightarrow> m = (n + 4095) div (4096::nat) * 4096"
proof -
  have "4096 dvd m \<and> n \<le> m \<and> m < n + 4096 \<longleftrightarrow> 4096 dvd m \<and> m \<le> n + 4095 \<and> n + 4095 < m + 4096"
    by auto
  then show ?thesis
    unfolding round_down_char by (simp add: minus_mod_eq_div_mult)
qed

text \<open>
  C30: the gate every system call pointer passes. \<open>UserVirtualRange::from_syscall_arguments\<close>
  accepts a raw pointer and length exactly when both are non-zero and the byte range ends at
  or below the user-space ceiling; the accepted range is the one asked for and computing its
  exclusive end never panics and never wraps.
\<close>

theorem from_syscall_arguments_exact:
  "UserVirtualRange_from_syscall_arguments p n = Some r \<longleftrightarrow>
     p \<noteq> 0 \<and> n \<noteq> 0 \<and> unat p + unat n \<le> 0x800000000000
     \<and> UserVirtualAddress_as_u64 (uvr_start r) = p \<and> uvr_byte_len r = n
     \<and> UserVirtualRange_end_exclusive r = Done (VirtAddr (p + n))
     \<and> unat (p + n) = unat p + unat n" (is "?l \<longleftrightarrow> ?r")
proof -
  have "?l \<longleftrightarrow> (\<exists>u. UserVirtualAddress_as_u64 u = p \<and> user_address_ok u \<and> UserVirtualRange_new u n = Some r)"
    unfolding UserVirtualRange_from_syscall_arguments_def usize_try_from_def option.case option_iffs
      UserVirtualAddress_new_Some_iff UserVirtualAddress_as_u64_def
    by (metis VirtAddr.collapse VirtAddr.sel)
  also have "\<dots> \<longleftrightarrow> UserVirtualAddress_as_u64 (uvr_start r) = p \<and> uvr_byte_len r = n \<and> user_range_ok r"
    using UserVirtualRange_new_Some_iff by (auto simp: user_range_ok_def)
  also have "\<dots> \<longleftrightarrow> ?r"
    using UserVirtualRange_end_exclusive_Done [of r] range_end_unat [of r]
    by (auto simp: user_range_ok_unat unat_gt_0)
  finally show ?thesis .
qed

text \<open>
  C31: page rounding of user addresses. For every valid user address, rounding down gives the
  greatest user page at or below it and rounding up the least user page at or above it, and
  each fails exactly when no such user page exists.
\<close>

theorem page_rounding_exact:
  assumes "user_address_ok u"
  shows "(UserVirtualAddress_align_down_to_page u = Some p \<longleftrightarrow>
           user_page_ok p \<and> page_nat p \<le> user_nat u
           \<and> (\<forall>q. user_page_ok q \<longrightarrow> page_nat q \<le> user_nat u \<longrightarrow> page_nat q \<le> page_nat p))
       \<and> (UserVirtualAddress_align_up_to_page u = Some p \<longleftrightarrow>
           user_page_ok p \<and> user_nat u \<le> page_nat p
           \<and> (\<forall>q. user_page_ok q \<longrightarrow> user_nat u \<le> page_nat q \<longrightarrow> page_nat p \<le> page_nat q))"
proof -
  have u: "0 < user_nat u" "user_nat u < 0x800000000000"
    using assms by (simp_all add: user_address_ok_unat)
  have down: "user_nat u < page_nat p + 4096"
    if p: "user_page_ok p" "page_nat p \<le> user_nat u"
      and g: "\<forall>q. user_page_ok q \<longrightarrow> page_nat q \<le> user_nat u \<longrightarrow> page_nat q \<le> page_nat p"
  proof (rule ccontr)
    assume "\<not> user_nat u < page_nat p + 4096"
    moreover from p have "4096 dvd page_nat p + 4096" by (simp add: user_page_ok_unat)
    ultimately obtain q where "user_page_ok q" "page_nat q = page_nat p + 4096"
      using user_page_exists [of "page_nat p + 4096"] u by auto
    with g \<open>\<not> user_nat u < page_nat p + 4096\<close> show False by force
  qed
  have up: "page_nat p < user_nat u + 4096"
    if p: "user_page_ok p" "user_nat u \<le> page_nat p"
      and g: "\<forall>q. user_page_ok q \<longrightarrow> user_nat u \<le> page_nat q \<longrightarrow> page_nat p \<le> page_nat q"
  proof (rule ccontr)
    assume n: "\<not> page_nat p < user_nat u + 4096"
    have "4096 dvd page_nat p - 4096" "page_nat p - 4096 < 0x800000000000"
      using p unfolding user_page_ok_unat by auto
    with n u obtain q where "user_page_ok q" "page_nat q = page_nat p - 4096"
      using user_page_exists [of "page_nat p - 4096"] by fastforce
    with g n u show False by force
  qed
  have "UserVirtualAddress_align_down_to_page u = Some p \<longleftrightarrow>
      user_page_ok p \<and> page_nat p \<le> user_nat u \<and> user_nat u < page_nat p + 4096"
    unfolding align_down_Some_iff by (metis round_down_char user_page_ok_unat)
  moreover have "UserVirtualAddress_align_up_to_page u = Some p \<longleftrightarrow>
      user_page_ok p \<and> user_nat u \<le> page_nat p \<and> page_nat p < user_nat u + 4096"
    unfolding align_up_Some_iff using u by (auto simp flip: round_up_char simp: user_page_ok_unat)
  moreover have "page_nat q \<le> page_nat p"
    if "user_page_ok p" "user_page_ok q" "user_nat u < page_nat p + 4096" "page_nat q \<le> user_nat u" for q
    by (rule page_multiples_le) (use that in \<open>simp_all add: user_page_ok_unat\<close>)
  moreover have "page_nat p \<le> page_nat q"
    if "user_page_ok p" "user_page_ok q" "page_nat p < user_nat u + 4096" "user_nat u \<le> page_nat q" for q
    by (rule page_multiples_le) (use that in \<open>simp_all add: user_page_ok_unat\<close>)
  ultimately show ?thesis using down up by blast
qed

theorem page_rounding_exact_witness:
  "user_address_ok (UserVirtualAddress (VirtAddr 5000))
   \<and> UserVirtualAddress_align_down_to_page (UserVirtualAddress (VirtAddr 5000))
       = Some (UserPageStart (UserVirtualAddress (VirtAddr 4096)))
   \<and> {q. user_page_ok q \<and> page_nat q \<le> 5000} \<subseteq> {q. page_nat q \<le> 4096}"
proof -
  have ok: "user_address_ok (UserVirtualAddress (VirtAddr 5000))"
    by (simp add: user_address_ok_def UserVirtualAddress_as_u64_def)
  have d: "UserVirtualAddress_align_down_to_page (UserVirtualAddress (VirtAddr 5000))
       = Some (UserPageStart (UserVirtualAddress (VirtAddr 4096)))"
    by (simp add: address_defs arith_defs)
  from page_rounding_exact [OF ok, of "UserPageStart (UserVirtualAddress (VirtAddr 4096))"] d ok
  show ?thesis by (auto simp: UserPageStart_as_u64_def UserVirtualAddress_as_u64_def)
qed

lemma range_page_span:
  assumes "user_range_ok r" "4096 \<le> user_nat (uvr_start r)"
  shows "\<exists>f l. UserVirtualRange_first_page_start r = Some f
     \<and> UserVirtualRange_last_page_start r = Done (Some l)
     \<and> user_page_ok f \<and> user_page_ok l \<and> page_nat f \<le> page_nat l
     \<and> (\<forall>q. user_page_ok q \<longrightarrow>
          (page_nat f \<le> page_nat q \<and> page_nat q \<le> page_nat l \<longleftrightarrow>
             page_nat q < user_nat (uvr_start r) + unat (uvr_byte_len r)
             \<and> user_nat (uvr_start r) < page_nat q + 4096))"
proof -
  let ?s = "user_nat (uvr_start r)" and ?n = "unat (uvr_byte_len r)"
  define b :: u64 where "b = of_nat (?s + ?n - 1)"
  have r: "0 < ?n" "?s + ?n \<le> 0x800000000000" using assms(1) unfolding user_range_ok_unat by auto
  then have "?s + ?n - 1 < 2 ^ 64" by simp
  then have b: "unat b = ?s + ?n - 1" unfolding b_def by (simp only: unat_of_nat) simp
  let ?b = "UserVirtualAddress (VirtAddr b)"
  have ub: "user_nat ?b = ?s + ?n - 1" using b by (simp add: UserVirtualAddress_as_u64_def)
  have "user_address_ok ?b" "4096 \<le> user_nat ?b" "user_address_ok (uvr_start r)"
    using r assms by (auto simp: user_address_ok_unat ub)
  then obtain f l where
    f: "UserVirtualAddress_align_down_to_page (uvr_start r) = Some f" and
    l: "UserVirtualAddress_align_down_to_page ?b = Some l"
    using align_down_Some assms(2) by metis
  from f have f': "user_page_ok f" "page_nat f \<le> ?s" "?s < page_nat f + 4096"
    unfolding align_down_Some_iff by (simp, metis round_down_char, metis round_down_char)
  from l have l': "user_page_ok l" "page_nat l \<le> ?s + ?n - 1" "?s + ?n - 1 < page_nat l + 4096"
    unfolding align_down_Some_iff ub by (simp, metis round_down_char, metis round_down_char)
  have "page_nat f \<le> page_nat q \<longleftrightarrow> ?s < page_nat q + 4096" if "user_page_ok q" for q
    using that f' page_multiples_le [of "page_nat f" "page_nat q"] by (auto simp: user_page_ok_unat)
  moreover have "page_nat q \<le> page_nat l \<longleftrightarrow> page_nat q < ?s + ?n" if "user_page_ok q" for q
    using that l' r page_multiples_le [of "page_nat q" "page_nat l"] by (auto simp: user_page_ok_unat)
  moreover have "page_nat f \<le> page_nat l"
    using f' l' r page_multiples_le [of "page_nat f" "page_nat l"] by (auto simp: user_page_ok_unat)
  ultimately show ?thesis
    using f l f'(1) l'(1) last_page_start_Done [OF assms(1) b] unfolding UserVirtualRange_first_page_start_def by auto
qed

lemma first_page_null:
  "user_nat (uvr_start r) < 4096 \<Longrightarrow> UserVirtualRange_first_page_start r = None"
  by (cases "UserVirtualRange_first_page_start r")
    (auto simp: UserVirtualRange_first_page_start_def align_down_Some_iff user_page_ok_unat)

text \<open>
  C32: the page span of a user byte range. For a valid range that does not touch the null
  page, the first and last page exist and the pages between them, ends included, are exactly
  the user pages the byte range touches. This is what the user-copy validation walks.
\<close>

theorem user_range_pages_exact:
  assumes "user_range_ok r" "4096 \<le> user_nat (uvr_start r)"
  shows "\<exists>f l. UserVirtualRange_first_page_start r = Some f
     \<and> UserVirtualRange_last_page_start r = Done (Some l)
     \<and> (\<forall>q. user_page_ok q \<longrightarrow>
          (page_nat f \<le> page_nat q \<and> page_nat q \<le> page_nat l \<longleftrightarrow>
             page_nat q < user_nat (uvr_start r) + unat (uvr_byte_len r)
             \<and> user_nat (uvr_start r) < page_nat q + 4096))"
  using range_page_span [OF assms] by blast

theorem user_range_pages_exact_witness:
  "\<exists>f l. UserVirtualRange_first_page_start
       \<lparr>uvr_start = UserVirtualAddress (VirtAddr 8190), uvr_byte_len = 4\<rparr> = Some f
     \<and> UserVirtualRange_last_page_start
       \<lparr>uvr_start = UserVirtualAddress (VirtAddr 8190), uvr_byte_len = 4\<rparr> = Done (Some l)
     \<and> (\<forall>q. user_page_ok q \<longrightarrow>
          (page_nat f \<le> page_nat q \<and> page_nat q \<le> page_nat l \<longleftrightarrow>
             page_nat q < 8194 \<and> 8190 < page_nat q + 4096))"
  using user_range_pages_exact
    [of "\<lparr>uvr_start = UserVirtualAddress (VirtAddr 8190), uvr_byte_len = 4\<rparr>"]
  by (simp add: user_range_ok_unat UserVirtualAddress_as_u64_def)

end
