(* ===== verification/Address_Checks.thy ===== *)
theory Address_Checks
  imports Address
begin

text \<open>
  The boot-time self-checks at the end of \<open>src/src/kernel/memory/address.rs\<close>
  (\<open>verify_*\<close>), one definition per function, and the theorem that each of them
  returns \<open>true\<close> without panicking.
\<close>

named_theorems self_check_defs \<open>definitions unfolded to run a boot-time self-check\<close>

definition verify_typed_user_virtual_address :: bool where
  [self_check_defs]: "verify_typed_user_virtual_address =
     (is_some_and (UserVirtualAddress_new (VirtAddr PAGE_SIZE)) (\<lambda>address.
        UserVirtualAddress_as_u64 address = PAGE_SIZE
        \<and> UserVirtualAddress_as_address address = VirtAddr PAGE_SIZE
        \<and> is_some_and (UserVirtualAddress_align_down_to_page address)
             (\<lambda>page_start. UserPageStart_as_u64 page_start = PAGE_SIZE)
        \<and> is_some_and (UserVirtualAddress_checked_add address PAGE_SIZE)
             (\<lambda>next_address. UserVirtualAddress_as_u64 next_address = 2 * PAGE_SIZE))
      \<and> is_none (UserVirtualAddress_new (VirtAddr 0))
      \<and> is_none (UserVirtualAddress_new (VirtAddr USER_SPACE_END)))"

definition verify_typed_user_virtual_checked_sub :: bool where
  [self_check_defs]: "verify_typed_user_virtual_checked_sub =
     (is_some_and (UserVirtualAddress_new (VirtAddr (2 * PAGE_SIZE))) (\<lambda>address.
        is_some_and (UserVirtualAddress_checked_sub address PAGE_SIZE) (\<lambda>previous_address.
          UserVirtualAddress_as_address previous_address = VirtAddr PAGE_SIZE
          \<and> UserVirtualAddress_as_u64 previous_address = PAGE_SIZE)
        \<and> is_none (UserVirtualAddress_checked_sub address (2 * PAGE_SIZE)))
      \<and> is_some_and (UserVirtualAddress_new (VirtAddr PAGE_SIZE)) (\<lambda>address.
          is_none (UserVirtualAddress_checked_sub address PAGE_SIZE)))"

definition verify_typed_user_page_start :: bool where
  [self_check_defs]: "verify_typed_user_page_start =
     (is_some_and (UserVirtualAddress_new (VirtAddr PAGE_SIZE)) (\<lambda>address.
        is_some_and (UserPageStart_new address) (\<lambda>page_start.
          UserPageStart_as_address page_start = address
          \<and> UserPageStart_as_u64 page_start = PAGE_SIZE
          \<and> is_some_and (UserPageStart_checked_add page_start PAGE_SIZE)
               (\<lambda>next_page. UserPageStart_as_u64 next_page = 2 * PAGE_SIZE)))
      \<and> is_some_and (UserVirtualAddress_new (VirtAddr (PAGE_SIZE + 1))) (\<lambda>address.
          is_none (UserPageStart_new address))
      \<and> is_some_and (UserVirtualAddress_new (VirtAddr 1)) (\<lambda>address.
          is_none (UserVirtualAddress_align_down_to_page address)))"

definition verify_typed_user_page_align_up :: bool where
  [self_check_defs]: "verify_typed_user_page_align_up =
     (is_some_and (UserVirtualAddress_new (VirtAddr PAGE_SIZE)) (\<lambda>address.
        is_some_and (UserVirtualAddress_align_up_to_page address)
          (\<lambda>page. UserPageStart_as_u64 page = PAGE_SIZE))
      \<and> is_some_and (UserVirtualAddress_new (VirtAddr (PAGE_SIZE + 1))) (\<lambda>address.
          is_some_and (UserVirtualAddress_align_up_to_page address)
            (\<lambda>page. UserPageStart_as_u64 page = 2 * PAGE_SIZE))
      \<and> is_some_and (UserVirtualAddress_new (VirtAddr (USER_SPACE_END - 1))) (\<lambda>address.
          is_none (UserVirtualAddress_align_up_to_page address)))"

definition verify_typed_kernel_page_start :: bool where
  [self_check_defs]: "verify_typed_kernel_page_start =
     (let valid_address = VirtAddr KERNEL_DYNAMIC_MAPPING_START in
      is_some_and (KernelPageStart_new valid_address) (\<lambda>page_start.
        KernelPageStart_as_address page_start = valid_address
        \<and> KernelPageStart_as_u64 page_start = KERNEL_DYNAMIC_MAPPING_START
        \<and> is_some_and (KernelPageStart_checked_add page_start PAGE_SIZE) (\<lambda>next_page.
             KernelPageStart_as_u64 next_page = KERNEL_DYNAMIC_MAPPING_START + PAGE_SIZE))
      \<and> is_none (KernelPageStart_new (VirtAddr (KERNEL_DYNAMIC_MAPPING_START + 1)))
      \<and> is_none (KernelPageStart_new (VirtAddr PAGE_SIZE)))"

definition verify_typed_user_virtual_range :: "bool run" where
  [self_check_defs]: "verify_typed_user_virtual_range =
     bind_run (expect (UserVirtualAddress_new (VirtAddr PAGE_SIZE))) (\<lambda>start.
     bind_run (expect (UserVirtualAddress_new (VirtAddr (USER_SPACE_END - 1)))) (\<lambda>ceiling_start.
       and_run
         (is_some_and_run (UserVirtualRange_new start 8) (\<lambda>range.
            map_run (\<lambda>e. uvr_start range = start \<and> uvr_byte_len range = 8
                       \<and> e = VirtAddr (PAGE_SIZE + 8)
                       \<and> UserReadableRange_as_range (UserReadableRange range) = range
                       \<and> UserWritableRange_as_range (UserWritableRange range) = range)
              (UserVirtualRange_end_exclusive range)))
      (and_run (Done (is_none (UserVirtualRange_new start 0)))
      (and_run (Done (is_none (UserVirtualRange_new ceiling_start 2)))
         (is_some_and_run (UserVirtualRange_from_syscall_arguments PAGE_SIZE 4) (\<lambda>range.
            map_run (\<lambda>e. uvr_start range = start \<and> uvr_byte_len range = 4
                       \<and> e = VirtAddr (PAGE_SIZE + 4))
              (UserVirtualRange_end_exclusive range)))))))"

definition verify_typed_user_virtual_range_constructor :: "bool run" where
  [self_check_defs]: "verify_typed_user_virtual_range_constructor =
     bind_run (expect (UserVirtualAddress_new (VirtAddr PAGE_SIZE))) (\<lambda>start.
     bind_run (expect (UserVirtualAddress_new (VirtAddr (USER_SPACE_END - 1)))) (\<lambda>ceiling_start.
       case usize_try_from (USER_SPACE_END - PAGE_SIZE) of
         None \<Rightarrow> Done False
       | Some exact_ceiling_len \<Rightarrow>
           and_run
             (is_some_and_run (UserVirtualRange_new start 8) (\<lambda>range.
                map_run (\<lambda>e. uvr_start range = start \<and> e = VirtAddr (PAGE_SIZE + 8))
                  (UserVirtualRange_end_exclusive range)))
          (and_run (Done (is_none (UserVirtualRange_new start 0)))
          (and_run
             (is_some_and_run (UserVirtualRange_new start exact_ceiling_len) (\<lambda>range.
                map_run (\<lambda>e. e = VirtAddr USER_SPACE_END) (UserVirtualRange_end_exclusive range)))
             (Done (is_none (UserVirtualRange_new ceiling_start 2)))))))"

definition verify_typed_user_virtual_range_end :: "bool run" where
  [self_check_defs]: "verify_typed_user_virtual_range_end =
     bind_run (expect (UserVirtualAddress_new (VirtAddr PAGE_SIZE))) (\<lambda>start.
       case Option.bind (usize_try_from PAGE_SIZE) (\<lambda>page_size. checked_add page_size 8) of
         None \<Rightarrow> Done False
       | Some byte_len \<Rightarrow>
           is_some_and_run (UserVirtualRange_new start byte_len) (\<lambda>range.
             and_run (map_run (\<lambda>e. e = VirtAddr (2 * PAGE_SIZE + 8)) (UserVirtualRange_end_exclusive range))
               (map_run (\<lambda>p. is_some_and p (\<lambda>page_start. UserPageStart_as_u64 page_start = 2 * PAGE_SIZE))
                 (UserVirtualRange_last_page_start range))))"

definition verify_typed_user_virtual_range_page_bounds :: "bool run" where
  [self_check_defs]: "verify_typed_user_virtual_range_page_bounds =
     bind_run (expect (UserVirtualAddress_new (VirtAddr PAGE_SIZE))) (\<lambda>start.
       case Option.bind (usize_try_from PAGE_SIZE) (\<lambda>page_size. checked_add page_size 8) of
         None \<Rightarrow> Done False
       | Some byte_len \<Rightarrow>
           bind_run (expect (UserVirtualAddress_new (VirtAddr 1))) (\<lambda>low_start.
             and_run
               (is_some_and_run (UserVirtualRange_new start byte_len) (\<lambda>range.
                  and_run (Done (is_some_and (UserVirtualRange_first_page_start range)
                     (\<lambda>page_start. UserPageStart_as_u64 page_start = PAGE_SIZE)))
                   (map_run (\<lambda>p. is_some_and p (\<lambda>page_start. UserPageStart_as_u64 page_start = 2 * PAGE_SIZE))
                     (UserVirtualRange_last_page_start range))))
               (is_some_and_run (UserVirtualRange_new low_start 1) (\<lambda>range.
                  and_run (Done (is_none (UserVirtualRange_first_page_start range)))
                    (map_run is_none (UserVirtualRange_last_page_start range))))))"

definition verify_typed_user_copy_ranges :: "bool run" where
  [self_check_defs]: "verify_typed_user_copy_ranges =
     (let valid_start = PAGE_SIZE in
      and_run (Done (is_some_and (UserReadableRange_from_syscall_arguments valid_start 4) (\<lambda>range.
          UserVirtualAddress_as_u64 (uvr_start (UserReadableRange_as_range range)) = valid_start)))
     (and_run (Done (is_some_and (UserWritableRange_from_syscall_arguments valid_start 4) (\<lambda>range.
          uvr_byte_len (UserWritableRange_as_range range) = 4)))
     (and_run (is_some_and_run (UserCString_from_syscall_arguments valid_start 4) (\<lambda>range.
          map_run (\<lambda>e. e = VirtAddr (valid_start + 4))
            (UserVirtualRange_end_exclusive
               (UserReadableRange_as_range (UserCString_as_readable_range range)))))
     (and_run (Done (is_none (UserReadableRange_from_syscall_arguments 0 1)))
        (Done (is_none (UserWritableRange_from_syscall_arguments valid_start 0)))))))"

definition over_usize_address_is_rejected :: bool where
  [self_check_defs]: "over_usize_address_is_rejected =
     (case checked_add (- 1 :: u64) 1 of
        None \<Rightarrow> True
      | Some address \<Rightarrow>
          PhysAddr_try_as_usize (PhysAddr address) = Inl DoesNotFitUsize
          \<and> VirtAddr_try_as_usize (VirtAddr address) = Inl DoesNotFitUsize)"

definition verify_checked_address_conversions :: "bool run" where
  [self_check_defs]: "verify_checked_address_conversions =
     bind_run (expect (usize_try_from PAGE_SIZE)) (\<lambda>page_size.
     let physical = PhysAddr PAGE_SIZE; dma = DmaPhysicalAddress physical;
         storage = StorageDataAddress dma; virtual_address = VirtAddr PAGE_SIZE;
         kernel = KernelVirtualAddress virtual_address in
     bind_run (expect (PhysicalFrameStart_new physical)) (\<lambda>frame_start.
     bind_run (expect (UserVirtualAddress_new virtual_address)) (\<lambda>user.
     bind_run (expect (UserPageStart_new user)) (\<lambda>user_page.
       Done (PhysAddr_try_as_usize physical = Inr page_size
           \<and> DmaPhysicalAddress_try_as_usize dma = Inr page_size
           \<and> StorageDataAddress_try_as_usize storage = Inr page_size
           \<and> VirtAddr_try_as_usize virtual_address = Inr page_size
           \<and> KernelVirtualAddress_try_as_usize kernel = Inr page_size
           \<and> PhysicalFrameStart_try_as_usize frame_start = Inr page_size
           \<and> UserVirtualAddress_try_as_usize user = Inr page_size
           \<and> UserPageStart_try_as_usize user_page = Inr page_size
           \<and> over_usize_address_is_rejected)))))"

definition verify_typed_frame_count :: bool where
  [self_check_defs]: "verify_typed_frame_count =
     (is_some_and (FrameCount_new 2) (\<lambda>frame_count.
        FrameCount_as_u64 frame_count = 2 \<and> FrameCount_byte_len frame_count = 2 * PAGE_SIZE)
      \<and> is_none (FrameCount_new 0)
      \<and> is_none (FrameCount_new ((- 1) div PAGE_SIZE + 1)))"

definition verify_typed_physical_frame_range_count :: bool where
  [self_check_defs]: "verify_typed_physical_frame_range_count =
     (case PhysicalFrameStart_new (PhysAddr PAGE_SIZE) of
        None \<Rightarrow> False
      | Some frame_start \<Rightarrow>
          (case FrameCount_new 2 of
             None \<Rightarrow> False
           | Some frame_count \<Rightarrow>
               (case PhysicalFrameRange_new frame_start frame_count of
                  None \<Rightarrow> False
                | Some frame_range \<Rightarrow>
                    pfr_frame_count frame_range = frame_count
                    \<and> PhysicalFrameRange_byte_len frame_range = FrameCount_byte_len frame_count)))"

definition verify_typed_page_count :: bool where
  [self_check_defs]: "verify_typed_page_count =
     (is_some_and (PageCount_new 2) (\<lambda>page_count.
        PageCount_as_u64 page_count = 2 \<and> PageCount_byte_len page_count = 2 * PAGE_SIZE)
      \<and> is_none (PageCount_new 0)
      \<and> is_none (PageCount_new ((- 1) div PAGE_SIZE + 1)))"

text \<open>
  Every boot-time self-check of the typed address module runs to completion and
  reports success: construction limits, checked addition and subtraction, page rounding,
  user range bounds and the frame and page counts behave as the module documents.
\<close>

theorem address_self_checks_pass:
  "verify_typed_user_virtual_address
   \<and> verify_typed_user_virtual_checked_sub
   \<and> verify_typed_user_page_start
   \<and> verify_typed_user_page_align_up
   \<and> verify_typed_kernel_page_start
   \<and> verify_typed_user_virtual_range = Done True
   \<and> verify_typed_user_virtual_range_constructor = Done True
   \<and> verify_typed_user_virtual_range_end = Done True
   \<and> verify_typed_user_virtual_range_page_bounds = Done True
   \<and> verify_typed_user_copy_ranges = Done True
   \<and> verify_checked_address_conversions = Done True
   \<and> verify_typed_frame_count
   \<and> verify_typed_physical_frame_range_count
   \<and> verify_typed_page_count"
  by (simp add: self_check_defs address_defs arith_defs Let_def
      unsigned_minus_1_eq_mask mask_eq_exp_minus_1)

end
