(* ===== verification/Fixed_Table.thy ===== *)
theory Fixed_Table
  imports Mana_Prelude
begin

text \<open>
  Fixed-capacity tables: an array of constant length with a count of live entries, as the
  frame allocator, the virtual range allocator and the mapping records keep them. The
  loops that the kernel writes by hand in each of them (search for an insertion point,
  shift up, shift down, merge neighbours in place) are translated once here, with bounds
  checks that panic as Rust's indexing does, and each is shown to compute a list operation
  on the live prefix.
\<close>

section \<open>Bounds-checked access\<close>

definition array_get :: "'a list \<Rightarrow> nat \<Rightarrow> 'a run" where
  "array_get arr i = (if i < length arr then Done (arr ! i) else Panic)"

definition array_set :: "'a list \<Rightarrow> nat \<Rightarrow> 'a \<Rightarrow> 'a list run" where
  "array_set arr i x = (if i < length arr then Done (arr[i := x]) else Panic)"

lemma array_get_Done [simp]: "i < length arr \<Longrightarrow> array_get arr i = Done (arr ! i)"
  by (simp add: array_get_def)

lemma array_set_Done [simp]: "i < length arr \<Longrightarrow> array_set arr i x = Done (arr[i := x])"
  by (simp add: array_set_def)

section \<open>The loops\<close>

text \<open>\<open>for item in items { s = body(item, s) }\<close>\<close>

fun for_each :: "('i \<Rightarrow> 's \<Rightarrow> 's run) \<Rightarrow> 'i list \<Rightarrow> 's \<Rightarrow> 's run" where
  "for_each body [] s = Done s"
| "for_each body (i # is) s = bind_run (body i s) (for_each body is)"

text \<open>\<open>while index < count && p(arr[index]) { index += 1 }\<close>\<close>

function scan_while :: "('a \<Rightarrow> bool) \<Rightarrow> 'a list \<Rightarrow> nat \<Rightarrow> nat \<Rightarrow> nat run" where
  "scan_while p arr n index =
     (if index < n
      then bind_run (array_get arr index) (\<lambda>x.
             if p x then scan_while p arr n (Suc index) else Done index)
      else Done index)"
  by pat_completeness auto
termination by (relation "measure (\<lambda>(p, arr, n, index). n - index)") auto

text \<open>\<open>for m in (i..n).rev() { arr[m + 1] = arr[m] }\<close>\<close>

fun shift_up :: "nat \<Rightarrow> nat \<Rightarrow> 'a list \<Rightarrow> 'a list run" where
  "shift_up i 0 arr = Done arr"
| "shift_up i (Suc m) arr =
     (if i \<le> m
      then bind_run (array_get arr m) (\<lambda>x. bind_run (array_set arr (Suc m) x) (shift_up i m))
      else Done arr)"

text \<open>\<open>for m in i..n - 1 { arr[m] = arr[m + 1] }\<close>\<close>

function shift_down :: "nat \<Rightarrow> nat \<Rightarrow> 'a list \<Rightarrow> 'a list run" where
  "shift_down i n arr =
     (if Suc i < n
      then bind_run (array_get arr (Suc i)) (\<lambda>x.
             bind_run (array_set arr i x) (shift_down (Suc i) n))
      else Done arr)"
  by pat_completeness auto
termination by (relation "measure (\<lambda>(i, n, arr). n - i)") auto

text \<open>
  The in-place merge: \<open>w\<close> is \<open>write_index\<close>, \<open>r\<close> is \<open>read_index\<close>; \<open>adj\<close> and \<open>join\<close> are the
  condition and the update of the loop body. The result is the array and the new count.
\<close>

function merge_loop ::
    "('a \<Rightarrow> 'a \<Rightarrow> bool) \<Rightarrow> ('a \<Rightarrow> 'a \<Rightarrow> 'a) \<Rightarrow> nat \<Rightarrow> nat \<Rightarrow> nat \<Rightarrow> 'a list \<Rightarrow> ('a list \<times> nat) run" where
  "merge_loop adj join w r n arr =
     (if r < n
      then bind_run (array_get arr w) (\<lambda>cur. bind_run (array_get arr r) (\<lambda>nxt.
             if adj cur nxt
             then bind_run (array_set arr w (join cur nxt)) (merge_loop adj join w (Suc r) n)
             else bind_run (array_set arr (Suc w) nxt) (merge_loop adj join (Suc w) (Suc r) n)))
      else Done (arr, Suc w))"
  by pat_completeness auto
termination by (relation "measure (\<lambda>(adj, join, w, r, n, arr). n - r)") auto

definition merge_adjacent ::
    "('a \<Rightarrow> 'a \<Rightarrow> bool) \<Rightarrow> ('a \<Rightarrow> 'a \<Rightarrow> 'a) \<Rightarrow> 'a list \<Rightarrow> nat \<Rightarrow> ('a list \<times> nat) run" where
  "merge_adjacent adj join arr n =
     (if n < 2 then Done (arr, n) else merge_loop adj join 0 1 n arr)"

declare scan_while.simps [simp del] shift_down.simps [simp del] merge_loop.simps [simp del]

section \<open>Their meaning on the live prefix\<close>

fun coalesce :: "('a \<Rightarrow> 'a \<Rightarrow> bool) \<Rightarrow> ('a \<Rightarrow> 'a \<Rightarrow> 'a) \<Rightarrow> 'a list \<Rightarrow> 'a list" where
  "coalesce adj join (x # y # zs) =
     (if adj x y then coalesce adj join (join x y # zs) else x # coalesce adj join (y # zs))"
| "coalesce adj join xs = xs"

lemma length_coalesce: "length (coalesce adj join xs) \<le> length xs"
  by (induction adj join xs rule: coalesce.induct) auto

lemma coalesce_eq_Nil [simp]: "coalesce adj join xs = [] \<longleftrightarrow> xs = []"
  by (induction adj join xs rule: coalesce.induct) auto

lemma drop_take_Cons: "r < n \<Longrightarrow> n \<le> length arr \<Longrightarrow> drop r (take n arr) = arr ! r # drop (Suc r) (take n arr)"
  by (subst Cons_nth_drop_Suc [symmetric]) auto

lemma for_each_from:
  assumes "i \<le> n" "n \<le> length arr"
  shows "for_each (\<lambda>i s. bind_run (array_get arr i) (\<lambda>x. Done (f x s))) [i..<n] s
     = Done (fold f (drop i (take n arr)) s)"
  using assms
proof (induction "n - i" arbitrary: i s)
  case 0
  then show ?case by simp
next
  case (Suc k)
  then have "i < n" by simp
  then have "[i..<n] = i # [Suc i..<n]" by (simp add: upt_conv_Cons)
  with Suc \<open>i < n\<close> show ?case by (simp add: drop_take_Cons)
qed

lemma for_each_array:
  "n \<le> length arr \<Longrightarrow>
     for_each (\<lambda>i s. bind_run (array_get arr i) (\<lambda>x. Done (f x s))) [0..<n] s = Done (fold f (take n arr) s)"
  using for_each_from [of 0 n arr f s] by simp

lemma scan_while_from:
  assumes "index \<le> n" "n \<le> length arr"
  shows "scan_while p arr n index = Done (index + length (takeWhile p (drop index (take n arr))))"
  using assms
proof (induction p arr n index rule: scan_while.induct)
  case (1 p arr n index)
  show ?case
  proof (cases "index < n")
    case True
    then show ?thesis
      using 1 by (subst scan_while.simps) (auto simp: drop_take_Cons)
  next
    case False
    then show ?thesis using 1(2) by (subst scan_while.simps) simp
  qed
qed

lemma scan_while_Done:
  "n \<le> length arr \<Longrightarrow> scan_while p arr n 0 = Done (length (takeWhile p (take n arr)))"
  using scan_while_from [of 0 n arr p] by simp

lemma shift_up_Done:
  assumes "i \<le> n" "n < length arr"
  shows "shift_up i n arr = Done (take (Suc i) arr @ drop i (take n arr) @ drop (Suc n) arr)"
  using assms
proof (induction i n arr rule: shift_up.induct)
  case (1 i arr)
  then show ?case by simp
next
  case (2 i m arr)
  show ?case
  proof (cases "i \<le> m")
    case True
    then have "shift_up i (Suc m) arr = Done (take (Suc i) arr @ drop i (take m arr)
        @ drop (Suc m) (arr[Suc m := arr ! m]))"
      using 2 by simp
    also have "drop (Suc m) (arr[Suc m := arr ! m]) = arr ! m # drop (Suc (Suc m)) arr"
      using 2(3) by (simp add: Cons_nth_drop_Suc [symmetric])
    also have "drop i (take m arr) @ arr ! m # drop (Suc (Suc m)) arr
        = drop i (take (Suc m) arr) @ drop (Suc (Suc m)) arr"
      using 2(3) True by (simp add: take_Suc_conv_app_nth)
    finally show ?thesis .
  next
    case False
    with 2(2) have "i = Suc m" by simp
    then show ?thesis by simp
  qed
qed

lemma shift_up_insert:
  assumes "i \<le> n" "n < length arr"
  shows "\<exists>arr'. shift_up i n arr = Done arr' \<and> i < length arr' \<and> length arr' = length arr
     \<and> take (Suc n) (arr'[i := x]) = take i (take n arr) @ x # drop i (take n arr)"
proof -
  let ?arr = "take (Suc i) arr @ drop i (take n arr) @ drop (Suc n) arr"
  have "?arr[i := x] = take i arr @ x # drop i (take n arr) @ drop (Suc n) arr"
    using assms by (simp add: take_Suc_conv_app_nth list_update_append)
  moreover have "take (Suc n) \<dots> = take i (take n arr) @ x # drop i (take n arr)"
    using assms by (simp add: min_def Suc_diff_le)
  moreover have "length ?arr = length arr" using assms by simp
  ultimately show ?thesis
    using assms shift_up_Done [OF assms] by (simp del: length_append)
qed

lemma shift_down_Done:
  assumes "i < n" "n \<le> length arr"
  shows "shift_down i n arr = Done (take i arr @ drop (Suc i) (take n arr) @ drop (n - 1) arr)"
  using assms
proof (induction i n arr rule: shift_down.induct)
  case (1 i n arr)
  show ?case
  proof (cases "Suc i < n")
    case True
    then have "shift_down i n arr = Done (take (Suc i) (arr[i := arr ! Suc i])
        @ drop (Suc (Suc i)) (take n arr) @ drop (n - 1) arr)"
      using 1 by (subst shift_down.simps) (simp add: take_update_swap)
    also have "take (Suc i) (arr[i := arr ! Suc i]) = take i arr @ [arr ! Suc i]"
      using 1(3) True by (simp add: take_Suc_conv_app_nth)
    also have "(take i arr @ [arr ! Suc i]) @ drop (Suc (Suc i)) (take n arr) @ drop (n - 1) arr
        = take i arr @ drop (Suc i) (take n arr) @ drop (n - 1) arr"
      using 1(3) True by (simp add: drop_take_Cons)
    finally show ?thesis .
  next
    case False
    with 1(2) have "n = Suc i" by simp
    with 1(3) show ?thesis by (subst shift_down.simps) simp
  qed
qed

lemma shift_down_remove:
  assumes "i < n" "n \<le> length arr"
  shows "\<exists>arr'. shift_down i n arr = Done arr' \<and> length arr' = length arr
     \<and> take (n - 1) arr' = take i (take n arr) @ drop (Suc i) (take n arr)"
proof -
  have "n - 1 = i \<or> i < n - 1" using assms(1) by auto
  then show ?thesis using assms by (auto simp: shift_down_Done min_def)
qed

lemma merge_loop_Done:
  assumes "w < r" "r \<le> n" "n \<le> length arr"
  shows "\<exists>arr' n'. merge_loop adj join w r n arr = Done (arr', n') \<and> length arr' = length arr
     \<and> n' \<le> n \<and> take n' arr' = take w arr @ coalesce adj join (arr ! w # drop r (take n arr))"
  using assms
proof (induction adj join w r n arr rule: merge_loop.induct)
  case (1 adj join w r n arr)
  show ?case
  proof (cases "r < n")
    case False
    with 1(3-5) show ?thesis
      by (subst merge_loop.simps) (simp add: take_Suc_conv_app_nth)
  next
    case r: True
    then have len: "w < length arr" "r < length arr" "Suc w < length arr" using 1(3-5) by auto
    have dt: "drop r (take n arr) = arr ! r # drop (Suc r) (take n arr)"
      using r 1(5) by (rule drop_take_Cons)
    show ?thesis
    proof (cases "adj (arr ! w) (arr ! r)")
      case True
      let ?arr = "arr[w := join (arr ! w) (arr ! r)]"
      have "drop (Suc r) (take n ?arr) = drop (Suc r) (take n arr)"
        using 1(3) by (simp add: take_update_swap)
      moreover obtain arr' n' where "merge_loop adj join w (Suc r) n ?arr = Done (arr', n')"
        "length arr' = length arr" "n' \<le> n"
        "take n' arr' = take w ?arr @ coalesce adj join (?arr ! w # drop (Suc r) (take n ?arr))"
        using 1(1) [OF r, of "arr ! w" "arr ! r" ?arr] 1(3-5) True len r by auto
      ultimately show ?thesis
        using r len True dt by (subst merge_loop.simps) simp
    next
      case False
      let ?arr = "arr[Suc w := arr ! r]"
      have "drop (Suc r) (take n ?arr) = drop (Suc r) (take n arr)"
        using 1(3) by (simp add: take_update_swap)
      moreover obtain arr' n' where "merge_loop adj join (Suc w) (Suc r) n ?arr = Done (arr', n')"
        "length arr' = length arr" "n' \<le> n"
        "take n' arr' = take (Suc w) ?arr
           @ coalesce adj join (?arr ! Suc w # drop (Suc r) (take n ?arr))"
        using 1(2) [OF r, of "arr ! w" "arr ! r" ?arr] 1(3-5) False len r by auto
      ultimately show ?thesis
        using r len False dt by (subst merge_loop.simps) (simp add: take_Suc_conv_app_nth)
    qed
  qed
qed

lemma merge_adjacent_Done:
  assumes "n \<le> length arr"
  shows "\<exists>arr' n'. merge_adjacent adj join arr n = Done (arr', n') \<and> length arr' = length arr
     \<and> n' \<le> n \<and> take n' arr' = coalesce adj join (take n arr)"
proof (cases "n < 2")
  case True
  then have "n = 0 \<or> n = 1" by auto
  then have "coalesce adj join (take n arr) = take n arr"
    by (cases arr) auto
  with True show ?thesis by (simp add: merge_adjacent_def)
next
  case False
  with assms have "take n arr = arr ! 0 # drop 1 (take n arr)"
    using drop_take_Cons [of 0 n arr] by simp
  with False assms show ?thesis
    using merge_loop_Done [of 0 1 n arr adj join] by (simp add: merge_adjacent_def)
qed

section \<open>First matching entry\<close>

fun find_index :: "('a \<Rightarrow> bool) \<Rightarrow> 'a list \<Rightarrow> nat option" where
  "find_index p [] = None"
| "find_index p (x # xs) = (if p x then Some 0 else map_option Suc (find_index p xs))"

lemma find_index_None_iff: "find_index p xs = None \<longleftrightarrow> (\<forall>x\<in>set xs. \<not> p x)"
  by (induction xs) auto

lemma find_index_SomeD:
  "find_index p xs = Some i \<Longrightarrow> i < length xs \<and> p (xs ! i) \<and> (\<forall>j<i. \<not> p (xs ! j))"
proof (induction xs arbitrary: i)
  case (Cons x xs)
  show ?case
  proof (cases "p x")
    case True
    with Cons(2) show ?thesis by simp
  next
    case False
    with Cons(2) obtain k where "find_index p xs = Some k" "i = Suc k" by auto
    with Cons(1) [of k] False show ?thesis by (auto simp: nth_Cons split: nat.splits)
  qed
qed simp

lemma find_index_Some_iff:
  "find_index p xs = Some i \<longleftrightarrow> i < length xs \<and> p (xs ! i) \<and> (\<forall>j<i. \<not> p (xs ! j))"
proof
  assume r: "i < length xs \<and> p (xs ! i) \<and> (\<forall>j<i. \<not> p (xs ! j))"
  then have "find_index p xs \<noteq> None" by (auto simp: find_index_None_iff intro: bexI [OF _ nth_mem])
  then obtain k where k: "find_index p xs = Some k" by auto
  from find_index_SomeD [OF this] r have "\<not> k < i" "\<not> i < k" by blast+
  with k show "find_index p xs = Some i" by simp
qed (rule find_index_SomeD)

lemma find_index_drop:
  assumes "i < length xs"
  shows "find_index p (drop i xs) = (if p (xs ! i) then Some 0 else map_option Suc (find_index p (drop (Suc i) xs)))"
  using assms by (simp add: Cons_nth_drop_Suc [symmetric])

end
