(* ===== verification/Range_Cells.thy ===== *)
theory Range_Cells
  imports Fixed_Table
begin

text \<open>
  Sorted tables of tagged address ranges. A cell covers the half-open interval from
  \<open>lo\<close> to \<open>hi\<close> and carries a tag (the state and owner of a frame range; nothing for a
  free virtual range). The locale states what merging two neighbouring cells must do;
  its lemmas are the list-level facts behind every allocator operation: coalescing,
  insertion in address order, splitting a cell and finding a maximal run.
\<close>

definition cover :: "('a \<Rightarrow> nat) \<Rightarrow> ('a \<Rightarrow> nat) \<Rightarrow> ('a \<Rightarrow> 't) \<Rightarrow> 'a list \<Rightarrow> 't \<Rightarrow> nat set" where
  "cover lo hi tag xs k = (\<Union>x\<in>{x \<in> set xs. tag x = k}. {lo x..<hi x})"

text \<open>
  \<open>W s t\<close> is the set of addresses on which a cell tagged \<open>s\<close> and a later one tagged \<open>t\<close> may
  overlap.
\<close>

definition sep ::
    "('a \<Rightarrow> nat) \<Rightarrow> ('a \<Rightarrow> nat) \<Rightarrow> ('a \<Rightarrow> 't) \<Rightarrow> ('t \<Rightarrow> 't \<Rightarrow> nat set) \<Rightarrow> 'a \<Rightarrow> 'a \<Rightarrow> bool" where
  "sep lo hi tag W a b \<longleftrightarrow>
     (\<forall>p. lo a \<le> p \<longrightarrow> p < hi a \<longrightarrow> lo b \<le> p \<longrightarrow> p < hi b \<longrightarrow> p \<in> W (tag a) (tag b))"

definition ordered :: "('a \<Rightarrow> nat) \<Rightarrow> 'a list \<Rightarrow> bool" where
  "ordered lo xs \<longleftrightarrow> sorted_wrt (\<lambda>a b. lo a \<le> lo b) xs"

lemma cover_simps [simp]:
  "cover lo hi tag [] k = {}"
  "cover lo hi tag (x # xs) k = (if tag x = k then {lo x..<hi x} else {}) \<union> cover lo hi tag xs k"
  "cover lo hi tag (xs @ ys) k = cover lo hi tag xs k \<union> cover lo hi tag ys k"
  by (auto simp: cover_def)

lemma in_cover_iff: "p \<in> cover lo hi tag xs k \<longleftrightarrow> (\<exists>x\<in>set xs. tag x = k \<and> lo x \<le> p \<and> p < hi x)"
  by (auto simp: cover_def)

lemma cover_subset: "x \<in> set xs \<Longrightarrow> tag x = k \<Longrightarrow> {lo x..<hi x} \<subseteq> cover lo hi tag xs k"
  by (auto simp: cover_def)

lemma sep_disjoint: "hi a \<le> lo b \<Longrightarrow> sep lo hi tag W a b"
  by (auto simp: sep_def)

text \<open>Cells that do not overlap cover as many addresses as their lengths add up to.\<close>

lemma card_cells:
  assumes "sorted_wrt (sep lo hi tag W) xs" "\<And>a b. a \<in> set xs \<Longrightarrow> b \<in> set xs \<Longrightarrow> Q (tag a) \<Longrightarrow> Q (tag b) \<Longrightarrow> W (tag a) (tag b) = {}"
  shows "finite {p. \<exists>x\<in>set xs. Q (tag x) \<and> lo x \<le> p \<and> p < hi x}
     \<and> card {p. \<exists>x\<in>set xs. Q (tag x) \<and> lo x \<le> p \<and> p < hi x}
       = sum_list (map (\<lambda>x. hi x - lo x) (filter (\<lambda>x. Q (tag x)) xs))"
  using assms
proof (induction xs)
  case (Cons x xs)
  let ?S = "{p. \<exists>x\<in>set xs. Q (tag x) \<and> lo x \<le> p \<and> p < hi x}"
  have eq: "{p. \<exists>y\<in>set (x # xs). Q (tag y) \<and> lo y \<le> p \<and> p < hi y}
      = (if Q (tag x) then {lo x..<hi x} \<union> ?S else ?S)" by auto
  have "{lo x..<hi x} \<inter> ?S = {}" if "Q (tag x)"
    using Cons.prems that by (fastforce simp: sep_def)
  moreover have "finite ?S \<and> card ?S = sum_list (map (\<lambda>x. hi x - lo x) (filter (\<lambda>x. Q (tag x)) xs))"
    using Cons by simp
  ultimately show ?case unfolding eq by (simp add: card_Un_disjoint)
qed simp

locale range_cells =
  fixes ok :: "'a \<Rightarrow> bool"
    and lo :: "'a \<Rightarrow> nat"
    and hi :: "'a \<Rightarrow> nat"
    and tag :: "'a \<Rightarrow> 't"
    and adj :: "'a \<Rightarrow> 'a \<Rightarrow> bool"
    and join :: "'a \<Rightarrow> 'a \<Rightarrow> 'a"
  assumes nonempty: "ok a \<Longrightarrow> lo a < hi a"
    and adj_iff: "ok a \<Longrightarrow> ok b \<Longrightarrow> adj a b \<longleftrightarrow> tag a = tag b \<and> hi a = lo b"
    and join_ok: "ok a \<Longrightarrow> ok b \<Longrightarrow> adj a b \<Longrightarrow> ok (join a b)"
    and join_lo: "ok a \<Longrightarrow> ok b \<Longrightarrow> adj a b \<Longrightarrow> lo (join a b) = lo a"
    and join_hi: "ok a \<Longrightarrow> ok b \<Longrightarrow> adj a b \<Longrightarrow> hi (join a b) = hi b"
    and join_tag: "ok a \<Longrightarrow> ok b \<Longrightarrow> adj a b \<Longrightarrow> tag (join a b) = tag a"
begin

lemmas join_facts = join_ok join_lo join_hi join_tag

lemma join_ext:
  assumes "ok a" "ok b" "adj a b"
  shows "{lo (join a b)..<hi (join a b)} = {lo a..<hi a} \<union> {lo b..<hi b}"
  using assms nonempty [of a] nonempty [of b] adj_iff [of a b]
  by (auto simp: join_facts)

lemma coalesce_ok:
  "\<forall>x\<in>set xs. ok x \<Longrightarrow> \<forall>x\<in>set (coalesce adj join xs). ok x"
  by (induction adj\<equiv>adj join\<equiv>join xs rule: coalesce.induct) (auto simp: join_ok)

lemma coalesce_cover:
  "\<forall>x\<in>set xs. ok x \<Longrightarrow> cover lo hi tag (coalesce adj join xs) k = cover lo hi tag xs k"
proof (induction adj\<equiv>adj join\<equiv>join xs rule: coalesce.induct)
  case (1 x y zs)
  then show ?case
    using join_ext [of x y] adj_iff [of x y] by (auto simp: join_ok join_tag)
qed auto

lemma sep_join:
  assumes "ok a" "ok b" "adj a b" "sep lo hi tag W a c" "sep lo hi tag W b c"
  shows "sep lo hi tag W (join a b) c"
  unfolding sep_def
proof (intro allI impI)
  fix p assume p: "lo (join a b) \<le> p" "p < hi (join a b)" "lo c \<le> p" "p < hi c"
  with assms show "p \<in> W (tag (join a b)) (tag c)"
    using adj_iff [of a b] by (cases "p < hi a") (auto simp: sep_def join_facts)
qed

lemma sep_join_right:
  assumes "ok x" "ok y" "adj x y" "sep lo hi tag W z x" "sep lo hi tag W z y"
  shows "sep lo hi tag W z (join x y)"
  unfolding sep_def
proof (intro allI impI)
  fix p assume p: "lo z \<le> p" "p < hi z" "lo (join x y) \<le> p" "p < hi (join x y)"
  with assms show "p \<in> W (tag z) (tag (join x y))"
    using adj_iff [of x y] by (cases "p < hi x") (auto simp: sep_def join_facts)
qed

lemma coalesce_sep_left:
  "\<forall>x\<in>set xs. ok x \<Longrightarrow> \<forall>x\<in>set xs. sep lo hi tag W z x
     \<Longrightarrow> \<forall>x\<in>set (coalesce adj join xs). sep lo hi tag W z x"
proof (induction adj\<equiv>adj join\<equiv>join xs rule: coalesce.induct)
  case (1 x y zs)
  show ?case
  proof (cases "adj x y")
    case True
    have "\<forall>c\<in>set (join x y # zs). ok c" "\<forall>c\<in>set (join x y # zs). sep lo hi tag W z c"
      using 1(3,4) True by (auto intro: join_ok sep_join_right)
    from 1(1) [OF True this] True show ?thesis by simp
  next
    case False
    have "\<forall>c\<in>set (y # zs). ok c" "\<forall>c\<in>set (y # zs). sep lo hi tag W z c"
      using 1(3,4) by auto
    from 1(2) [OF False this] False 1(4) show ?thesis by simp
  qed
qed auto

lemma coalesce_sep:
  "\<forall>x\<in>set xs. ok x \<Longrightarrow> sorted_wrt (sep lo hi tag W) xs
     \<Longrightarrow> sorted_wrt (sep lo hi tag W) (coalesce adj join xs)"
proof (induction adj\<equiv>adj join\<equiv>join xs rule: coalesce.induct)
  case (1 x y zs)
  show ?case
  proof (cases "adj x y")
    case True
    have "\<forall>c\<in>set zs. sep lo hi tag W (join x y) c"
      using 1(3,4) True by (auto intro: sep_join)
    with 1(1) [OF True] 1(3,4) True show ?thesis by (simp add: join_ok)
  next
    case False
    moreover have "\<forall>c\<in>set (coalesce adj join (y # zs)). sep lo hi tag W x c"
      by (rule coalesce_sep_left) (use 1(3,4) in simp_all)
    ultimately show ?thesis using 1(2) [OF False] 1(3,4) by simp
  qed
qed auto

lemma coalesce_lo_ge:
  "\<forall>x\<in>set xs. ok x \<Longrightarrow> \<forall>x\<in>set xs. m \<le> lo x \<Longrightarrow> \<forall>x\<in>set (coalesce adj join xs). m \<le> lo x"
proof (induction adj\<equiv>adj join\<equiv>join xs rule: coalesce.induct)
  case (1 x y zs)
  show ?case
  proof (cases "adj x y")
    case True
    with 1(3,4) have "\<forall>c\<in>set (join x y # zs). ok c" "\<forall>c\<in>set (join x y # zs). m \<le> lo c"
      by (auto simp: join_facts)
    from 1(1) [OF True this] True show ?thesis by simp
  next
    case False
    with 1 show ?thesis by simp
  qed
qed auto

lemma coalesce_ordered:
  "\<forall>x\<in>set xs. ok x \<Longrightarrow> ordered lo xs \<Longrightarrow> ordered lo (coalesce adj join xs)"
proof (induction adj\<equiv>adj join\<equiv>join xs rule: coalesce.induct)
  case (1 x y zs)
  show ?case
  proof (cases "adj x y")
    case True
    have "\<forall>c\<in>set (join x y # zs). ok c" "ordered lo (join x y # zs)"
      using 1(3,4) True by (auto simp: ordered_def join_facts)
    from 1(1) [OF True this] True show ?thesis by simp
  next
    case False
    have "\<forall>c\<in>set (coalesce adj join (y # zs)). lo x \<le> lo c"
      by (rule coalesce_lo_ge) (use 1(3,4) in \<open>auto simp: ordered_def\<close>)
    then show ?thesis using 1(2) [OF False] 1(3,4) False by (simp add: ordered_def)
  qed
qed auto

lemma coalesce_lo_hd: "\<forall>x\<in>set xs. ok x \<Longrightarrow> xs \<noteq> [] \<Longrightarrow>
    lo (hd (coalesce adj join xs)) = lo (hd xs) \<and> tag (hd (coalesce adj join xs)) = tag (hd xs)"
  by (induction adj\<equiv>adj join\<equiv>join xs rule: coalesce.induct) (auto simp: join_facts)

lemma coalesce_no_adj:
  "\<forall>x\<in>set xs. ok x \<Longrightarrow> successively (\<lambda>a b. \<not> adj a b) (coalesce adj join xs)"
proof (induction adj\<equiv>adj join\<equiv>join xs rule: coalesce.induct)
  case (1 x y zs)
  show ?case
  proof (cases "adj x y")
    case True
    then show ?thesis using 1 by (simp add: join_ok)
  next
    case False
    let ?ys = "coalesce adj join (y # zs)"
    have "hd ?ys \<in> set ?ys" by (rule hd_in_set) simp
    then have "ok (hd ?ys)" using coalesce_ok [of "y # zs"] 1(3) by (simp del: coalesce.simps)
    then have "\<not> adj x (hd ?ys)"
      using False 1(3) coalesce_lo_hd [of "y # zs"] by (simp add: adj_iff)
    moreover have "successively (\<lambda>a b. \<not> adj a b) ?ys" using 1 False by simp
    ultimately have "successively (\<lambda>a b. \<not> adj a b) (x # ?ys)"
      by (simp add: successively_Cons)
    with False show ?thesis by simp
  qed
qed auto

lemma sep_hi_le:
  assumes "sep lo hi tag W a b" "W (tag a) (tag b) = {}" "ok b" "lo a \<le> lo b"
  shows "hi a \<le> lo b"
  using assms nonempty [OF assms(3)] unfolding sep_def by (metis empty_iff le_refl not_le)

lemma split_sep:
  assumes "sorted_wrt (sep lo hi tag W) (us @ t # vs)"
    and "sorted_wrt (sep lo hi tag W) ts"
    and "\<forall>c\<in>set ts. lo t \<le> lo c \<and> hi c \<le> hi t"
    and "\<forall>x\<in>set us. W (tag x) (tag t) = {}" "\<forall>x\<in>set vs. W (tag t) (tag x) = {}"
  shows "sorted_wrt (sep lo hi tag W) (us @ ts @ vs)"
proof -
  have "sep lo hi tag W x c" if "x \<in> set us" "c \<in> set ts" for x c
  proof -
    have "sep lo hi tag W x t" using assms(1) that(1) by (auto simp: sorted_wrt_append)
    with assms(3,4) that show ?thesis unfolding sep_def by (metis empty_iff le_trans less_le_trans)
  qed
  moreover have "sep lo hi tag W c x" if "x \<in> set vs" "c \<in> set ts" for x c
  proof -
    have "sep lo hi tag W t x" using assms(1) that(1) by (auto simp: sorted_wrt_append)
    with assms(3,5) that show ?thesis unfolding sep_def by (metis empty_iff le_trans less_le_trans)
  qed
  ultimately show ?thesis
    using assms(1,2) by (auto simp: sorted_wrt_append)
qed

lemma split_ordered:
  assumes "ordered lo (us @ t # vs)" "ordered lo ts"
    and "\<forall>c\<in>set ts. lo t \<le> lo c \<and> (\<forall>x\<in>set vs. lo c \<le> lo x)"
  shows "ordered lo (us @ ts @ vs)"
  using assms unfolding ordered_def sorted_wrt_append by (auto intro: le_trans)

lemma insert_sep:
  assumes "sorted_wrt (sep lo hi tag W) (us @ vs)"
    and "\<And>y p. y \<in> set us \<union> set vs \<Longrightarrow> lo y \<le> p \<Longrightarrow> p < hi y \<Longrightarrow> lo x \<le> p \<Longrightarrow> p < hi x
           \<Longrightarrow> p \<in> W (tag y) (tag x) \<and> p \<in> W (tag x) (tag y)"
  shows "sorted_wrt (sep lo hi tag W) (us @ x # vs)"
  using assms by (auto simp: sorted_wrt_append sep_def)

lemma insert_ordered:
  assumes "ordered lo xs"
  shows "ordered lo (takeWhile (\<lambda>y. lo y < lo x) xs @ x # dropWhile (\<lambda>y. lo y < lo x) xs)"
proof -
  have ge: "lo x \<le> lo y" if "y \<in> set (dropWhile (\<lambda>y. lo y < lo x) xs)" for y
    using that assms
  proof (induction xs)
    case (Cons a xs)
    then show ?case by (cases "lo a < lo x") (auto simp: ordered_def)
  qed simp
  have "ordered lo (takeWhile (\<lambda>y. lo y < lo x) xs @ dropWhile (\<lambda>y. lo y < lo x) xs)"
    using assms by simp
  then show ?thesis
    unfolding ordered_def sorted_wrt_append using ge by (auto dest: set_takeWhileD)
qed

text \<open>In a coalesced table an unbroken run of addresses of one tag lies inside a single cell.\<close>

lemma run_in_one_cell:
  assumes oks: "\<forall>x\<in>set xs. ok x"
    and srt: "sorted_wrt (sep lo hi tag W) xs" "ordered lo xs"
    and na: "successively (\<lambda>a b. \<not> adj a b) xs"
    and W: "\<forall>x\<in>set xs. W k (tag x) = {} \<and> W (tag x) k = {}"
    and run: "g < h" "{g..<h} \<subseteq> cover lo hi tag xs k"
  shows "\<exists>c\<in>set xs. tag c = k \<and> lo c \<le> g \<and> h \<le> hi c"
proof -
  have "g \<in> cover lo hi tag xs k" using run by auto
  then obtain c where c: "c \<in> set xs" "tag c = k" "lo c \<le> g" "g < hi c" by (auto simp: in_cover_iff)
  have "h \<le> hi c"
  proof (rule ccontr)
    assume "\<not> h \<le> hi c"
    with c run have "hi c \<in> cover lo hi tag xs k" by auto
    then obtain d where d: "d \<in> set xs" "tag d = k" "lo d \<le> hi c" "hi c < hi d" by (auto simp: in_cover_iff)
    obtain i j where ij: "i < length xs" "j < length xs" "xs ! i = c" "xs ! j = d"
      using c(1) d(1) by (auto simp: in_set_conv_nth)
    have disj: "hi (xs ! a) \<le> lo (xs ! b)"
      if "a < b" "b < length xs" "tag (xs ! a) = k \<or> tag (xs ! b) = k" for a b
    proof -
      have "sep lo hi tag W (xs ! a) (xs ! b)" "lo (xs ! a) \<le> lo (xs ! b)"
        using srt that by (auto simp: sorted_wrt_iff_nth_less ordered_def)
      moreover have "W (tag (xs ! a)) (tag (xs ! b)) = {}" using W that by auto
      ultimately show ?thesis
        using oks that by (intro sep_hi_le [of W]) auto
    qed
    have lohi: "lo (xs ! a) < hi (xs ! a)" if "a < length xs" for a using oks that nonempty by auto
    consider "i = j" | "j < i" | "i < j" by linarith
    then show False
    proof cases
      case 1 with ij d show False by simp
    next
      case 2
      then have "hi d \<le> lo c" using disj [of j i] ij d by simp
      with c d lohi [of i] ij show False by simp
    next
      case 3
      then have "hi c = lo d" using disj [of i j] ij c d by simp
      show False
      proof (cases "j = Suc i")
        case True
        then have "\<not> adj c d" using na ij by (metis successively_conv_nth)
        with c d \<open>hi c = lo d\<close> oks show False by (simp add: adj_iff)
      next
        case False
        with 3 have "Suc i < j" by simp
        then have "hi c \<le> lo (xs ! Suc i)" "hi (xs ! Suc i) \<le> lo d"
          using disj [of i "Suc i"] disj [of "Suc i" j] ij c d by auto
        with \<open>hi c = lo d\<close> lohi [of "Suc i"] \<open>Suc i < j\<close> ij show False by simp
      qed
    qed
  qed
  with c show ?thesis by blast
qed

end

end
