(* ===== verification/Frame_Allocator.thy ===== *)
theory Frame_Allocator
  imports Address Range_Cells
begin

text \<open>
  The physical frame allocator of \<open>src/src/kernel/memory/frame_allocator.rs\<close>: a sorted,
  fixed-capacity table of tracked frame ranges with their state and owner. One definition
  per method; the loops over the tables are those of \<open>Fixed_Table\<close>, and every \<open>assert!\<close>
  and \<open>expect\<close> is a \<open>Panic\<close> branch. The proofs are in \<open>Frame_Allocator_Proofs\<close>.
\<close>

section \<open>Data\<close>

abbreviation MAX_REGIONS :: nat where "MAX_REGIONS \<equiv> 128"
abbreviation MAX_TRACKED_RANGES :: nat where "MAX_TRACKED_RANGES \<equiv> 512"
abbreviation FRAME_SIZE :: u64 where "FRAME_SIZE \<equiv> 4096"

record Region =
  region_start :: PhysAddr
  region_pages :: u64

datatype FrameRangeState = State_Reserved | State_Free | State_Used

datatype FrameRangeOwner =
  Owner_Free | FirmwareReserved | KernelImage | Mmio | GuardPage | UnknownUsed | PageTable
| KernelHeap | KernelStack | FramebufferBackbuffer | AhciDma | DynamicKernelMapping
| UserStack | UserElf | UserHeap | UserMapping

record TrackedRange =
  tr_region :: Region
  tr_state :: FrameRangeState
  tr_owner :: FrameRangeOwner

record FrameAllocatorStatistics =
  stat_reserved :: u64
  stat_free :: u64
  stat_used :: u64

record FrameAllocatorOwnerStatistics =
  os_free :: u64
  os_firmware_reserved :: u64
  os_kernel_image :: u64
  os_mmio :: u64
  os_guard_page :: u64
  os_unknown_used :: u64
  os_page_table :: u64
  os_kernel_heap :: u64
  os_kernel_stack :: u64
  os_framebuffer_backbuffer :: u64
  os_ahci_dma :: u64
  os_dynamic_kernel_mapping :: u64
  os_user_stack :: u64
  os_user_elf :: u64
  os_user_heap :: u64
  os_user_mapping :: u64

record PhysicalFrameAllocator =
  fa_regions :: "Region list"
  fa_count :: nat
  tracked_ranges :: "TrackedRange list"
  tracked_count :: nat

definition frame_allocator_new :: PhysicalFrameAllocator where
  "frame_allocator_new =
     \<lparr>fa_regions = replicate MAX_REGIONS \<lparr>region_start = PhysAddr 0, region_pages = 0\<rparr>,
      fa_count = 0,
      tracked_ranges = replicate MAX_TRACKED_RANGES
        \<lparr>tr_region = \<lparr>region_start = PhysAddr 0, region_pages = 0\<rparr>,
         tr_state = State_Reserved, tr_owner = FirmwareReserved\<rparr>,
      tracked_count = 0\<rparr>"

section \<open>Region arithmetic\<close>

definition region_end :: "Region \<Rightarrow> PhysAddr option" where
  "region_end region =
     (case checked_mul (region_pages region) FRAME_SIZE of
        None \<Rightarrow> None
      | Some byte_count \<Rightarrow> PhysAddr_checked_add (region_start region) byte_count)"

definition align_up :: "u64 \<Rightarrow> u64 \<Rightarrow> u64 option" where
  "align_up v alignment =
     (case checked_sub alignment 1 of
        None \<Rightarrow> None
      | Some low \<Rightarrow> map_option (\<lambda>v. v AND NOT low) (checked_add v low))"

definition normalize_region :: "PhysAddr \<Rightarrow> FrameCount \<Rightarrow> Region option" where
  "normalize_region start frame_count =
     (case checked_add (PhysAddr_as_u64 start) (FrameCount_byte_len frame_count) of
        None \<Rightarrow> None
      | Some e \<Rightarrow>
          (case align_up (max (PhysAddr_as_u64 start) FRAME_SIZE) FRAME_SIZE of
             None \<Rightarrow> None
           | Some aligned_start \<Rightarrow>
               if e \<le> aligned_start then None
               else Some \<lparr>region_start = PhysAddr aligned_start,
                          region_pages = (e - aligned_start) div FRAME_SIZE\<rparr>))"

definition normalize_reserved_region :: "PhysAddr \<Rightarrow> FrameCount \<Rightarrow> Region option" where
  "normalize_reserved_region start frame_count =
     (case checked_add (PhysAddr_as_u64 start) (FrameCount_byte_len frame_count) of
        None \<Rightarrow> None
      | Some e \<Rightarrow>
          (case align_up (PhysAddr_as_u64 start) FRAME_SIZE of
             None \<Rightarrow> None
           | Some aligned_start \<Rightarrow>
               if e \<le> aligned_start then None
               else Some \<lparr>region_start = PhysAddr aligned_start,
                          region_pages = (e - aligned_start) div FRAME_SIZE\<rparr>))"

section \<open>The region table\<close>

definition region_adj :: "Region \<Rightarrow> Region \<Rightarrow> bool" where
  "region_adj current nxt \<longleftrightarrow> region_end current = Some (region_start nxt)"

definition region_join :: "Region \<Rightarrow> Region \<Rightarrow> Region" where
  "region_join current nxt =
     current\<lparr>region_pages := saturating_add (region_pages current) (region_pages nxt)\<rparr>"

definition merge_adjacent_regions :: "PhysicalFrameAllocator \<Rightarrow> PhysicalFrameAllocator run" where
  "merge_adjacent_regions self =
     map_run (\<lambda>(arr, n). self\<lparr>fa_regions := arr, fa_count := n\<rparr>)
       (merge_adjacent region_adj region_join (fa_regions self) (fa_count self))"

definition insert_region :: "PhysicalFrameAllocator \<Rightarrow> Region \<Rightarrow> PhysicalFrameAllocator run" where
  "insert_region self region =
     (if fa_count self = 0
      then map_run (\<lambda>arr. self\<lparr>fa_regions := arr, fa_count := 1\<rparr>) (array_set (fa_regions self) 0 region)
      else bind_run
        (scan_while (\<lambda>r. PhysAddr_as_u64 (region_start r) < PhysAddr_as_u64 (region_start region))
           (fa_regions self) (fa_count self) 0) (\<lambda>index.
        if MAX_REGIONS \<le> fa_count self then Done self
        else bind_run (shift_up index (fa_count self) (fa_regions self)) (\<lambda>arr.
             bind_run (array_set arr index region) (\<lambda>arr.
               merge_adjacent_regions
                 (self\<lparr>fa_regions := arr, fa_count := fa_count self + 1\<rparr>)))))"

definition total_bytes :: "PhysicalFrameAllocator \<Rightarrow> u64 run" where
  "total_bytes self =
     for_each (\<lambda>i total. bind_run (array_get (fa_regions self) i) (\<lambda>r.
         bind_run (expect (checked_mul (region_pages r) FRAME_SIZE)) (\<lambda>bytes.
           expect (checked_add total bytes))))
       [0..<fa_count self] 0"

section \<open>The tracked range table\<close>

definition tracked_adj :: "TrackedRange \<Rightarrow> TrackedRange \<Rightarrow> bool" where
  "tracked_adj current nxt \<longleftrightarrow>
     tr_state current = tr_state nxt \<and> tr_owner current = tr_owner nxt
     \<and> region_end (tr_region current) = Some (region_start (tr_region nxt))"

definition tracked_join :: "TrackedRange \<Rightarrow> TrackedRange \<Rightarrow> TrackedRange" where
  "tracked_join current nxt =
     current\<lparr>tr_region := (tr_region current)
       \<lparr>region_pages := saturating_add (region_pages (tr_region current)) (region_pages (tr_region nxt))\<rparr>\<rparr>"

definition merge_adjacent_tracked_ranges :: "PhysicalFrameAllocator \<Rightarrow> PhysicalFrameAllocator run" where
  "merge_adjacent_tracked_ranges self =
     map_run (\<lambda>(arr, n). self\<lparr>tracked_ranges := arr, tracked_count := n\<rparr>)
       (merge_adjacent tracked_adj tracked_join (tracked_ranges self) (tracked_count self))"

definition insert_tracked_range_at ::
    "PhysicalFrameAllocator \<Rightarrow> nat \<Rightarrow> TrackedRange \<Rightarrow> PhysicalFrameAllocator run" where
  "insert_tracked_range_at self index entry =
     bind_run (assert_run (tracked_count self < MAX_TRACKED_RANGES)) (\<lambda>_.
     bind_run (assert_run (index \<le> tracked_count self)) (\<lambda>_.
     bind_run (shift_up index (tracked_count self) (tracked_ranges self)) (\<lambda>arr.
     bind_run (array_set arr index entry) (\<lambda>arr.
       Done (self\<lparr>tracked_ranges := arr, tracked_count := tracked_count self + 1\<rparr>)))))"

definition remove_tracked_range_at ::
    "PhysicalFrameAllocator \<Rightarrow> nat \<Rightarrow> PhysicalFrameAllocator run" where
  "remove_tracked_range_at self index =
     bind_run (assert_run (index < tracked_count self)) (\<lambda>_.
     bind_run (shift_down index (tracked_count self) (tracked_ranges self)) (\<lambda>arr.
       Done (self\<lparr>tracked_ranges := arr, tracked_count := tracked_count self - 1\<rparr>)))"

definition insert_tracked_range ::
    "PhysicalFrameAllocator \<Rightarrow> Region \<Rightarrow> FrameRangeState \<Rightarrow> FrameRangeOwner
       \<Rightarrow> PhysicalFrameAllocator run" where
  "insert_tracked_range self region state owner =
     (if region_pages region = 0 then Done self
      else bind_run
        (scan_while (\<lambda>t. PhysAddr_as_u64 (region_start (tr_region t)) < PhysAddr_as_u64 (region_start region))
           (tracked_ranges self) (tracked_count self) 0) (\<lambda>index.
        bind_run (insert_tracked_range_at self index
          \<lparr>tr_region = region, tr_state = state, tr_owner = owner\<rparr>) merge_adjacent_tracked_ranges))"

text \<open>Assignment through an index: \<open>self.tracked_ranges[index] = range\<close>.\<close>

definition set_tracked_range ::
    "PhysicalFrameAllocator \<Rightarrow> nat \<Rightarrow> TrackedRange \<Rightarrow> PhysicalFrameAllocator run" where
  "set_tracked_range self index entry =
     map_run (\<lambda>arr. self\<lparr>tracked_ranges := arr\<rparr>) (array_set (tracked_ranges self) index entry)"

definition free_range :: "PhysAddr \<Rightarrow> u64 \<Rightarrow> TrackedRange" where
  "free_range start pages =
     \<lparr>tr_region = \<lparr>region_start = start, region_pages = pages\<rparr>,
      tr_state = State_Free, tr_owner = Owner_Free\<rparr>"

lemma insert_tracked_range_at_count:
  "insert_tracked_range_at self index entry = Done self' \<Longrightarrow> tracked_count self' = Suc (tracked_count self)"
  by (auto simp: insert_tracked_range_at_def run_iffs)

lemma remove_tracked_range_at_count:
  "remove_tracked_range_at self index = Done self'
     \<Longrightarrow> index < tracked_count self \<and> tracked_count self' = tracked_count self - 1"
  by (auto simp: remove_tracked_range_at_def run_iffs)

lemma set_tracked_range_count:
  "set_tracked_range self index entry = Done self' \<Longrightarrow> tracked_count self' = tracked_count self"
  by (auto simp: set_tracked_range_def map_run_def run_iffs)

text \<open>
  The loop of \<open>remove_reserved_region_from_free_ranges\<close>; \<open>rs\<close> and \<open>re\<close> are the start and the
  end of the reserved region.
\<close>

function remove_reserved_loop ::
    "PhysicalFrameAllocator \<Rightarrow> u64 \<Rightarrow> u64 \<Rightarrow> nat \<Rightarrow> PhysicalFrameAllocator run" where
  "remove_reserved_loop self rs re index =
     (if index < tracked_count self
      then bind_run (array_get (tracked_ranges self) index) (\<lambda>tracked.
        if tr_state tracked \<noteq> State_Free then remove_reserved_loop self rs re (index + 1)
        else case region_end (tr_region tracked) of
          None \<Rightarrow> remove_reserved_loop self rs re (index + 1)
        | Some tracked_end \<Rightarrow>
            let start = PhysAddr_as_u64 (region_start (tr_region tracked));
                overlap_start = max start rs;
                overlap_end = min (PhysAddr_as_u64 tracked_end) re
            in if overlap_end \<le> overlap_start then remove_reserved_loop self rs re (index + 1)
               else
                 let before_pages = (overlap_start - start) div FRAME_SIZE;
                     after_pages = (PhysAddr_as_u64 tracked_end - overlap_end) div FRAME_SIZE
                 in if 0 < before_pages \<and> 0 < after_pages
                    then bind_run (set_tracked_range self index
                           (tracked\<lparr>tr_region := (tr_region tracked)\<lparr>region_pages := before_pages\<rparr>\<rparr>)) (\<lambda>self'.
                         bind_run (insert_tracked_range_at self' (index + 1)
                           (free_range (PhysAddr overlap_end) after_pages)) (\<lambda>self''.
                           remove_reserved_loop self'' rs re (index + 2)))
                    else if 0 < before_pages
                    then bind_run (set_tracked_range self index
                           (tracked\<lparr>tr_region := (tr_region tracked)\<lparr>region_pages := before_pages\<rparr>\<rparr>)) (\<lambda>self'.
                           remove_reserved_loop self' rs re (index + 1))
                    else if 0 < after_pages
                    then bind_run (set_tracked_range self index
                           (tracked\<lparr>tr_region := \<lparr>region_start = PhysAddr overlap_end,
                              region_pages = after_pages\<rparr>\<rparr>)) (\<lambda>self'.
                           remove_reserved_loop self' rs re (index + 1))
                    else bind_run (remove_tracked_range_at self index) (\<lambda>self'.
                           remove_reserved_loop self' rs re index))
      else Done self)"
  by pat_completeness auto
termination
  by (relation "measure (\<lambda>(self, rs, re, index). tracked_count self - index)")
    (auto dest!: insert_tracked_range_at_count remove_tracked_range_at_count set_tracked_range_count)

definition remove_reserved_region_from_free_ranges ::
    "PhysicalFrameAllocator \<Rightarrow> Region \<Rightarrow> PhysicalFrameAllocator run" where
  "remove_reserved_region_from_free_ranges self reserved_region =
     (case region_end reserved_region of
        None \<Rightarrow> Done self
      | Some reserved_end \<Rightarrow>
          bind_run (remove_reserved_loop self (PhysAddr_as_u64 (region_start reserved_region))
            (PhysAddr_as_u64 reserved_end) 0) merge_adjacent_tracked_ranges)"

text \<open>The body of \<open>mark_range_used\<close> once a free range that contains the region is found.\<close>

definition mark_range_used_at ::
    "PhysicalFrameAllocator \<Rightarrow> nat \<Rightarrow> TrackedRange \<Rightarrow> PhysAddr \<Rightarrow> Region \<Rightarrow> PhysAddr
       \<Rightarrow> FrameRangeOwner \<Rightarrow> PhysicalFrameAllocator run" where
  "mark_range_used_at self index tracked tracked_end used_region used_end owner =
     (let before_pages = (PhysAddr_as_u64 (region_start used_region)
            - PhysAddr_as_u64 (region_start (tr_region tracked))) div FRAME_SIZE;
          after_pages = (PhysAddr_as_u64 tracked_end - PhysAddr_as_u64 used_end) div FRAME_SIZE;
          used = \<lparr>tr_region = used_region, tr_state = State_Used, tr_owner = owner\<rparr>
      in bind_run (set_tracked_range self index used) (\<lambda>self.
         bind_run
           (if 0 < before_pages
            then bind_run (set_tracked_range self index
                   (free_range (region_start (tr_region tracked)) before_pages)) (\<lambda>self.
                 bind_run (insert_tracked_range_at self (index + 1) used) (\<lambda>self.
                   if 0 < after_pages
                   then insert_tracked_range_at self (index + 2) (free_range used_end after_pages)
                   else Done self))
            else if 0 < after_pages
            then insert_tracked_range_at self (index + 1) (free_range used_end after_pages)
            else Done self)
           merge_adjacent_tracked_ranges))"

function mark_range_used_loop ::
    "PhysicalFrameAllocator \<Rightarrow> Region \<Rightarrow> PhysAddr \<Rightarrow> FrameRangeOwner \<Rightarrow> nat
       \<Rightarrow> (PhysicalFrameAllocator \<times> bool) run" where
  "mark_range_used_loop self used_region used_end owner index =
     (if index < tracked_count self
      then bind_run (array_get (tracked_ranges self) index) (\<lambda>tracked.
        if tr_state tracked \<noteq> State_Free
        then mark_range_used_loop self used_region used_end owner (index + 1)
        else case region_end (tr_region tracked) of
          None \<Rightarrow> Done (self, False)
        | Some tracked_end \<Rightarrow>
            if PhysAddr_as_u64 (region_start used_region)
                 < PhysAddr_as_u64 (region_start (tr_region tracked))
               \<or> PhysAddr_as_u64 tracked_end < PhysAddr_as_u64 used_end
            then mark_range_used_loop self used_region used_end owner (index + 1)
            else map_run (\<lambda>self. (self, True))
                   (mark_range_used_at self index tracked tracked_end used_region used_end owner))
      else Done (self, False))"
  by pat_completeness auto
termination
  by (relation "measure (\<lambda>(self, r, e, ow, index). tracked_count self - index)") auto

definition mark_range_used ::
    "PhysicalFrameAllocator \<Rightarrow> Region \<Rightarrow> FrameRangeOwner \<Rightarrow> (PhysicalFrameAllocator \<times> bool) run" where
  "mark_range_used self used_region owner =
     (case region_end used_region of
        None \<Rightarrow> Done (self, False)
      | Some used_end \<Rightarrow> mark_range_used_loop self used_region used_end owner 0)"

text \<open>The body of \<open>mark_range_free\<close> once a used range of the owner that contains the region is found.\<close>

definition mark_range_free_at ::
    "PhysicalFrameAllocator \<Rightarrow> nat \<Rightarrow> TrackedRange \<Rightarrow> PhysAddr \<Rightarrow> Region \<Rightarrow> PhysAddr
       \<Rightarrow> FrameRangeOwner \<Rightarrow> PhysicalFrameAllocator run" where
  "mark_range_free_at self index tracked tracked_end freed_region freed_end owner =
     (let before_pages = (PhysAddr_as_u64 (region_start freed_region)
            - PhysAddr_as_u64 (region_start (tr_region tracked))) div FRAME_SIZE;
          after_pages = (PhysAddr_as_u64 tracked_end - PhysAddr_as_u64 freed_end) div FRAME_SIZE;
          freed = \<lparr>tr_region = freed_region, tr_state = State_Free, tr_owner = Owner_Free\<rparr>;
          used = (\<lambda>start pages. \<lparr>tr_region = \<lparr>region_start = start, region_pages = pages\<rparr>,
             tr_state = State_Used, tr_owner = owner\<rparr>)
      in bind_run (set_tracked_range self index freed) (\<lambda>self.
         bind_run
           (if 0 < before_pages
            then bind_run (set_tracked_range self index
                   (used (region_start (tr_region tracked)) before_pages)) (\<lambda>self.
                 bind_run (insert_tracked_range_at self (index + 1) freed) (\<lambda>self.
                   if 0 < after_pages
                   then insert_tracked_range_at self (index + 2) (used freed_end after_pages)
                   else Done self))
            else if 0 < after_pages
            then insert_tracked_range_at self (index + 1) (used freed_end after_pages)
            else Done self)
           merge_adjacent_tracked_ranges))"

function mark_range_free_loop ::
    "PhysicalFrameAllocator \<Rightarrow> Region \<Rightarrow> PhysAddr \<Rightarrow> FrameRangeOwner \<Rightarrow> nat
       \<Rightarrow> (PhysicalFrameAllocator \<times> bool) run" where
  "mark_range_free_loop self freed_region freed_end owner index =
     (if index < tracked_count self
      then bind_run (array_get (tracked_ranges self) index) (\<lambda>tracked.
        if tr_state tracked \<noteq> State_Used \<or> tr_owner tracked \<noteq> owner
        then mark_range_free_loop self freed_region freed_end owner (index + 1)
        else case region_end (tr_region tracked) of
          None \<Rightarrow> Done (self, False)
        | Some tracked_end \<Rightarrow>
            if PhysAddr_as_u64 (region_start freed_region)
                 < PhysAddr_as_u64 (region_start (tr_region tracked))
               \<or> PhysAddr_as_u64 tracked_end < PhysAddr_as_u64 freed_end
            then mark_range_free_loop self freed_region freed_end owner (index + 1)
            else map_run (\<lambda>self. (self, True))
                   (mark_range_free_at self index tracked tracked_end freed_region freed_end owner))
      else Done (self, False))"
  by pat_completeness auto
termination
  by (relation "measure (\<lambda>(self, r, e, ow, index). tracked_count self - index)") auto

definition mark_range_free ::
    "PhysicalFrameAllocator \<Rightarrow> Region \<Rightarrow> FrameRangeOwner \<Rightarrow> (PhysicalFrameAllocator \<times> bool) run" where
  "mark_range_free self freed_region owner =
     (case region_end freed_region of
        None \<Rightarrow> Done (self, False)
      | Some freed_end \<Rightarrow> mark_range_free_loop self freed_region freed_end owner 0)"

declare remove_reserved_loop.simps [simp del] mark_range_used_loop.simps [simp del]
  mark_range_free_loop.simps [simp del]

section \<open>Public operations\<close>

definition add_region ::
    "PhysicalFrameAllocator \<Rightarrow> PhysAddr \<Rightarrow> FrameCount \<Rightarrow> PhysicalFrameAllocator run" where
  "add_region self start frame_count =
     (case normalize_region start frame_count of
        None \<Rightarrow> Done self
      | Some region \<Rightarrow>
          bind_run (insert_region self region) (\<lambda>self.
            insert_tracked_range self region State_Free Owner_Free))"

definition reserve_region_for ::
    "PhysicalFrameAllocator \<Rightarrow> PhysAddr \<Rightarrow> FrameCount \<Rightarrow> FrameRangeOwner
       \<Rightarrow> PhysicalFrameAllocator run" where
  "reserve_region_for self start frame_count owner =
     (case normalize_reserved_region start frame_count of
        None \<Rightarrow> Done self
      | Some region \<Rightarrow>
          bind_run (insert_tracked_range self region State_Reserved owner) (\<lambda>self.
            remove_reserved_region_from_free_ranges self region))"

definition reserve_region ::
    "PhysicalFrameAllocator \<Rightarrow> PhysAddr \<Rightarrow> FrameCount \<Rightarrow> PhysicalFrameAllocator run" where
  "reserve_region self start frame_count = reserve_region_for self start frame_count FirmwareReserved"

text \<open>The loop of \<open>allocate_frames_for\<close>; \<open>n\<close> is the tracked count at its start.\<close>

function allocate_frames_loop ::
    "PhysicalFrameAllocator \<Rightarrow> FrameCount \<Rightarrow> FrameRangeOwner \<Rightarrow> nat \<Rightarrow> nat
       \<Rightarrow> (PhysicalFrameAllocator \<times> PhysicalFrameRange option) run" where
  "allocate_frames_loop self frame_count owner n index =
     (if index < n
      then bind_run (array_get (tracked_ranges self) index) (\<lambda>tracked.
        if tr_state tracked \<noteq> State_Free
           \<or> region_pages (tr_region tracked) < FrameCount_as_u64 frame_count
        then allocate_frames_loop self frame_count owner n (index + 1)
        else
          let candidate_region = \<lparr>region_start = region_start (tr_region tracked),
                                   region_pages = FrameCount_as_u64 frame_count\<rparr>
          in bind_run (mark_range_used self candidate_region owner) (\<lambda>(self, marked).
               if marked
               then bind_run (expect (PhysicalFrameStart_new (region_start candidate_region))) (\<lambda>start.
                 Done (self, PhysicalFrameRange_new start frame_count))
               else allocate_frames_loop self frame_count owner n (index + 1)))
      else Done (self, None))"
  by pat_completeness auto
termination
  by (relation "measure (\<lambda>(self, c, ow, n, index). n - index)") auto

declare allocate_frames_loop.simps [simp del]

definition allocate_frames_for ::
    "PhysicalFrameAllocator \<Rightarrow> FrameCount \<Rightarrow> FrameRangeOwner
       \<Rightarrow> (PhysicalFrameAllocator \<times> PhysicalFrameRange option) run" where
  "allocate_frames_for self frame_count owner =
     bind_run (assert_run (owner \<noteq> Owner_Free)) (\<lambda>_.
       allocate_frames_loop self frame_count owner (tracked_count self) 0)"

definition allocate_frames ::
    "PhysicalFrameAllocator \<Rightarrow> FrameCount \<Rightarrow> (PhysicalFrameAllocator \<times> PhysicalFrameRange option) run" where
  "allocate_frames self frame_count = allocate_frames_for self frame_count UnknownUsed"

definition allocate_frame_for ::
    "PhysicalFrameAllocator \<Rightarrow> FrameRangeOwner
       \<Rightarrow> (PhysicalFrameAllocator \<times> PhysicalFrameStart option) run" where
  "allocate_frame_for self owner =
     bind_run (expect (FrameCount_new 1)) (\<lambda>one.
       map_run (\<lambda>(self, r). (self, map_option pfr_start r)) (allocate_frames_for self one owner))"

definition allocate_frame ::
    "PhysicalFrameAllocator \<Rightarrow> (PhysicalFrameAllocator \<times> PhysicalFrameStart option) run" where
  "allocate_frame self = allocate_frame_for self UnknownUsed"

definition free_frames_for ::
    "PhysicalFrameAllocator \<Rightarrow> PhysicalFrameRange \<Rightarrow> FrameRangeOwner
       \<Rightarrow> (PhysicalFrameAllocator \<times> bool) run" where
  "free_frames_for self rng owner =
     (if owner = Owner_Free then Done (self, False)
      else mark_range_free self
        \<lparr>region_start = PhysicalFrameStart_as_address (pfr_start rng),
         region_pages = FrameCount_as_u64 (pfr_frame_count rng)\<rparr> owner)"

section \<open>Accounting\<close>

definition count_state :: "TrackedRange \<Rightarrow> FrameAllocatorStatistics \<Rightarrow> FrameAllocatorStatistics" where
  "count_state rng statistics =
     (let pages = region_pages (tr_region rng) in
      case tr_state rng of
        State_Reserved \<Rightarrow> statistics\<lparr>stat_reserved := saturating_add (stat_reserved statistics) pages\<rparr>
      | State_Free \<Rightarrow> statistics\<lparr>stat_free := saturating_add (stat_free statistics) pages\<rparr>
      | State_Used \<Rightarrow> statistics\<lparr>stat_used := saturating_add (stat_used statistics) pages\<rparr>)"

definition fa_statistics :: "PhysicalFrameAllocator \<Rightarrow> FrameAllocatorStatistics run" where
  "fa_statistics self =
     for_each (\<lambda>index st. bind_run (array_get (tracked_ranges self) index) (\<lambda>rng. Done (count_state rng st)))
       [0..<tracked_count self] \<lparr>stat_reserved = 0, stat_free = 0, stat_used = 0\<rparr>"

definition count_owner ::
    "TrackedRange \<Rightarrow> FrameAllocatorOwnerStatistics \<Rightarrow> FrameAllocatorOwnerStatistics" where
  "count_owner rng statistics =
     (let pages = region_pages (tr_region rng) in
      case tr_owner rng of
        Owner_Free \<Rightarrow> statistics\<lparr>os_free := saturating_add (os_free statistics) pages\<rparr>
      | FirmwareReserved \<Rightarrow> statistics\<lparr>os_firmware_reserved := saturating_add (os_firmware_reserved statistics) pages\<rparr>
      | KernelImage \<Rightarrow> statistics\<lparr>os_kernel_image := saturating_add (os_kernel_image statistics) pages\<rparr>
      | Mmio \<Rightarrow> statistics\<lparr>os_mmio := saturating_add (os_mmio statistics) pages\<rparr>
      | GuardPage \<Rightarrow> statistics\<lparr>os_guard_page := saturating_add (os_guard_page statistics) pages\<rparr>
      | UnknownUsed \<Rightarrow> statistics\<lparr>os_unknown_used := saturating_add (os_unknown_used statistics) pages\<rparr>
      | PageTable \<Rightarrow> statistics\<lparr>os_page_table := saturating_add (os_page_table statistics) pages\<rparr>
      | KernelHeap \<Rightarrow> statistics\<lparr>os_kernel_heap := saturating_add (os_kernel_heap statistics) pages\<rparr>
      | KernelStack \<Rightarrow> statistics\<lparr>os_kernel_stack := saturating_add (os_kernel_stack statistics) pages\<rparr>
      | FramebufferBackbuffer \<Rightarrow> statistics\<lparr>os_framebuffer_backbuffer := saturating_add (os_framebuffer_backbuffer statistics) pages\<rparr>
      | AhciDma \<Rightarrow> statistics\<lparr>os_ahci_dma := saturating_add (os_ahci_dma statistics) pages\<rparr>
      | DynamicKernelMapping \<Rightarrow> statistics\<lparr>os_dynamic_kernel_mapping := saturating_add (os_dynamic_kernel_mapping statistics) pages\<rparr>
      | UserStack \<Rightarrow> statistics\<lparr>os_user_stack := saturating_add (os_user_stack statistics) pages\<rparr>
      | UserElf \<Rightarrow> statistics\<lparr>os_user_elf := saturating_add (os_user_elf statistics) pages\<rparr>
      | UserHeap \<Rightarrow> statistics\<lparr>os_user_heap := saturating_add (os_user_heap statistics) pages\<rparr>
      | UserMapping \<Rightarrow> statistics\<lparr>os_user_mapping := saturating_add (os_user_mapping statistics) pages\<rparr>)"

definition no_owner_statistics :: FrameAllocatorOwnerStatistics where
  "no_owner_statistics =
     \<lparr>os_free = 0, os_firmware_reserved = 0, os_kernel_image = 0, os_mmio = 0,
      os_guard_page = 0, os_unknown_used = 0, os_page_table = 0, os_kernel_heap = 0,
      os_kernel_stack = 0, os_framebuffer_backbuffer = 0, os_ahci_dma = 0,
      os_dynamic_kernel_mapping = 0, os_user_stack = 0, os_user_elf = 0, os_user_heap = 0,
      os_user_mapping = 0\<rparr>"

definition owner_statistics :: "PhysicalFrameAllocator \<Rightarrow> FrameAllocatorOwnerStatistics run" where
  "owner_statistics self =
     for_each (\<lambda>index st. bind_run (array_get (tracked_ranges self) index) (\<lambda>rng. Done (count_owner rng st)))
       [0..<tracked_count self] no_owner_statistics"

definition pages_owned_by :: "PhysicalFrameAllocator \<Rightarrow> FrameRangeOwner \<Rightarrow> u64 run" where
  "pages_owned_by self owner =
     for_each (\<lambda>index pages. bind_run (array_get (tracked_ranges self) index) (\<lambda>rng.
         Done (if tr_owner rng = owner then saturating_add pages (region_pages (tr_region rng)) else pages)))
       [0..<tracked_count self] 0"

end
