(* ===== verification/Frame_Tables.thy ===== *)
theory Frame_Tables
  imports Frame_Allocator
begin

text \<open>
  The table level of the frame allocator proofs: the tracked ranges seen as cells over
  frame numbers, the interpretation of \<open>range_cells\<close> on the merge loop of
  \<open>frame_allocator.rs\<close>, and each table operation as a list operation on the live prefix.
\<close>

section \<open>Tracked ranges as cells over frame numbers\<close>

definition tr_lo :: "TrackedRange \<Rightarrow> nat" where
  "tr_lo t = unat (PhysAddr_as_u64 (region_start (tr_region t))) div 4096"

definition tr_pages :: "TrackedRange \<Rightarrow> nat" where
  "tr_pages t = unat (region_pages (tr_region t))"

definition tr_hi :: "TrackedRange \<Rightarrow> nat" where
  "tr_hi t = tr_lo t + tr_pages t"

definition tr_tag :: "TrackedRange \<Rightarrow> FrameRangeState \<times> FrameRangeOwner" where
  "tr_tag t = (tr_state t, tr_owner t)"

definition region_ok :: "Region \<Rightarrow> bool" where
  "region_ok r \<longleftrightarrow> 4096 dvd unat (PhysAddr_as_u64 (region_start r)) \<and> 0 < unat (region_pages r)
     \<and> unat (PhysAddr_as_u64 (region_start r)) + unat (region_pages r) * 4096 < 2 ^ 64"

definition tr_ok :: "TrackedRange \<Rightarrow> bool" where
  "tr_ok t \<longleftrightarrow> region_ok (tr_region t)
     \<and> (tr_state t = State_Free \<longrightarrow> tr_owner t = Owner_Free)
     \<and> (tr_state t = State_Used \<longrightarrow> tr_owner t \<noteq> Owner_Free)
     \<and> (tr_state t \<noteq> State_Reserved \<longrightarrow> 0 < tr_lo t)"

lemma PhysAddr_checked_add_Some_iff:
  "PhysAddr_checked_add a n = Some b \<longleftrightarrow>
     unat (PhysAddr_as_u64 b) = unat (PhysAddr_as_u64 a) + unat n"
  by (cases b) (simp add: PhysAddr_checked_add_def option_iffs checked_iffs)

lemma region_end_Some_iff:
  "region_end r = Some e \<longleftrightarrow>
     unat (PhysAddr_as_u64 e) = unat (PhysAddr_as_u64 (region_start r)) + unat (region_pages r) * 4096"
proof
  assume "region_end r = Some e"
  then show "unat (PhysAddr_as_u64 e) = unat (PhysAddr_as_u64 (region_start r)) + unat (region_pages r) * 4096"
    by (auto simp: region_end_def option_iffs PhysAddr_checked_add_Some_iff checked_mul_Some_iff)
next
  assume e: "unat (PhysAddr_as_u64 e) = unat (PhysAddr_as_u64 (region_start r)) + unat (region_pages r) * 4096"
  then have "unat (region_pages r) * 4096 < 18446744073709551616"
    using unat_u64_bound [of "PhysAddr_as_u64 e"] by linarith
  then have "checked_mul (region_pages r) FRAME_SIZE = Some (region_pages r * 4096)"
    by (simp add: checked_mul_def)
  with e \<open>unat (region_pages r) * 4096 < 18446744073709551616\<close> show "region_end r = Some e"
    by (simp add: region_end_def PhysAddr_checked_add_Some_iff unat_word_ariths)
qed

lemma region_end_ok:
  assumes "region_ok r"
  obtains e where "region_end r = Some e"
    "unat (PhysAddr_as_u64 e) = unat (PhysAddr_as_u64 (region_start r)) + unat (region_pages r) * 4096"
proof
  let ?n = "unat (PhysAddr_as_u64 (region_start r)) + unat (region_pages r) * 4096"
  show "unat (PhysAddr_as_u64 (PhysAddr (of_nat ?n))) = ?n"
    using assms by (simp only: region_ok_def PhysAddr.sel unat_of_nat) simp
  then show "region_end r = Some (PhysAddr (of_nat ?n))"
    by (simp only: region_end_Some_iff)
qed

lemma region_lo_bytes:
  "region_ok (tr_region t) \<Longrightarrow> unat (PhysAddr_as_u64 (region_start (tr_region t))) = 4096 * tr_lo t"
  by (simp add: region_ok_def tr_lo_def)

lemma region_end_bytes:
  assumes "region_ok (tr_region t)" "region_end (tr_region t) = Some e"
  shows "unat (PhysAddr_as_u64 e) = 4096 * tr_hi t"
  using assms region_lo_bytes [OF assms(1)] by (simp add: region_end_Some_iff tr_hi_def tr_pages_def)

lemma tr_ok_region: "tr_ok t \<Longrightarrow> region_ok (tr_region t)"
  by (simp add: tr_ok_def)

lemmas tr_lo_bytes = region_lo_bytes [OF tr_ok_region]
lemmas tr_end_bytes = region_end_bytes [OF tr_ok_region]

lemma tr_end_Some:
  assumes "tr_ok t"
  obtains e where "region_end (tr_region t) = Some e" "unat (PhysAddr_as_u64 e) = 4096 * tr_hi t"
  using assms region_end_ok tr_end_bytes by (metis tr_ok_def)

lemma tr_hi_bound: "tr_ok t \<Longrightarrow> 4096 * tr_hi t < 2 ^ 64"
  by (simp add: tr_ok_def region_ok_def tr_hi_def tr_lo_def tr_pages_def)

lemma tracked_adj_iff:
  assumes "tr_ok a" "tr_ok b"
  shows "tracked_adj a b \<longleftrightarrow> tr_tag a = tr_tag b \<and> tr_hi a = tr_lo b"
  using assms tr_lo_bytes [OF assms(1)] tr_lo_bytes [OF assms(2)]
  by (auto simp: tracked_adj_def tr_tag_def region_end_Some_iff tr_hi_def tr_pages_def)

lemma tracked_join_pages:
  assumes "tr_ok a" "tr_ok b" "tracked_adj a b"
  shows "tr_pages (tracked_join a b) = tr_pages a + tr_pages b"
proof -
  have "tr_hi a = tr_lo b" using assms by (simp add: tracked_adj_iff)
  then have "4096 * (tr_pages a + tr_pages b) < 2 ^ 64"
    using tr_hi_bound [OF assms(2)] by (simp add: tr_hi_def)
  then show ?thesis
    by (simp add: tr_pages_def tracked_join_def unat_saturating_add)
qed

interpretation tracked: range_cells tr_ok tr_lo tr_hi tr_tag tracked_adj tracked_join
proof unfold_locales
  fix a b assume ab: "tr_ok a" "tr_ok b"
  show "tr_lo a < tr_hi a" using ab by (simp add: tr_ok_def region_ok_def tr_hi_def tr_pages_def)
  show "tracked_adj a b \<longleftrightarrow> tr_tag a = tr_tag b \<and> tr_hi a = tr_lo b"
    using ab by (rule tracked_adj_iff)
  assume adj: "tracked_adj a b"
  have hl: "tr_hi a = tr_lo b" "tr_tag a = tr_tag b" using adj ab by (simp_all add: tracked_adj_iff)
  show lo: "tr_lo (tracked_join a b) = tr_lo a" by (simp add: tr_lo_def tracked_join_def)
  show hi: "tr_hi (tracked_join a b) = tr_hi b"
    using hl tracked_join_pages [OF ab adj] lo by (simp add: tr_hi_def)
  show tag: "tr_tag (tracked_join a b) = tr_tag a" by (simp add: tr_tag_def tracked_join_def)
  show "tr_ok (tracked_join a b)"
    using ab tracked_join_pages [OF ab adj] tr_hi_bound [OF ab(2)] tr_lo_bytes [OF ab(1)] lo hl
    by (auto simp: tr_ok_def region_ok_def tracked_join_def tr_pages_def tr_hi_def)
qed

section \<open>Table operations on the live prefix\<close>

definition repr :: "PhysicalFrameAllocator \<Rightarrow> TrackedRange list \<Rightarrow> bool" where
  "repr s xs \<longleftrightarrow> length (tracked_ranges s) = MAX_TRACKED_RANGES \<and> tracked_count s \<le> MAX_TRACKED_RANGES
     \<and> take (tracked_count s) (tracked_ranges s) = xs
     \<and> length (fa_regions s) = MAX_REGIONS \<and> fa_count s \<le> MAX_REGIONS"

lemma repr_count: "repr s xs \<Longrightarrow> tracked_count s = length xs"
  by (auto simp: repr_def)

lemma repr_length: "repr s xs \<Longrightarrow> length xs \<le> MAX_TRACKED_RANGES"
  by (auto simp: repr_def)

lemma repr_unique: "repr s xs \<Longrightarrow> repr s ys \<Longrightarrow> xs = ys"
  by (auto simp: repr_def)

lemma repr_nth: "repr s xs \<Longrightarrow> i < length xs \<Longrightarrow> tracked_ranges s ! i = xs ! i"
  by (auto simp: repr_def)

lemma repr_get:
  "repr s xs \<Longrightarrow> i < length xs \<Longrightarrow> array_get (tracked_ranges s) i = Done (xs ! i)"
  by (auto simp: repr_def)

lemma repr_new: "repr frame_allocator_new []"
  by (simp add: repr_def frame_allocator_new_def)

lemma runs_insert_at:
  assumes "repr s xs" "length xs < MAX_TRACKED_RANGES" "i \<le> length xs"
  shows "runs (insert_tracked_range_at s i x) (\<lambda>s'. repr s' (take i xs @ x # drop i xs))"
proof -
  have n: "tracked_count s = length xs" using assms(1) by (rule repr_count)
  have live: "take (tracked_count s) (tracked_ranges s) = xs" using assms(1) by (simp add: repr_def)
  have "i \<le> tracked_count s" "tracked_count s < length (tracked_ranges s)"
    using assms n by (auto simp: repr_def)
  from shift_up_insert [OF this, of x, unfolded live]
  obtain arr where "shift_up i (tracked_count s) (tracked_ranges s) = Done arr"
    "i < length arr" "length arr = length (tracked_ranges s)"
    "take (Suc (tracked_count s)) (arr[i := x]) = take i xs @ x # drop i xs"
    by blast
  then show ?thesis
    using assms n by (simp add: insert_tracked_range_at_def repr_def)
qed

lemma runs_set:
  assumes "repr s xs" "i < length xs"
  shows "runs (set_tracked_range s i x) (\<lambda>s'. repr s' (xs[i := x]))"
  using assms by (auto simp: set_tracked_range_def repr_def take_update_swap)

lemma runs_remove:
  assumes "repr s xs" "i < length xs"
  shows "runs (remove_tracked_range_at s i) (\<lambda>s'. repr s' (take i xs @ drop (Suc i) xs))"
proof -
  have n: "tracked_count s = length xs" using assms(1) by (rule repr_count)
  have live: "take (tracked_count s) (tracked_ranges s) = xs" using assms(1) by (simp add: repr_def)
  have "i < tracked_count s" "tracked_count s \<le> length (tracked_ranges s)"
    using assms n by (auto simp: repr_def)
  from shift_down_remove [OF this, unfolded live]
  obtain arr where "shift_down i (tracked_count s) (tracked_ranges s) = Done arr"
    "length arr = length (tracked_ranges s)"
    "take (tracked_count s - 1) arr = take i xs @ drop (Suc i) xs"
    by blast
  then show ?thesis
    using assms n by (auto simp: remove_tracked_range_at_def repr_def)
qed

lemma runs_merge:
  assumes "repr s xs"
  shows "runs (merge_adjacent_tracked_ranges s) (\<lambda>s'. repr s' (coalesce tracked_adj tracked_join xs))"
proof -
  obtain arr n where "merge_adjacent tracked_adj tracked_join (tracked_ranges s) (tracked_count s) = Done (arr, n)"
    "length arr = length (tracked_ranges s)" "n \<le> tracked_count s"
    "take n arr = coalesce tracked_adj tracked_join (take (tracked_count s) (tracked_ranges s))"
    using merge_adjacent_Done [of "tracked_count s" "tracked_ranges s" tracked_adj tracked_join] assms
    by (auto simp: repr_def)
  then show ?thesis
    using assms by (simp add: merge_adjacent_tracked_ranges_def repr_def)
qed

definition starts_below :: "Region \<Rightarrow> TrackedRange \<Rightarrow> bool" where
  "starts_below region t \<longleftrightarrow>
     PhysAddr_as_u64 (region_start (tr_region t)) < PhysAddr_as_u64 (region_start region)"

lemma runs_insert:
  assumes "repr s xs" "length xs < MAX_TRACKED_RANGES" "region_pages region \<noteq> 0"
  shows "runs (insert_tracked_range s region st ow) (\<lambda>s'. repr s'
     (coalesce tracked_adj tracked_join
       (takeWhile (starts_below region) xs @ \<lparr>tr_region = region, tr_state = st, tr_owner = ow\<rparr>
          # dropWhile (starts_below region) xs)))"
proof -
  let ?i = "length (takeWhile (starts_below region) xs)"
  have i: "?i \<le> length xs" by (rule length_takeWhile_le)
  have scan: "scan_while (\<lambda>t. PhysAddr_as_u64 (region_start (tr_region t)) < PhysAddr_as_u64 (region_start region))
      (tracked_ranges s) (tracked_count s) 0 = Done ?i"
    using scan_while_Done [of "tracked_count s" "tracked_ranges s"] assms(1)
    by (simp add: repr_def starts_below_def [abs_def])
  have td: "take ?i xs = takeWhile (starts_below region) xs" "drop ?i xs = dropWhile (starts_below region) xs"
    by (simp_all add: takeWhile_eq_take [symmetric] dropWhile_eq_drop [symmetric])
  show ?thesis
    using assms(3) scan runs_insert_at [OF assms(1,2) i]
    by (auto simp: insert_tracked_range_def td intro: runs_conseq runs_merge)
qed

lemma runs_insert_zero: "region_pages region = 0 \<Longrightarrow> insert_tracked_range s region st ow = Done s"
  by (simp add: insert_tracked_range_def)

lemma runs_insert_region:
  assumes "repr s xs"
  shows "runs (insert_region s region) (\<lambda>s'. repr s' xs)"
proof -
  let ?p = "\<lambda>r. PhysAddr_as_u64 (region_start r) < PhysAddr_as_u64 (region_start region)"
  let ?i = "length (takeWhile ?p (take (fa_count s) (fa_regions s)))"
  have i: "?i \<le> fa_count s" using length_takeWhile_le [of ?p "take (fa_count s) (fa_regions s)"] by simp
  have scan: "scan_while ?p (fa_regions s) (fa_count s) 0 = Done ?i"
    using assms by (intro scan_while_Done) (simp add: repr_def)
  show ?thesis
  proof (cases "fa_count s = 0 \<or> MAX_REGIONS \<le> fa_count s")
    case True
    then show ?thesis using assms scan by (auto simp: insert_region_def repr_def)
  next
    case False
    then obtain arr where arr: "shift_up ?i (fa_count s) (fa_regions s) = Done arr"
      "?i < length arr" "length arr = length (fa_regions s)"
      using shift_up_insert [OF i, of "fa_regions s" region] assms by (auto simp: repr_def)
    moreover obtain arr' n where "merge_adjacent region_adj region_join (arr[?i := region]) (fa_count s + 1)
        = Done (arr', n)" "length arr' = length arr" "n \<le> fa_count s + 1"
      using merge_adjacent_Done [of "fa_count s + 1" "arr[?i := region]" region_adj region_join]
        arr False assms by (auto simp: repr_def)
    ultimately show ?thesis
      using False scan assms by (simp add: insert_region_def merge_adjacent_regions_def repr_def)
  qed
qed

section \<open>Splitting a cell\<close>

definition pieces ::
    "(PhysAddr \<Rightarrow> u64 \<Rightarrow> TrackedRange) \<Rightarrow> PhysAddr \<Rightarrow> u64 \<Rightarrow> TrackedRange \<Rightarrow> PhysAddr \<Rightarrow> u64
       \<Rightarrow> TrackedRange list" where
  "pieces outer start before inner inner_end after =
     (if 0 < before then [outer start before] else []) @ inner
       # (if 0 < after then [outer inner_end after] else [])"

lemma runs_split:
  assumes "repr s xs" "i < length xs"
    and "length xs + length (pieces outer start before inner inner_end after) \<le> Suc MAX_TRACKED_RANGES"
  shows "runs
    (bind_run (set_tracked_range s i inner) (\<lambda>s.
       bind_run
         (if 0 < before
          then bind_run (set_tracked_range s i (outer start before)) (\<lambda>s.
               bind_run (insert_tracked_range_at s (i + 1) inner) (\<lambda>s.
                 if 0 < after
                 then insert_tracked_range_at s (i + 2) (outer inner_end after)
                 else Done s))
          else if 0 < after
          then insert_tracked_range_at s (i + 1) (outer inner_end after)
          else Done s)
         merge_adjacent_tracked_ranges))
    (\<lambda>s'. repr s' (coalesce tracked_adj tracked_join
       (take i xs @ pieces outer start before inner inner_end after @ drop (Suc i) xs)))"
proof -
  let ?P = "\<lambda>ys s'. repr s' (coalesce tracked_adj tracked_join ys)"
  have set2: "repr s' (xs[i := inner]) \<Longrightarrow> runs (set_tracked_range s' i x) (\<lambda>s'. repr s' (xs[i := x]))" for s' x
    using runs_set [of s' "xs[i := inner]" i x] assms(2) by simp
  have upd: "xs[i := x] = take i xs @ x # drop (Suc i) xs" for x
    using assms(2) by (rule upd_conv_take_nth_drop)
  have ins1: "runs (insert_tracked_range_at s' (Suc i) y) (\<lambda>s'. repr s' (take i xs @ x # y # drop (Suc i) xs))"
    if "repr s' (xs[i := x])" "length xs < MAX_TRACKED_RANGES" for s' x y
    using runs_insert_at [OF that(1), of "Suc i" y] that(2) assms(2) by (simp add: upd)
  have ins2: "runs (insert_tracked_range_at s' (Suc (Suc i)) z) (\<lambda>s'. repr s' (take i xs @ x # y # z # drop (Suc i) xs))"
    if "repr s' (take i xs @ x # y # drop (Suc i) xs)" "Suc (length xs) < MAX_TRACKED_RANGES" for s' x y z
    using runs_insert_at [OF that(1), of "Suc (Suc i)" z] that(2) assms(2) by (simp add: min_def)
  have m: "repr s' ys \<Longrightarrow> runs (merge_adjacent_tracked_ranges s') (?P ys)" for s' ys
    by (rule runs_merge)
  consider (ba) "0 < before" "0 < after" | (b) "0 < before" "\<not> 0 < after"
    | (a) "\<not> 0 < before" "0 < after" | (n) "\<not> 0 < before" "\<not> 0 < after" by blast
  then show ?thesis
  proof cases
    case ba
    then have cap: "length xs < MAX_TRACKED_RANGES" "Suc (length xs) < MAX_TRACKED_RANGES"
      using assms(3) by (auto simp: pieces_def)
    show ?thesis
      using ba unfolding runs_bind if_P [OF ba(1)] if_P [OF ba(2)] pieces_def
      by (auto intro!: runs_conseq [OF runs_set [OF assms(1,2)]] runs_conseq [OF set2]
          runs_conseq [OF ins1 [OF _ cap(1)]] runs_conseq [OF ins2 [OF _ cap(2)]] intro: m)
  next
    case b
    then have cap: "length xs < MAX_TRACKED_RANGES" using assms(3) by (auto simp: pieces_def)
    show ?thesis
      using b unfolding runs_bind if_P [OF b(1)] if_not_P [OF b(2)] pieces_def
      by (auto intro!: runs_conseq [OF runs_set [OF assms(1,2)]] runs_conseq [OF set2]
          runs_conseq [OF ins1 [OF _ cap(1)]] intro: m)
  next
    case a
    then have cap: "length xs < MAX_TRACKED_RANGES" using assms(3) by (auto simp: pieces_def)
    show ?thesis
      using a unfolding runs_bind if_not_P [OF a(1)] if_P [OF a(2)] pieces_def
      by (auto intro!: runs_conseq [OF runs_set [OF assms(1,2)]]
          runs_conseq [OF ins1 [OF _ cap(1)]] intro: m)
  next
    case n
    show ?thesis
      using n unfolding runs_bind if_not_P [OF n(1)] if_not_P [OF n(2)] pieces_def
      by (auto intro!: runs_conseq [OF runs_set [OF assms(1,2)]] dest: m simp: upd)
  qed
qed

end
