(* ===== verification/Frame_Allocator_Proofs.thy ===== *)
theory Frame_Allocator_Proofs
  imports Frame_Tables
begin

text \<open>
  Correctness of the frame allocator: the table invariant, the abstract view of a table as
  a set of frame numbers per state and owner, and what each operation does to it.
\<close>

section \<open>Invariant and abstraction\<close>

definition overlap_ok ::
    "nat set \<Rightarrow> FrameRangeState \<times> FrameRangeOwner \<Rightarrow> FrameRangeState \<times> FrameRangeOwner \<Rightarrow> nat set" where
  "overlap_ok H k k' =
     (if fst k = State_Reserved \<and> fst k' = State_Reserved then UNIV
      else if fst k = State_Reserved \<and> fst k' = State_Free \<or> fst k = State_Free \<and> fst k' = State_Reserved
      then H else {})"

abbreviation tr_sep :: "nat set \<Rightarrow> TrackedRange \<Rightarrow> TrackedRange \<Rightarrow> bool" where
  "tr_sep H \<equiv> sep tr_lo tr_hi tr_tag (overlap_ok H)"

definition table_ok :: "nat set \<Rightarrow> TrackedRange list \<Rightarrow> bool" where
  "table_ok H xs \<longleftrightarrow> (\<forall>t\<in>set xs. tr_ok t) \<and> sorted_wrt (tr_sep H) xs"

text \<open>A canonical table is also in address order, with no two neighbours that could be merged.\<close>

definition canon :: "TrackedRange list \<Rightarrow> bool" where
  "canon xs \<longleftrightarrow> table_ok {} xs \<and> ordered tr_lo xs \<and> successively (\<lambda>a b. \<not> tracked_adj a b) xs"

definition live :: "PhysicalFrameAllocator \<Rightarrow> TrackedRange list" where
  "live s = take (tracked_count s) (tracked_ranges s)"

text \<open>
  The safety invariant: cells are page aligned, non-empty and do not wrap, and only
  reserved cells may overlap, and only each other. The canonical form adds the order that
  the merge loop relies on.
\<close>

definition fa_inv :: "PhysicalFrameAllocator \<Rightarrow> bool" where
  "fa_inv s \<longleftrightarrow> repr s (live s) \<and> table_ok {} (live s)"

definition fa_canon :: "PhysicalFrameAllocator \<Rightarrow> bool" where
  "fa_canon s \<longleftrightarrow> repr s (live s) \<and> canon (live s)"

abbreviation frames :: "TrackedRange list \<Rightarrow> FrameRangeState \<times> FrameRangeOwner \<Rightarrow> nat set" where
  "frames xs k \<equiv> cover tr_lo tr_hi tr_tag xs k"

text \<open>The frames in a given state with a given owner: the abstract value of the allocator.\<close>

definition fa_frames :: "PhysicalFrameAllocator \<Rightarrow> FrameRangeState \<Rightarrow> FrameRangeOwner \<Rightarrow> nat set" where
  "fa_frames s st ow = frames (live s) (st, ow)"

abbreviation free_frames :: "PhysicalFrameAllocator \<Rightarrow> nat set" where
  "free_frames s \<equiv> fa_frames s State_Free Owner_Free"

lemma repr_live: "repr s xs \<Longrightarrow> live s = xs"
  by (simp add: repr_def live_def)

lemma fa_invI: "repr s xs \<Longrightarrow> table_ok {} xs \<Longrightarrow> fa_inv s"
  by (simp add: fa_inv_def repr_live)

lemma fa_canonI: "repr s xs \<Longrightarrow> canon xs \<Longrightarrow> fa_canon s"
  by (simp add: fa_canon_def repr_live)

lemma fa_canon_inv: "fa_canon s \<Longrightarrow> fa_inv s"
  by (simp add: fa_canon_def fa_inv_def canon_def)

lemma fa_canon_new: "fa_canon frame_allocator_new"
  by (rule fa_canonI [OF repr_new]) (simp add: canon_def table_ok_def ordered_def)

lemma coalesce_table:
  assumes "table_ok H xs"
  shows "table_ok H (coalesce tracked_adj tracked_join xs)"
    and "frames (coalesce tracked_adj tracked_join xs) k = frames xs k"
  using assms tracked.coalesce_ok [of xs] tracked.coalesce_sep [of xs "overlap_ok H"]
    tracked.coalesce_cover [of xs k]
  by (simp_all add: table_ok_def)

lemma coalesce_canon:
  assumes "table_ok {} xs" "ordered tr_lo xs"
  shows "canon (coalesce tracked_adj tracked_join xs)"
  using assms coalesce_table [of "{}" xs] tracked.coalesce_ordered [of xs] tracked.coalesce_no_adj [of xs]
  by (simp add: canon_def table_ok_def)

section \<open>Cells of a split\<close>

lemma region_frames:
  assumes "region_ok r"
  shows "unat (PhysAddr_as_u64 (region_start r)) = 4096 * tr_lo \<lparr>tr_region = r, tr_state = st, tr_owner = ow\<rparr>"
    and "tr_hi \<lparr>tr_region = r, tr_state = st, tr_owner = ow\<rparr>
       = tr_lo \<lparr>tr_region = r, tr_state = st, tr_owner = ow\<rparr> + unat (region_pages r)"
  using assms by (simp_all add: region_ok_def tr_lo_def tr_hi_def tr_pages_def)

lemma word_page_diff:
  fixes x y :: u64
  assumes "unat x = 4096 * a" "unat y = 4096 * b" "b \<le> a"
  shows "unat ((x - y) div 4096) = a - b"
proof -
  have "y \<le> x" using assms by (simp add: word_le_nat_alt)
  then have "unat (x - y) = 4096 * (a - b)" using assms by (simp add: unat_sub diff_mult_distrib2)
  then show ?thesis by (simp add: unat_div)
qed

definition outer_cell :: "TrackedRange \<Rightarrow> PhysAddr \<Rightarrow> u64 \<Rightarrow> TrackedRange" where
  "outer_cell t start pages =
     \<lparr>tr_region = \<lparr>region_start = start, region_pages = pages\<rparr>, tr_state = tr_state t, tr_owner = tr_owner t\<rparr>"

definition split_cell :: "TrackedRange \<Rightarrow> PhysAddr \<Rightarrow> TrackedRange \<Rightarrow> PhysAddr \<Rightarrow> TrackedRange list" where
  "split_cell t te inner e =
     pieces (outer_cell t) (region_start (tr_region t))
       ((PhysAddr_as_u64 (region_start (tr_region inner)) - PhysAddr_as_u64 (region_start (tr_region t))) div FRAME_SIZE)
       inner e ((PhysAddr_as_u64 te - PhysAddr_as_u64 e) div FRAME_SIZE)"

lemma outer_cell_facts:
  assumes "tr_ok t" "unat (PhysAddr_as_u64 start) = 4096 * a" "unat n = b - a"
    "tr_lo t \<le> a" "a < b" "b \<le> tr_hi t"
  shows "tr_ok (outer_cell t start n)" "tr_lo (outer_cell t start n) = a"
    "tr_hi (outer_cell t start n) = b" "tr_tag (outer_cell t start n) = tr_tag t"
proof -
  show lo: "tr_lo (outer_cell t start n) = a" using assms(2) by (simp add: tr_lo_def outer_cell_def)
  then show "tr_hi (outer_cell t start n) = b"
    using assms by (simp add: tr_hi_def tr_pages_def outer_cell_def)
  show "tr_tag (outer_cell t start n) = tr_tag t" by (simp add: tr_tag_def outer_cell_def)
  have "4096 * a + unat n * 4096 < 2 ^ 64" using assms tr_hi_bound [OF assms(1)] by simp
  then show "tr_ok (outer_cell t start n)"
    using assms lo unfolding tr_ok_def region_ok_def
    by (auto simp: outer_cell_def tr_lo_def)
qed

lemma split_cell_facts:
  assumes t: "tr_ok t" "region_end (tr_region t) = Some te"
    and i: "tr_ok inner" "region_end (tr_region inner) = Some e"
    and sub: "tr_lo t \<le> tr_lo inner" "tr_hi inner \<le> tr_hi t"
  shows "\<forall>c\<in>set (split_cell t te inner e). tr_ok c \<and> tr_lo t \<le> tr_lo c \<and> tr_hi c \<le> tr_hi t"
    and "sorted_wrt (tr_sep H) (split_cell t te inner e)" "ordered tr_lo (split_cell t te inner e)"
    and "frames (split_cell t te inner e) k
       = (if k = tr_tag t then {tr_lo t..<tr_hi t} - {tr_lo inner..<tr_hi inner} else {})
         \<union> (if k = tr_tag inner then {tr_lo inner..<tr_hi inner} else {})"
    and "length (split_cell t te inner e)
       = 1 + (if tr_lo t < tr_lo inner then 1 else 0) + (if tr_hi inner < tr_hi t then 1 else 0)"
proof -
  let ?b = "(PhysAddr_as_u64 (region_start (tr_region inner)) - PhysAddr_as_u64 (region_start (tr_region t))) div FRAME_SIZE"
  let ?a = "(PhysAddr_as_u64 te - PhysAddr_as_u64 e) div FRAME_SIZE"
  note bytes = tr_lo_bytes [OF t(1)] tr_lo_bytes [OF i(1)] tr_end_bytes [OF t] tr_end_bytes [OF i]
  have b: "unat ?b = tr_lo inner - tr_lo t" using bytes sub by (intro word_page_diff)
  have a: "unat ?a = tr_hi t - tr_hi inner" using bytes sub by (intro word_page_diff)
  have inner: "tr_lo inner < tr_hi inner" using i(1) by (rule tracked.nonempty)
  have b0: "0 < ?b \<longleftrightarrow> tr_lo t < tr_lo inner" using b sub by (metis unat_gt_0 word_gt_0 zero_less_diff)
  have a0: "0 < ?a \<longleftrightarrow> tr_hi inner < tr_hi t" using a sub by (metis unat_gt_0 word_gt_0 zero_less_diff)
  have B: "tr_ok (outer_cell t (region_start (tr_region t)) ?b)"
    "tr_lo (outer_cell t (region_start (tr_region t)) ?b) = tr_lo t"
    "tr_hi (outer_cell t (region_start (tr_region t)) ?b) = tr_lo inner"
    "tr_tag (outer_cell t (region_start (tr_region t)) ?b) = tr_tag t"
    if "tr_lo t < tr_lo inner"
    using that inner sub by (intro outer_cell_facts [OF t(1) bytes(1) b]; simp)+
  have A: "tr_ok (outer_cell t e ?a)" "tr_lo (outer_cell t e ?a) = tr_hi inner"
    "tr_hi (outer_cell t e ?a) = tr_hi t" "tr_tag (outer_cell t e ?a) = tr_tag t"
    if "tr_hi inner < tr_hi t"
    using that inner sub by (intro outer_cell_facts [OF t(1) bytes(4) a]; simp)+
  have eq: "split_cell t te inner e
      = (if tr_lo t < tr_lo inner then [outer_cell t (region_start (tr_region t)) ?b] else [])
        @ inner # (if tr_hi inner < tr_hi t then [outer_cell t e ?a] else [])"
    unfolding split_cell_def pieces_def b0 a0 ..
  show "\<forall>c\<in>set (split_cell t te inner e). tr_ok c \<and> tr_lo t \<le> tr_lo c \<and> tr_hi c \<le> tr_hi t"
    unfolding eq using A B i(1) sub inner by auto
  show "sorted_wrt (tr_sep H) (split_cell t te inner e)"
    unfolding eq using A B sub inner by (auto simp: sep_disjoint)
  show "ordered tr_lo (split_cell t te inner e)"
    unfolding eq using A B sub inner by (auto simp: ordered_def)
  show "frames (split_cell t te inner e) k
       = (if k = tr_tag t then {tr_lo t..<tr_hi t} - {tr_lo inner..<tr_hi inner} else {})
         \<union> (if k = tr_tag inner then {tr_lo inner..<tr_hi inner} else {})"
    unfolding eq using A B sub inner by auto
  show "length (split_cell t te inner e)
       = 1 + (if tr_lo t < tr_lo inner then 1 else 0) + (if tr_hi inner < tr_hi t then 1 else 0)"
    unfolding eq by simp
qed

lemma overlap_free [simp]: "st \<noteq> State_Reserved \<Longrightarrow> overlap_ok {} (st, ow) k = {}"
  "st \<noteq> State_Reserved \<Longrightarrow> overlap_ok {} k (st, ow) = {}"
  by (auto simp: overlap_ok_def)

lemma split_table:
  assumes "table_ok {} (us @ t # vs)" "tr_state t \<noteq> State_Reserved"
    and "region_end (tr_region t) = Some te"
    and "tr_ok inner" "region_end (tr_region inner) = Some e"
    and "tr_lo t \<le> tr_lo inner" "tr_hi inner \<le> tr_hi t" "tr_tag inner \<noteq> tr_tag t"
  shows "table_ok {} (us @ split_cell t te inner e @ vs)"
    and "frames (us @ split_cell t te inner e @ vs) k
       = (if k = tr_tag t then frames (us @ t # vs) k - {tr_lo inner..<tr_hi inner}
          else if k = tr_tag inner then frames (us @ t # vs) k \<union> {tr_lo inner..<tr_hi inner}
          else frames (us @ t # vs) k)"
proof -
  have t: "tr_ok t" using assms(1) by (simp add: table_ok_def)
  note sc = split_cell_facts [OF t assms(3,4,5,6,7)]
  have W: "overlap_ok {} k (tr_tag t) = {}" "overlap_ok {} (tr_tag t) k = {}" for k
    using assms(2) by (simp_all add: tr_tag_def)
  have "sorted_wrt (tr_sep {}) (us @ split_cell t te inner e @ vs)"
    by (rule tracked.split_sep [where us = us and t = t and vs = vs, OF _ sc(2)])
      (use assms(1) W sc(1) in \<open>auto simp: table_ok_def\<close>)
  with assms(1) sc(1) show "table_ok {} (us @ split_cell t te inner e @ vs)"
    by (auto simp: table_ok_def)
  have far: "p \<notin> frames us (tr_tag t)" "p \<notin> frames vs (tr_tag t)" if "tr_lo t \<le> p" "p < tr_hi t" for p
  proof -
    have "\<not> (tr_lo x \<le> p \<and> p < tr_hi x)" if "x \<in> set us \<union> set vs" for x
    proof -
      have "tr_sep {} x t \<or> tr_sep {} t x" using assms(1) that by (auto simp: table_ok_def sorted_wrt_append)
      with \<open>tr_lo t \<le> p\<close> \<open>p < tr_hi t\<close> W show ?thesis unfolding sep_def by (metis empty_iff)
    qed
    then show "p \<notin> frames us (tr_tag t)" "p \<notin> frames vs (tr_tag t)" by (auto simp: in_cover_iff)
  qed
  show "frames (us @ split_cell t te inner e @ vs) k
       = (if k = tr_tag t then frames (us @ t # vs) k - {tr_lo inner..<tr_hi inner}
          else if k = tr_tag inner then frames (us @ t # vs) k \<union> {tr_lo inner..<tr_hi inner}
          else frames (us @ t # vs) k)"
    using far assms(6,7,8) by (auto simp: sc(4))
qed

section \<open>Marking a range\<close>

definition fits :: "(TrackedRange \<Rightarrow> bool) \<Rightarrow> TrackedRange \<Rightarrow> TrackedRange \<Rightarrow> bool" where
  "fits sel inner t \<longleftrightarrow> sel t \<and> tr_lo t \<le> tr_lo inner \<and> tr_hi inner \<le> tr_hi t"

lemma contained_bytes_iff:
  assumes "tr_ok t" "region_end (tr_region t) = Some te"
    and "region_ok (tr_region inner)" "region_end (tr_region inner) = Some e"
  shows "PhysAddr_as_u64 (region_start (tr_region inner)) < PhysAddr_as_u64 (region_start (tr_region t))
      \<or> PhysAddr_as_u64 te < PhysAddr_as_u64 e
     \<longleftrightarrow> \<not> (tr_lo t \<le> tr_lo inner \<and> tr_hi inner \<le> tr_hi t)"
  using tr_lo_bytes [OF assms(1)] region_lo_bytes [OF assms(3)] tr_end_bytes [OF assms(1,2)]
    region_end_bytes [OF assms(3,4)]
  by (auto simp: word_less_nat_alt)

abbreviation end_of :: "TrackedRange \<Rightarrow> PhysAddr" where
  "end_of t \<equiv> the (region_end (tr_region t))"

lemma end_of: "tr_ok t \<Longrightarrow> region_end (tr_region t) = Some (end_of t)"
  by (metis tr_end_Some option.sel)

lemma mark_used_loop_eq:
  assumes "repr s xs" "\<forall>t\<in>set xs. tr_ok t" "index \<le> length xs"
    and "inner = \<lparr>tr_region = r, tr_state = State_Used, tr_owner = ow\<rparr>" "region_ok r"
    and "region_end r = Some e"
  shows "mark_range_used_loop s r e ow index
     = (case find_index (fits (\<lambda>t. tr_state t = State_Free) inner) (drop index xs) of
          None \<Rightarrow> Done (s, False)
        | Some i \<Rightarrow> map_run (\<lambda>s. (s, True))
            (mark_range_used_at s (index + i) (xs ! (index + i)) (end_of (xs ! (index + i))) r e ow))"
  using assms(3)
proof (induction "length xs - index" arbitrary: index)
  case 0
  then show ?case using repr_count [OF assms(1)] by (subst mark_range_used_loop.simps) simp
next
  case (Suc k)
  then have i: "index < length xs" by simp
  then have ok: "tr_ok (xs ! index)" using assms(2) by simp
  have cont: "PhysAddr_as_u64 (region_start r) < PhysAddr_as_u64 (region_start (tr_region (xs ! index)))
      \<or> PhysAddr_as_u64 (end_of (xs ! index)) < PhysAddr_as_u64 e
     \<longleftrightarrow> \<not> (tr_lo (xs ! index) \<le> tr_lo inner \<and> tr_hi inner \<le> tr_hi (xs ! index))"
    using contained_bytes_iff [OF ok end_of [OF ok], of inner e] assms(4-6) by simp
  have IH: "mark_range_used_loop s r e ow (Suc index)
     = (case find_index (fits (\<lambda>t. tr_state t = State_Free) inner) (drop (Suc index) xs) of
          None \<Rightarrow> Done (s, False)
        | Some i \<Rightarrow> map_run (\<lambda>s. (s, True))
            (mark_range_used_at s (Suc index + i) (xs ! (Suc index + i)) (end_of (xs ! (Suc index + i))) r e ow))"
    using Suc by simp
  show ?case
    using i repr_get [OF assms(1) i] repr_count [OF assms(1)] end_of [OF ok] cont IH
    by (subst mark_range_used_loop.simps)
      (auto simp: find_index_drop fits_def split: option.splits)
qed

lemma mark_free_loop_eq:
  assumes "repr s xs" "\<forall>t\<in>set xs. tr_ok t" "index \<le> length xs"
    and "inner = \<lparr>tr_region = r, tr_state = State_Free, tr_owner = Owner_Free\<rparr>" "region_ok r"
    and "region_end r = Some e"
  shows "mark_range_free_loop s r e ow index
     = (case find_index (fits (\<lambda>t. tr_tag t = (State_Used, ow)) inner) (drop index xs) of
          None \<Rightarrow> Done (s, False)
        | Some i \<Rightarrow> map_run (\<lambda>s. (s, True))
            (mark_range_free_at s (index + i) (xs ! (index + i)) (end_of (xs ! (index + i))) r e ow))"
  using assms(3)
proof (induction "length xs - index" arbitrary: index)
  case 0
  then show ?case using repr_count [OF assms(1)] by (subst mark_range_free_loop.simps) simp
next
  case (Suc k)
  then have i: "index < length xs" by simp
  then have ok: "tr_ok (xs ! index)" using assms(2) by simp
  have cont: "PhysAddr_as_u64 (region_start r) < PhysAddr_as_u64 (region_start (tr_region (xs ! index)))
      \<or> PhysAddr_as_u64 (end_of (xs ! index)) < PhysAddr_as_u64 e
     \<longleftrightarrow> \<not> (tr_lo (xs ! index) \<le> tr_lo inner \<and> tr_hi inner \<le> tr_hi (xs ! index))"
    using contained_bytes_iff [OF ok end_of [OF ok], of inner e] assms(4-6) by simp
  have IH: "mark_range_free_loop s r e ow (Suc index)
     = (case find_index (fits (\<lambda>t. tr_tag t = (State_Used, ow)) inner) (drop (Suc index) xs) of
          None \<Rightarrow> Done (s, False)
        | Some i \<Rightarrow> map_run (\<lambda>s. (s, True))
            (mark_range_free_at s (Suc index + i) (xs ! (Suc index + i)) (end_of (xs ! (Suc index + i))) r e ow))"
    using Suc by simp
  show ?case
    using i repr_get [OF assms(1) i] repr_count [OF assms(1)] end_of [OF ok] cont IH
    by (subst mark_range_free_loop.simps)
      (auto simp: find_index_drop fits_def tr_tag_def split: option.splits)
qed

definition replace_cell :: "TrackedRange list \<Rightarrow> nat \<Rightarrow> TrackedRange \<Rightarrow> TrackedRange list" where
  "replace_cell xs i inner =
     coalesce tracked_adj tracked_join
       (take i xs @ split_cell (xs ! i) (end_of (xs ! i)) inner (end_of inner) @ drop (Suc i) xs)"

lemma runs_mark_used_at:
  assumes "repr s xs" "i < length xs" "tr_state (xs ! i) = State_Free" "tr_ok (xs ! i)"
    and "length xs + length (split_cell (xs ! i) te
           \<lparr>tr_region = r, tr_state = State_Used, tr_owner = ow\<rparr> e) \<le> Suc MAX_TRACKED_RANGES"
  shows "runs (mark_range_used_at s i (xs ! i) te r e ow) (\<lambda>s'. repr s'
     (coalesce tracked_adj tracked_join (take i xs
        @ split_cell (xs ! i) te \<lparr>tr_region = r, tr_state = State_Used, tr_owner = ow\<rparr> e @ drop (Suc i) xs)))"
proof -
  have "outer_cell (xs ! i) = free_range"
    using assms(3,4) by (simp add: fun_eq_iff outer_cell_def free_range_def tr_ok_def)
  then show ?thesis
    using runs_split [OF assms(1,2) assms(5) [unfolded split_cell_def]]
    unfolding mark_range_used_at_def Let_def split_cell_def by (simp only: TrackedRange.simps)
qed

lemma runs_mark_free_at:
  assumes "repr s xs" "i < length xs" "tr_tag (xs ! i) = (State_Used, ow)"
    and "length xs + length (split_cell (xs ! i) te
           \<lparr>tr_region = r, tr_state = State_Free, tr_owner = Owner_Free\<rparr> e) \<le> Suc MAX_TRACKED_RANGES"
  shows "runs (mark_range_free_at s i (xs ! i) te r e ow) (\<lambda>s'. repr s'
     (coalesce tracked_adj tracked_join (take i xs
        @ split_cell (xs ! i) te \<lparr>tr_region = r, tr_state = State_Free, tr_owner = Owner_Free\<rparr> e
        @ drop (Suc i) xs)))"
proof -
  have "outer_cell (xs ! i) = (\<lambda>start pages. \<lparr>tr_region = \<lparr>region_start = start, region_pages = pages\<rparr>,
             tr_state = State_Used, tr_owner = ow\<rparr>)"
    using assms(3) by (simp add: fun_eq_iff outer_cell_def tr_tag_def)
  then show ?thesis
    using runs_split [OF assms(1,2) assms(4) [unfolded split_cell_def]]
    unfolding mark_range_free_at_def Let_def split_cell_def by (simp only: TrackedRange.simps)
qed

lemma replace_cell_table:
  assumes "table_ok {} xs" "i < length xs" "tr_state (xs ! i) \<noteq> State_Reserved" "tr_ok inner"
    and "tr_lo (xs ! i) \<le> tr_lo inner" "tr_hi inner \<le> tr_hi (xs ! i)" "tr_tag inner \<noteq> tr_tag (xs ! i)"
  shows "table_ok {} (replace_cell xs i inner)"
    and "frames (replace_cell xs i inner) k
       = (if k = tr_tag (xs ! i) then frames xs k - {tr_lo inner..<tr_hi inner}
          else if k = tr_tag inner then frames xs k \<union> {tr_lo inner..<tr_hi inner}
          else frames xs k)"
    and "ordered tr_lo xs \<Longrightarrow> canon (replace_cell xs i inner)"
proof -
  let ?us = "take i xs" and ?t = "xs ! i" and ?vs = "drop (Suc i) xs"
  have xs: "?us @ ?t # ?vs = xs" using assms(2) by (rule id_take_nth_drop [symmetric])
  have ok: "tr_ok ?t" using assms(1,2) by (simp add: table_ok_def)
  note st = split_table [of ?us ?t ?vs, unfolded xs,
      OF assms(1,3) end_of [OF ok] assms(4) end_of [OF assms(4)] assms(5-7)]
  show "table_ok {} (replace_cell xs i inner)"
    using coalesce_table [OF st(1)] by (simp add: replace_cell_def)
  show "frames (replace_cell xs i inner) k
       = (if k = tr_tag ?t then frames xs k - {tr_lo inner..<tr_hi inner}
          else if k = tr_tag inner then frames xs k \<union> {tr_lo inner..<tr_hi inner}
          else frames xs k)"
    unfolding replace_cell_def coalesce_table(2) [OF st(1)] by (rule st(2))
  assume ord: "ordered tr_lo xs"
  note sc = split_cell_facts [OF ok end_of [OF ok] assms(4) end_of [OF assms(4)] assms(5,6)]
  have nxt: "tr_hi ?t \<le> tr_lo x" if "x \<in> set ?vs" for x
  proof -
    have "sorted_wrt (tr_sep {}) (?us @ ?t # ?vs)" "ordered tr_lo (?us @ ?t # ?vs)" "\<forall>t\<in>set (?us @ ?t # ?vs). tr_ok t"
      unfolding xs using assms(1) ord by (simp_all add: table_ok_def)
    then have "tr_sep {} ?t x" "tr_lo ?t \<le> tr_lo x" "tr_ok x"
      using that by (auto simp: ordered_def sorted_wrt_append)
    then show ?thesis using assms(3) by (intro tracked.sep_hi_le [of "overlap_ok {}"]) (simp_all add: tr_tag_def)
  qed
  have "ordered tr_lo (?us @ split_cell ?t (end_of ?t) inner (end_of inner) @ ?vs)"
  proof (rule tracked.split_ordered [of _ ?t])
    show "ordered tr_lo (?us @ ?t # ?vs)" unfolding xs by (rule ord)
    have "tr_lo c < tr_hi ?t" if "c \<in> set (split_cell ?t (end_of ?t) inner (end_of inner))" for c
      using sc(1) that tracked.nonempty [of c] by fastforce
    with sc(1) nxt show "\<forall>c\<in>set (split_cell ?t (end_of ?t) inner (end_of inner)).
        tr_lo ?t \<le> tr_lo c \<and> (\<forall>x\<in>set ?vs. tr_lo c \<le> tr_lo x)"
      by (meson less_imp_le order_trans)
  qed (rule sc(3))
  with st(1) show "canon (replace_cell xs i inner)"
    unfolding replace_cell_def by (rule coalesce_canon)
qed

section \<open>Allocation\<close>

definition wants :: "nat \<Rightarrow> TrackedRange \<Rightarrow> bool" where
  "wants n t \<longleftrightarrow> tr_state t = State_Free \<and> n \<le> tr_pages t"

definition used_cell :: "TrackedRange \<Rightarrow> FrameCount \<Rightarrow> FrameRangeOwner \<Rightarrow> TrackedRange" where
  "used_cell t fc ow =
     \<lparr>tr_region = \<lparr>region_start = region_start (tr_region t), region_pages = FrameCount_as_u64 fc\<rparr>,
      tr_state = State_Used, tr_owner = ow\<rparr>"

abbreviation count_nat :: "FrameCount \<Rightarrow> nat" where
  "count_nat fc \<equiv> unat (FrameCount_as_u64 fc)"

lemma used_cell_facts:
  assumes "tr_ok t" "wants (count_nat fc) t" "frame_count_ok fc" "ow \<noteq> Owner_Free"
  shows "tr_ok (used_cell t fc ow)" "tr_lo (used_cell t fc ow) = tr_lo t"
    "tr_hi (used_cell t fc ow) = tr_lo t + count_nat fc" "tr_hi (used_cell t fc ow) \<le> tr_hi t"
    "tr_tag (used_cell t fc ow) = (State_Used, ow)"
proof -
  show lo: "tr_lo (used_cell t fc ow) = tr_lo t" by (simp add: tr_lo_def used_cell_def)
  then show hi: "tr_hi (used_cell t fc ow) = tr_lo t + count_nat fc"
    by (simp add: tr_hi_def tr_pages_def used_cell_def)
  with assms(2) show "tr_hi (used_cell t fc ow) \<le> tr_hi t" by (simp add: wants_def tr_hi_def)
  show "tr_tag (used_cell t fc ow) = (State_Used, ow)" by (simp add: tr_tag_def used_cell_def)
  have "0 < count_nat fc" using assms(3) by (simp add: frame_count_ok_def unat_gt_0)
  with assms show "tr_ok (used_cell t fc ow)"
    by (auto simp: tr_ok_def region_ok_def used_cell_def wants_def tr_pages_def tr_lo_def)
qed

lemma free_cell_unique:
  assumes "table_ok {} xs" "i < length xs" "j < length xs"
    and "tr_state (xs ! i) \<noteq> State_Reserved"
    and "tr_lo (xs ! i) \<le> p" "p < tr_hi (xs ! i)" "tr_lo (xs ! j) \<le> p" "p < tr_hi (xs ! j)"
  shows "i = j"
proof (rule ccontr)
  assume "i \<noteq> j"
  then have "tr_sep {} (xs ! i) (xs ! j) \<or> tr_sep {} (xs ! j) (xs ! i)"
    using assms(1-3) by (metis linorder_neqE_nat sorted_wrt_iff_nth_less table_ok_def)
  moreover have "overlap_ok {} k (tr_tag (xs ! i)) = {}" "overlap_ok {} (tr_tag (xs ! i)) k = {}" for k
    using assms(4) by (simp_all add: tr_tag_def)
  ultimately show False using assms(5-8) unfolding sep_def by (metis empty_iff)
qed

lemma mark_used_candidate:
  assumes "repr s xs" "table_ok {} xs" "i < length xs" "wants (count_nat fc) (xs ! i)"
    and "frame_count_ok fc" "ow \<noteq> Owner_Free" "length xs < MAX_TRACKED_RANGES"
  shows "runs (mark_range_used s \<lparr>region_start = region_start (tr_region (xs ! i)),
        region_pages = FrameCount_as_u64 fc\<rparr> ow)
     (\<lambda>(s', marked). marked \<and> repr s' (replace_cell xs i (used_cell (xs ! i) fc ow)))"
proof -
  let ?r = "\<lparr>region_start = region_start (tr_region (xs ! i)), region_pages = FrameCount_as_u64 fc\<rparr>"
  let ?u = "used_cell (xs ! i) fc ow"
  have oks: "\<forall>t\<in>set xs. tr_ok t" and ok: "tr_ok (xs ! i)" using assms(2,3) by (auto simp: table_ok_def)
  note uf = used_cell_facts [OF ok assms(4-6)]
  have reg: "tr_region ?u = ?r" "?u = \<lparr>tr_region = ?r, tr_state = State_Used, tr_owner = ow\<rparr>"
    by (simp_all add: used_cell_def)
  have e: "region_end ?r = Some (end_of ?u)" using end_of [OF uf(1)] by (simp add: reg)
  have rok: "region_ok ?r" using tr_ok_region [OF uf(1)] by (simp add: reg(1))
  have st: "tr_state (xs ! i) = State_Free" using assms(4) by (simp add: wants_def)
  have "find_index (fits (\<lambda>t. tr_state t = State_Free) ?u) xs = Some i"
    unfolding find_index_Some_iff
  proof (intro conjI allI impI notI)
    show "fits (\<lambda>t. tr_state t = State_Free) ?u (xs ! i)" using st uf by (simp add: fits_def)
    fix j assume j: "j < i" "fits (\<lambda>t. tr_state t = State_Free) ?u (xs ! j)"
    have "tr_lo ?u < tr_hi ?u" using uf(1) by (rule tracked.nonempty)
    with j uf assms(2,3) st have "i = j"
      by (intro free_cell_unique [of xs i j "tr_lo ?u"]) (auto simp: fits_def)
    with j show False by simp
  qed (use assms in auto)
  then have loop: "mark_range_used s ?r ow
      = map_run (\<lambda>s. (s, True)) (mark_range_used_at s i (xs ! i) (end_of (xs ! i)) ?r (end_of ?u) ow)"
    using mark_used_loop_eq [OF assms(1) oks _ reg(2) rok e, of 0] by (simp add: mark_range_used_def e)
  have "length (split_cell (xs ! i) (end_of (xs ! i)) ?u (end_of ?u)) \<le> 2"
    using split_cell_facts(5) [OF ok end_of [OF ok] uf(1) end_of [OF uf(1)]] uf by simp
  with assms(7) have "runs (mark_range_used_at s i (xs ! i) (end_of (xs ! i)) ?r (end_of ?u) ow)
      (\<lambda>s'. repr s' (replace_cell xs i ?u))"
    unfolding replace_cell_def reg(2) by (intro runs_mark_used_at assms(1,3) st ok) simp
  then show ?thesis unfolding loop by simp
qed

lemma allocate_loop_spec:
  assumes "repr s xs" "table_ok {} xs" "frame_count_ok fc" "ow \<noteq> Owner_Free"
    and "length xs < MAX_TRACKED_RANGES" "index \<le> length xs"
  shows "case find_index (wants (count_nat fc)) (drop index xs) of
      None \<Rightarrow> allocate_frames_loop s fc ow (length xs) index = Done (s, None)
    | Some j \<Rightarrow> runs (allocate_frames_loop s fc ow (length xs) index) (\<lambda>(s', r).
        repr s' (replace_cell xs (index + j) (used_cell (xs ! (index + j)) fc ow))
        \<and> r = Some \<lparr>pfr_start = PhysicalFrameStart (region_start (tr_region (xs ! (index + j)))),
                   pfr_frame_count = fc\<rparr>)"
  using assms(6)
proof (induction "length xs - index" arbitrary: index)
  case 0
  then show ?case by (subst allocate_frames_loop.simps) simp
next
  case (Suc k)
  then have i: "index < length xs" by simp
  let ?t = "xs ! index"
  have ok: "tr_ok ?t" using assms(2) i by (simp add: table_ok_def)
  have w: "\<not> wants (count_nat fc) ?t \<longleftrightarrow>
      tr_state ?t \<noteq> State_Free \<or> region_pages (tr_region ?t) < FrameCount_as_u64 fc"
    by (auto simp: wants_def tr_pages_def word_less_nat_alt)
  show ?case
  proof (cases "wants (count_nat fc) ?t")
    case False
    then have "allocate_frames_loop s fc ow (length xs) index
        = allocate_frames_loop s fc ow (length xs) (Suc index)"
      using i repr_get [OF assms(1) i] w by (subst allocate_frames_loop.simps) simp
    moreover have "k = length xs - Suc index" "Suc index \<le> length xs" using Suc(2) i by simp_all
    ultimately show ?thesis
      using False i Suc(1) [of "Suc index"]
      by (cases "find_index (wants (count_nat fc)) (drop (Suc index) xs)") (simp_all add: find_index_drop)
  next
    case True
    note uf = used_cell_facts [OF ok True assms(3,4)]
    have "frame_start_ok (PhysicalFrameStart (region_start (tr_region ?t)))"
      using ok by (simp add: frame_start_ok_def PhysicalFrameStart_as_u64_def tr_ok_def region_ok_def)
    then have new: "PhysicalFrameStart_new (region_start (tr_region ?t))
        = Some (PhysicalFrameStart (region_start (tr_region ?t)))"
      by (simp add: PhysicalFrameStart_new_def frame_start_ok_def PhysicalFrameStart_as_u64_def is_multiple_of_page)
    have "4096 * tr_hi (used_cell ?t fc ow) < 2 ^ 64" using uf(1) by (rule tr_hi_bound)
    then have "checked_add (PhysAddr_as_u64 (region_start (tr_region ?t))) (FrameCount_byte_len fc) \<noteq> None"
      using tr_lo_bytes [OF ok] uf(3) FrameCount_byte_len_unat [OF assms(3)]
      by (simp add: checked_iffs del: not_None_eq)
    then have "PhysicalFrameRange_new (PhysicalFrameStart (region_start (tr_region ?t))) fc
        = Some \<lparr>pfr_start = PhysicalFrameStart (region_start (tr_region ?t)), pfr_frame_count = fc\<rparr>"
      by (auto simp: PhysicalFrameRange_new_def PhysicalFrameStart_as_u64_def split: option.splits)
    then show ?thesis
      using True i repr_get [OF assms(1) i] w new
        mark_used_candidate [OF assms(1,2) i True assms(3-5)]
      by (subst (2) allocate_frames_loop.simps)
        (auto simp: find_index_drop Let_def intro: runs_conseq split: option.splits)
  qed
qed

text \<open>The effect of moving the frames \<open>F\<close> from one state and owner to another.\<close>

definition moved ::
    "nat set \<Rightarrow> FrameRangeState \<times> FrameRangeOwner \<Rightarrow> FrameRangeState \<times> FrameRangeOwner
       \<Rightarrow> PhysicalFrameAllocator \<Rightarrow> PhysicalFrameAllocator \<Rightarrow> bool" where
  "moved F src dst s s' \<longleftrightarrow>
     (\<forall>st ow. fa_frames s' st ow =
        (if (st, ow) = src then fa_frames s st ow - F
         else if (st, ow) = dst then fa_frames s st ow \<union> F
         else fa_frames s st ow))"

definition range_frames :: "PhysicalFrameRange \<Rightarrow> nat set" where
  "range_frames rng =
     (let f = unat (PhysicalFrameStart_as_u64 (pfr_start rng)) div 4096
      in {f..<f + count_nat (pfr_frame_count rng)})"

definition frame_range_ok :: "PhysicalFrameRange \<Rightarrow> bool" where
  "frame_range_ok rng \<longleftrightarrow> frame_start_ok (pfr_start rng) \<and> frame_count_ok (pfr_frame_count rng)
     \<and> unat (PhysicalFrameStart_as_u64 (pfr_start rng)) + 4096 * count_nat (pfr_frame_count rng) < 2 ^ 64"

lemma run_in_cell:
  assumes "canon xs" "st \<noteq> State_Reserved" "g < h" "{g..<h} \<subseteq> frames xs (st, ow)"
  obtains i where "i < length xs" "tr_tag (xs ! i) = (st, ow)" "tr_lo (xs ! i) \<le> g" "h \<le> tr_hi (xs ! i)"
proof -
  have "\<exists>c\<in>set xs. tr_tag c = (st, ow) \<and> tr_lo c \<le> g \<and> h \<le> tr_hi c"
    using assms by (intro tracked.run_in_one_cell [of xs "overlap_ok {}"])
      (auto simp: canon_def table_ok_def)
  then show thesis using that by (auto simp: in_set_conv_nth)
qed

end
