(* ===== verification/Frame_Allocator_Spec.thy ===== *)
theory Frame_Allocator_Spec
  imports Frame_Allocator_Proofs
begin

text \<open>
  What the public operations of the frame allocator do to the abstract value: allocation,
  release, registering free memory and reserving memory, each with the invariant and with
  the canonical form of the table.
\<close>

text \<open>
  What a successful allocation does: the range is page aligned, avoids frame zero, consists
  of free frames only, and exactly these frames change state.
\<close>

definition allocated ::
    "PhysicalFrameAllocator \<Rightarrow> FrameCount \<Rightarrow> FrameRangeOwner \<Rightarrow> PhysicalFrameRange
       \<Rightarrow> PhysicalFrameAllocator \<Rightarrow> bool" where
  "allocated s fc ow rng s' \<longleftrightarrow>
     frame_range_ok rng \<and> pfr_frame_count rng = fc \<and> 0 \<notin> range_frames rng
     \<and> range_frames rng \<subseteq> free_frames s
     \<and> moved (range_frames rng) (State_Free, Owner_Free) (State_Used, ow) s s'"

text \<open>Every run of free frames of length \<open>n\<close> starts at or above \<open>f\<close>.\<close>

definition runs_from :: "PhysicalFrameAllocator \<Rightarrow> nat \<Rightarrow> nat \<Rightarrow> bool" where
  "runs_from s n f \<longleftrightarrow> (\<forall>g. {g..<g + n} \<subseteq> free_frames s \<longrightarrow> f \<le> g)"

abbreviation range_first :: "PhysicalFrameRange \<Rightarrow> nat" where
  "range_first rng \<equiv> unat (PhysicalFrameStart_as_u64 (pfr_start rng)) div 4096"

lemma replace_used_length:
  assumes "i < length xs"
  shows "length (replace_cell xs i (used_cell (xs ! i) fc ow)) \<le> Suc (length xs)"
  unfolding replace_cell_def
  by (rule order_trans [OF length_coalesce]) (use assms in \<open>simp add: split_cell_def pieces_def used_cell_def\<close>)

lemma allocate_runs:
  assumes "fa_inv s" "frame_count_ok fc" "ow \<noteq> Owner_Free" "tracked_count s < MAX_TRACKED_RANGES"
  shows "runs (allocate_frames_for s fc ow) (\<lambda>(s', r). fa_inv s' \<and> (fa_canon s \<longrightarrow> fa_canon s')
     \<and> tracked_count s' \<le> Suc (tracked_count s) \<and>
     (case r of
        None \<Rightarrow> s' = s \<and> (fa_canon s \<longrightarrow> (\<forall>g. \<not> {g..<g + count_nat fc} \<subseteq> free_frames s))
      | Some rng \<Rightarrow> allocated s fc ow rng s' \<and> (fa_canon s \<longrightarrow> runs_from s (count_nat fc) (range_first rng))))"
proof -
  let ?n = "count_nat fc" and ?xs = "live s"
  have repr: "repr s ?xs" and ok: "table_ok {} ?xs"
    using assms(1) by (auto simp: fa_inv_def)
  have len: "tracked_count s = length ?xs" using repr by (rule repr_count)
  have n: "0 < ?n" using assms(2) by (simp add: frame_count_ok_def unat_gt_0)
  have alloc: "allocate_frames_for s fc ow = allocate_frames_loop s fc ow (length ?xs) 0"
    using assms(3) len by (simp add: allocate_frames_for_def)
  have big: "\<exists>i<length ?xs. wants ?n (?xs ! i) \<and> tr_lo (?xs ! i) \<le> g"
    if can: "fa_canon s" and run: "{g..<g + ?n} \<subseteq> free_frames s" for g
  proof -
    have "g < g + ?n" "canon ?xs" using n can by (simp_all add: fa_canon_def)
    from run_in_cell [OF this(2) _ this(1) run [unfolded fa_frames_def]]
    obtain i where i: "i < length ?xs" "tr_tag (?xs ! i) = (State_Free, Owner_Free)"
      "tr_lo (?xs ! i) \<le> g" "g + ?n \<le> tr_hi (?xs ! i)" by auto
    then have "wants ?n (?xs ! i)" by (simp add: wants_def tr_tag_def tr_hi_def)
    with i show ?thesis by blast
  qed
  note spec = allocate_loop_spec [OF repr ok assms(2,3) assms(4) [unfolded len], of 0, simplified]
  show ?thesis
  proof (cases "find_index (wants ?n) ?xs")
    case None
    with big have "fa_canon s \<longrightarrow> (\<forall>g. \<not> {g..<g + ?n} \<subseteq> free_frames s)"
      by (metis find_index_None_iff nth_mem)
    with None spec assms(1) show ?thesis by (simp add: alloc)
  next
    case (Some j)
    let ?t = "?xs ! j" and ?u = "used_cell (?xs ! j) fc ow"
    have j: "j < length ?xs" "wants ?n ?t" "\<forall>i<j. \<not> wants ?n (?xs ! i)"
      using find_index_SomeD [OF Some] by auto
    then have okt: "tr_ok ?t" and st: "tr_state ?t = State_Free" "tr_tag ?t = (State_Free, Owner_Free)"
      using ok by (auto simp: table_ok_def wants_def tr_tag_def tr_ok_def)
    note uf = used_cell_facts [OF okt j(2) assms(2,3)]
    let ?rng = "\<lparr>pfr_start = PhysicalFrameStart (region_start (tr_region ?t)), pfr_frame_count = fc\<rparr>"
    have F: "range_frames ?rng = {tr_lo ?u..<tr_hi ?u}"
      unfolding uf(2,3) by (simp add: range_frames_def PhysicalFrameStart_as_u64_def tr_lo_def Let_def)
    have "tr_state ?t \<noteq> State_Reserved" "tr_lo ?t \<le> tr_lo ?u" "tr_hi ?u \<le> tr_hi ?t" "tr_tag ?u \<noteq> tr_tag ?t"
      using st uf by simp_all
    note rep = replace_cell_table [OF ok j(1) this(1) uf(1) this(2-4)]
    have mv: "moved (range_frames ?rng) (State_Free, Owner_Free) (State_Used, ow) s s'"
      if "repr s' (replace_cell ?xs j ?u)" for s'
      using rep(2) uf(5) st(2) repr_live [OF that] by (simp add: moved_def fa_frames_def F)
    have "{tr_lo ?u..<tr_hi ?u} \<subseteq> {tr_lo ?t..<tr_hi ?t}" using uf by auto
    also have "\<dots> \<subseteq> free_frames s"
      unfolding fa_frames_def using j(1) st(2) by (intro cover_subset) auto
    finally have sub: "range_frames ?rng \<subseteq> free_frames s" by (simp add: F)
    have nz: "0 \<notin> range_frames ?rng" using okt st uf by (auto simp: F tr_ok_def)
    have least: "runs_from s ?n (range_first ?rng)" if can: "fa_canon s"
      unfolding runs_from_def
    proof (intro allI impI)
      fix g assume run: "{g..<g + ?n} \<subseteq> free_frames s"
      obtain i where i: "i < length ?xs" "wants ?n (?xs ! i)" "tr_lo (?xs ! i) \<le> g"
        using big [OF can run] by auto
      with j(3) have "j \<le> i" by (meson not_less)
      then have "tr_lo ?t \<le> tr_lo (?xs ! i)"
        using can i by (cases "i = j") (auto simp: fa_canon_def canon_def ordered_def sorted_wrt_iff_nth_less)
      with i show "range_first ?rng \<le> g" by (simp add: PhysicalFrameStart_as_u64_def tr_lo_def)
    qed
    have rok: "frame_range_ok ?rng"
      using okt assms(2) uf(3) tr_hi_bound [OF uf(1)] tr_lo_bytes [OF okt]
      by (simp add: frame_range_ok_def frame_start_ok_def PhysicalFrameStart_as_u64_def tr_ok_def
          region_ok_def)
    have "fa_canon s \<Longrightarrow> canon (replace_cell ?xs j ?u)"
      by (intro rep(3)) (simp add: fa_canon_def canon_def)
    moreover have "runs (allocate_frames_for s fc ow) (\<lambda>(s', r). repr s' (replace_cell ?xs j ?u) \<and> r = Some ?rng)"
      using Some spec by (simp add: alloc)
    moreover have "tracked_count s' \<le> Suc (tracked_count s)" if "repr s' (replace_cell ?xs j ?u)" for s'
      using replace_used_length [OF j(1)] repr_count [OF that] len by simp
    ultimately show ?thesis
      using rok nz sub mv least fa_invI [OF _ rep(1)] fa_canonI
      by (elim runs_conseq) (auto simp: allocated_def)
  qed
qed

section \<open>Release\<close>

definition released_cell :: "PhysicalFrameRange \<Rightarrow> TrackedRange" where
  "released_cell rng =
     \<lparr>tr_region = \<lparr>region_start = PhysicalFrameStart_as_address (pfr_start rng),
                   region_pages = FrameCount_as_u64 (pfr_frame_count rng)\<rparr>,
      tr_state = State_Free, tr_owner = Owner_Free\<rparr>"

lemma released_cell_facts:
  assumes "frame_range_ok rng"
  shows "region_ok (tr_region (released_cell rng))"
    and "{tr_lo (released_cell rng)..<tr_hi (released_cell rng)} = range_frames rng"
    and "tr_lo (released_cell rng) < tr_hi (released_cell rng)"
    and "0 < tr_lo (released_cell rng) \<Longrightarrow> tr_ok (released_cell rng)"
  using assms
  by (auto simp: frame_range_ok_def frame_start_ok_def frame_count_ok_def released_cell_def region_ok_def
      tr_lo_def tr_hi_def tr_pages_def range_frames_def PhysicalFrameStart_as_u64_def tr_ok_def Let_def unat_gt_0)

lemma length_pieces: "length (pieces outer start before inner inner_end after) \<le> 3"
  by (simp add: pieces_def)

lemma replace_length:
  assumes "i < length xs"
  shows "length (replace_cell xs i c) \<le> length xs + 2"
proof -
  have "length (split_cell (xs ! i) (end_of (xs ! i)) c (end_of c)) \<le> 3"
    unfolding split_cell_def by (rule length_pieces)
  with assms show ?thesis
    unfolding replace_cell_def by (intro order_trans [OF length_coalesce]) simp
qed

lemma free_runs:
  assumes "fa_inv s" "frame_range_ok rng" "ow \<noteq> Owner_Free" "tracked_count s + 2 \<le> MAX_TRACKED_RANGES"
  shows "runs (free_frames_for s rng ow) (\<lambda>(s', released). fa_inv s' \<and> (fa_canon s \<longrightarrow> fa_canon s')
     \<and> tracked_count s' \<le> tracked_count s + 2
     \<and> (released \<longrightarrow> range_frames rng \<subseteq> fa_frames s State_Used ow)
     \<and> (fa_canon s \<longrightarrow> range_frames rng \<subseteq> fa_frames s State_Used ow \<longrightarrow> released)
     \<and> (if released then moved (range_frames rng) (State_Used, ow) (State_Free, Owner_Free) s s' else s' = s))"
proof -
  let ?xs = "live s" and ?c = "released_cell rng"
  let ?r = "tr_region ?c"
  have repr: "repr s ?xs" and ok: "table_ok {} ?xs"
    using assms(1) by (auto simp: fa_inv_def)
  have len: "tracked_count s = length ?xs" using repr by (rule repr_count)
  note cf = released_cell_facts [OF assms(2)]
  obtain e where e: "region_end ?r = Some e" using region_end_ok [OF cf(1)] by blast
  have ceq: "?c = \<lparr>tr_region = ?r, tr_state = State_Free, tr_owner = Owner_Free\<rparr>"
    by (simp add: released_cell_def)
  have free: "free_frames_for s rng ow = mark_range_free_loop s ?r e ow 0"
    using assms(3) e by (simp add: free_frames_for_def mark_range_free_def released_cell_def)
  let ?fit = "fits (\<lambda>t. tr_tag t = (State_Used, ow)) ?c"
  note loop = mark_free_loop_eq [OF repr _ _ ceq cf(1) e, of 0 ow, simplified]
  have oks: "\<forall>t\<in>set ?xs. tr_ok t" using ok by (simp add: table_ok_def)
  show ?thesis
  proof (cases "find_index ?fit ?xs")
    case None
    have "\<not> range_frames rng \<subseteq> fa_frames s State_Used ow" if can: "fa_canon s"
    proof
      have inv: "canon ?xs" using can by (simp add: fa_canon_def)
      assume "range_frames rng \<subseteq> fa_frames s State_Used ow"
      then have "{tr_lo ?c..<tr_hi ?c} \<subseteq> frames ?xs (State_Used, ow)" by (simp add: cf(2) fa_frames_def)
      with inv cf(3) obtain i where "i < length ?xs" "tr_tag (?xs ! i) = (State_Used, ow)"
        "tr_lo (?xs ! i) \<le> tr_lo ?c" "tr_hi ?c \<le> tr_hi (?xs ! i)"
        by (elim run_in_cell) auto
      then have "i < length ?xs" "?fit (?xs ! i)" by (simp_all add: fits_def)
      with None show False by (metis find_index_None_iff nth_mem)
    qed
    with None oks assms(1) show ?thesis by (auto simp: free loop)
  next
    case (Some i)
    let ?t = "?xs ! i"
    have i: "i < length ?xs" "tr_tag ?t = (State_Used, ow)" "tr_lo ?t \<le> tr_lo ?c" "tr_hi ?c \<le> tr_hi ?t"
      using find_index_SomeD [OF Some] by (auto simp: fits_def)
    then have okt: "tr_ok ?t" and st: "tr_state ?t = State_Used" using ok by (auto simp: table_ok_def tr_tag_def)
    then have "0 < tr_lo ?c" using i(3) by (auto simp: tr_ok_def)
    then have okc: "tr_ok ?c" by (rule cf(4))
    have "tr_state ?t \<noteq> State_Reserved" "tr_tag ?c \<noteq> tr_tag ?t"
      using st by (simp_all add: tr_tag_def released_cell_def)
    note rep = replace_cell_table [OF ok i(1) this(1) okc i(3,4) this(2)]
    have "length (split_cell ?t (end_of ?t) ?c e) \<le> 3"
      using split_cell_facts(5) [OF okt end_of [OF okt] okc e i(3,4)] by simp
    then have "runs (mark_range_free_at s i ?t (end_of ?t) ?r e ow) (\<lambda>s'. repr s' (replace_cell ?xs i ?c))"
      using runs_mark_free_at [OF repr i(1,2), of "end_of ?t" ?r e] assms(4) len e
      by (simp add: replace_cell_def flip: ceq)
    moreover have "moved (range_frames rng) (State_Used, ow) (State_Free, Owner_Free) s s'"
      if "repr s' (replace_cell ?xs i ?c)" for s'
      using rep(2) i(2) repr_live [OF that] cf(2)
      by (simp add: moved_def fa_frames_def tr_tag_def released_cell_def)
    moreover have "range_frames rng \<subseteq> fa_frames s State_Used ow"
    proof -
      have "range_frames rng \<subseteq> {tr_lo ?t..<tr_hi ?t}" unfolding cf(2) [symmetric] using i by auto
      also have "\<dots> \<subseteq> fa_frames s State_Used ow"
        unfolding fa_frames_def using i by (intro cover_subset) auto
      finally show ?thesis .
    qed
    moreover have "fa_canon s \<Longrightarrow> canon (replace_cell ?xs i ?c)"
      by (intro rep(3)) (simp add: fa_canon_def canon_def)
    moreover have "tracked_count s' \<le> tracked_count s + 2" if "repr s' (replace_cell ?xs i ?c)" for s'
      using replace_length [OF i(1)] repr_count [OF that] len by simp
    ultimately show ?thesis
      using Some oks fa_invI [OF _ rep(1)] fa_canonI by (auto simp: free loop elim!: runs_conseq)
  qed
qed

section \<open>Registering and reserving regions\<close>

text \<open>The frames that lie entirely inside a byte range of \<open>fc\<close> times 4096 bytes.\<close>

definition whole_frames :: "PhysAddr \<Rightarrow> FrameCount \<Rightarrow> nat set" where
  "whole_frames start fc =
     (if unat (PhysAddr_as_u64 start) + 4096 * count_nat fc < 2 ^ 64
      then {f. unat (PhysAddr_as_u64 start) \<le> 4096 * f
              \<and> 4096 * f + 4096 \<le> unat (PhysAddr_as_u64 start) + 4096 * count_nat fc}
      else {})"

definition region_frames_set :: "Region \<Rightarrow> nat set" where
  "region_frames_set r =
     (let f = unat (PhysAddr_as_u64 (region_start r)) div 4096 in {f..<f + unat (region_pages r)})"

lemma align_up_page:
  "align_up w FRAME_SIZE = (if unat w + 4095 < 2 ^ 64 then Some ((w + (PAGE_SIZE - 1)) AND NOT (PAGE_SIZE - 1)) else None)"
  by (simp add: align_up_def checked_sub_def checked_add_def)

lemma clip_region:
  fixes w e :: u64
  assumes "R = (case align_up w FRAME_SIZE of
             None \<Rightarrow> None
           | Some a \<Rightarrow> if e \<le> a then None
               else Some \<lparr>region_start = PhysAddr a, region_pages = (e - a) div FRAME_SIZE\<rparr>)"
  shows "R = None \<Longrightarrow> {f. unat w \<le> 4096 * f \<and> 4096 * f + 4096 \<le> unat e} = {}"
    and "R = Some r \<Longrightarrow> region_frames_set r = {f. unat w \<le> 4096 * f \<and> 4096 * f + 4096 \<le> unat e}
       \<and> 4096 dvd unat (PhysAddr_as_u64 (region_start r))
       \<and> unat w \<le> unat (PhysAddr_as_u64 (region_start r))
       \<and> unat (PhysAddr_as_u64 (region_start r)) + unat (region_pages r) * 4096 < 2 ^ 64"
proof -
  have e64: "unat e < 2 ^ 64" using unat_u64_bound [of e] by simp
  let ?a = "(unat w + 4095) div 4096"
  have up: "unat w \<le> 4096 * f \<longleftrightarrow> ?a \<le> f" for f
    unfolding less_Suc_eq_le [symmetric, of ?a f] by (subst div_less_iff_less_mult) auto
  have a: "unat ((w + (PAGE_SIZE - 1)) AND NOT (PAGE_SIZE - 1)) = 4096 * ?a" if "unat w + 4095 < 2 ^ 64"
    using that unfolding unat_page_mask by (simp add: unat_word_ariths minus_mod_eq_mult_div)
  show "{f. unat w \<le> 4096 * f \<and> 4096 * f + 4096 \<le> unat e} = {}" if "R = None"
  proof (cases "unat w + 4095 < 2 ^ 64")
    case True
    with that have "unat e \<le> 4096 * ?a"
      using a by (simp add: assms align_up_page word_le_nat_alt del: word_not_simps split: if_splits)
    then show ?thesis unfolding up by fastforce
  next
    case False
    with e64 show ?thesis by auto
  qed
  show "region_frames_set r = {f. unat w \<le> 4096 * f \<and> 4096 * f + 4096 \<le> unat e}
       \<and> 4096 dvd unat (PhysAddr_as_u64 (region_start r))
       \<and> unat w \<le> unat (PhysAddr_as_u64 (region_start r))
       \<and> unat (PhysAddr_as_u64 (region_start r)) + unat (region_pages r) * 4096 < 2 ^ 64" if "R = Some r"
  proof -
    define x where "x = (w + (PAGE_SIZE - 1)) AND NOT (PAGE_SIZE - 1)"
    from that have w: "unat w + 4095 < 2 ^ 64" and r: "\<not> e \<le> x"
      "r = \<lparr>region_start = PhysAddr x, region_pages = (e - x) div FRAME_SIZE\<rparr>"
      unfolding assms align_up_page x_def by (auto split: if_splits)
    have x: "unat x = 4096 * ?a" using a [OF w] by (simp add: x_def)
    have "unat (e - x) = unat e - 4096 * ?a" using r(1) x by (simp add: unat_sub)
    then have pages: "unat (region_pages r) = (unat e - 4096 * ?a) div 4096" by (simp add: r(2) unat_div)
    have lt: "4096 * ?a < unat e" using r(1) x by (simp add: word_le_nat_alt)
    have "f < ?a + (unat e - 4096 * ?a) div 4096 \<longleftrightarrow> 4096 * f + 4096 \<le> unat e" if "?a \<le> f" for f
    proof -
      have "f < ?a + (unat e - 4096 * ?a) div 4096 \<longleftrightarrow> Suc (f - ?a) \<le> (unat e - 4096 * ?a) div 4096"
        using that by (simp add: Suc_le_eq less_diff_conv2 add.commute)
      also have "\<dots> \<longleftrightarrow> Suc (f - ?a) * 4096 \<le> unat e - 4096 * ?a"
        by (rule less_eq_div_iff_mult_less_eq) simp
      also have "\<dots> \<longleftrightarrow> 4096 * f + 4096 \<le> unat e" using that lt by auto
      finally show ?thesis .
    qed
    then have "region_frames_set r = {f. unat w \<le> 4096 * f \<and> 4096 * f + 4096 \<le> unat e}"
      using x pages unfolding up by (auto simp: region_frames_set_def Let_def r(2))
    moreover have "unat w \<le> 4096 * ?a" by (simp add: up)
    moreover have "unat x + unat (region_pages r) * 4096 < 2 ^ 64"
      using div_times_less_eq_dividend [of "unat e - 4096 * ?a" 4096] lt e64 unfolding x pages by linarith
    moreover have "PhysAddr_as_u64 (region_start r) = x" by (simp add: r(2))
    ultimately show ?thesis using x by simp
  qed
qed

lemma checked_end:
  assumes "frame_count_ok fc"
  shows "checked_add (PhysAddr_as_u64 start) (FrameCount_byte_len fc)
     = (if unat (PhysAddr_as_u64 start) + 4096 * count_nat fc < 2 ^ 64
        then Some (PhysAddr_as_u64 start + FrameCount_byte_len fc) else None)"
    and "unat (PhysAddr_as_u64 start) + 4096 * count_nat fc < 2 ^ 64 \<Longrightarrow>
       unat (PhysAddr_as_u64 start + FrameCount_byte_len fc) = unat (PhysAddr_as_u64 start) + 4096 * count_nat fc"
  using FrameCount_byte_len_unat [OF assms] by (simp_all add: checked_add_def unat_word_ariths mult.commute)

lemma normalize_reserved_region_frames:
  assumes "frame_count_ok fc"
  shows "case normalize_reserved_region start fc of
      None \<Rightarrow> whole_frames start fc = {}
    | Some r \<Rightarrow> region_frames_set r = whole_frames start fc
        \<and> 4096 dvd unat (PhysAddr_as_u64 (region_start r))
        \<and> unat (PhysAddr_as_u64 (region_start r)) + unat (region_pages r) * 4096 < 2 ^ 64"
proof (cases "unat (PhysAddr_as_u64 start) + 4096 * count_nat fc < 2 ^ 64")
  case False
  then show ?thesis using checked_end [OF assms] by (simp add: normalize_reserved_region_def whole_frames_def)
next
  case True
  have eq: "normalize_reserved_region start fc = (case align_up (PhysAddr_as_u64 start) FRAME_SIZE of
             None \<Rightarrow> None
           | Some a \<Rightarrow> if PhysAddr_as_u64 start + FrameCount_byte_len fc \<le> a then None
               else Some \<lparr>region_start = PhysAddr a,
                 region_pages = (PhysAddr_as_u64 start + FrameCount_byte_len fc - a) div FRAME_SIZE\<rparr>)"
    using True checked_end [OF assms] by (simp add: normalize_reserved_region_def)
  show ?thesis
    using clip_region [OF eq] True
    by (auto simp: checked_end(2) [OF assms True] whole_frames_def split: option.split)
qed

lemma normalize_region_frames:
  assumes "frame_count_ok fc"
  shows "case normalize_region start fc of
      None \<Rightarrow> whole_frames start fc - {0} = {}
    | Some r \<Rightarrow> region_frames_set r = whole_frames start fc - {0}
        \<and> 4096 dvd unat (PhysAddr_as_u64 (region_start r))
        \<and> unat (PhysAddr_as_u64 (region_start r)) + unat (region_pages r) * 4096 < 2 ^ 64"
proof (cases "unat (PhysAddr_as_u64 start) + 4096 * count_nat fc < 2 ^ 64")
  case False
  then show ?thesis using checked_end [OF assms] by (simp add: normalize_region_def whole_frames_def)
next
  case True
  let ?w = "max (PhysAddr_as_u64 start) FRAME_SIZE"
  have w: "unat ?w = max (unat (PhysAddr_as_u64 start)) 4096" by (simp add: max_def word_le_nat_alt)
  have set: "{f. unat ?w \<le> 4096 * f \<and> 4096 * f + 4096 \<le> m} = {f. unat (PhysAddr_as_u64 start) \<le> 4096 * f \<and> 4096 * f + 4096 \<le> m} - {0}" for m
    unfolding w by auto
  have eq: "normalize_region start fc = (case align_up ?w FRAME_SIZE of
             None \<Rightarrow> None
           | Some a \<Rightarrow> if PhysAddr_as_u64 start + FrameCount_byte_len fc \<le> a then None
               else Some \<lparr>region_start = PhysAddr a,
                 region_pages = (PhysAddr_as_u64 start + FrameCount_byte_len fc - a) div FRAME_SIZE\<rparr>)"
    using True checked_end [OF assms] by (simp add: normalize_region_def)
  show ?thesis
    using clip_region [OF eq, unfolded set] True
    by (auto simp: checked_end(2) [OF assms True] whole_frames_def split: option.split)
qed

lemma insert_table:
  assumes "table_ok H xs" "region_ok r"
    and c: "c = \<lparr>tr_region = r, tr_state = st, tr_owner = ow\<rparr>" "tr_ok c"
    and "\<And>y p. y \<in> set xs \<Longrightarrow> tr_lo y \<le> p \<Longrightarrow> p < tr_hi y \<Longrightarrow> p \<in> region_frames_set r \<Longrightarrow>
        p \<in> overlap_ok H (tr_tag y) (st, ow) \<and> p \<in> overlap_ok H (st, ow) (tr_tag y)"
  shows "table_ok H (takeWhile (starts_below r) xs @ c # dropWhile (starts_below r) xs)"
    and "frames (takeWhile (starts_below r) xs @ c # dropWhile (starts_below r) xs) k
       = frames xs k \<union> (if k = (st, ow) then region_frames_set r else {})"
    and "ordered tr_lo xs \<Longrightarrow> ordered tr_lo (takeWhile (starts_below r) xs @ c # dropWhile (starts_below r) xs)"
proof -
  have oks: "\<forall>t\<in>set xs. tr_ok t" using assms(1) by (simp add: table_ok_def)
  have F: "region_frames_set r = {tr_lo c..<tr_hi c}"
    by (simp add: c(1) region_frames_set_def Let_def tr_lo_def tr_hi_def tr_pages_def)
  have sb: "starts_below r t \<longleftrightarrow> tr_lo t < tr_lo c" if "t \<in> set xs" for t
    using tr_lo_bytes [of t] tr_lo_bytes [OF c(2)] oks that
    by (simp add: starts_below_def word_less_nat_alt c(1))
  then have tw: "takeWhile (starts_below r) xs = takeWhile (\<lambda>y. tr_lo y < tr_lo c) xs"
    "dropWhile (starts_below r) xs = dropWhile (\<lambda>y. tr_lo y < tr_lo c) xs"
    by (auto intro: takeWhile_cong dropWhile_cong)
  have sets: "set (takeWhile (starts_below r) xs) \<union> set (dropWhile (starts_below r) xs) = set xs"
    by (metis set_append takeWhile_dropWhile_id)
  have "sorted_wrt (tr_sep H) (takeWhile (starts_below r) xs @ c # dropWhile (starts_below r) xs)"
  proof (rule tracked.insert_sep)
    show "sorted_wrt (tr_sep H) (takeWhile (starts_below r) xs @ dropWhile (starts_below r) xs)"
      using assms(1) by (simp add: table_ok_def)
    fix y p assume "y \<in> set (takeWhile (starts_below r) xs) \<union> set (dropWhile (starts_below r) xs)"
      "tr_lo y \<le> p" "p < tr_hi y" "tr_lo c \<le> p" "p < tr_hi c"
    then show "p \<in> overlap_ok H (tr_tag y) (tr_tag c) \<and> p \<in> overlap_ok H (tr_tag c) (tr_tag y)"
      using assms(5) [of y p] unfolding sets F by (simp add: c(1) tr_tag_def)
  qed
  with sets show "table_ok H (takeWhile (starts_below r) xs @ c # dropWhile (starts_below r) xs)"
    using oks c(2) unfolding table_ok_def by auto
  show "ordered tr_lo (takeWhile (starts_below r) xs @ c # dropWhile (starts_below r) xs)" if "ordered tr_lo xs"
    unfolding tw using that by (rule tracked.insert_ordered)
  have "frames (takeWhile (starts_below r) xs @ dropWhile (starts_below r) xs) k = frames xs k" by simp
  then have "frames (takeWhile (starts_below r) xs) k \<union> frames (dropWhile (starts_below r) xs) k = frames xs k"
    unfolding cover_simps .
  moreover have "tr_tag c = (st, ow)" by (simp add: c(1) tr_tag_def)
  ultimately show "frames (takeWhile (starts_below r) xs @ c # dropWhile (starts_below r) xs) k
       = frames xs k \<union> (if k = (st, ow) then region_frames_set r else {})"
    unfolding F by auto
qed

lemma region_okI:
  assumes "4096 dvd unat (PhysAddr_as_u64 (region_start r))" "region_pages r \<noteq> 0"
    and "unat (PhysAddr_as_u64 (region_start r)) + unat (region_pages r) * 4096 < 2 ^ 64"
  shows "region_ok r"
  using assms by (simp add: region_ok_def unat_gt_0)

lemma region_frames_nonempty: "region_ok r \<Longrightarrow>
    unat (PhysAddr_as_u64 (region_start r)) div 4096 \<in> region_frames_set r"
  by (simp add: region_frames_set_def region_ok_def Let_def)

lemma insert_runs:
  assumes "repr s xs" "table_ok H xs" "length xs < MAX_TRACKED_RANGES"
    and r: "4096 dvd unat (PhysAddr_as_u64 (region_start r))"
      "unat (PhysAddr_as_u64 (region_start r)) + unat (region_pages r) * 4096 < 2 ^ 64"
    and st: "st = State_Reserved \<or> st = State_Free \<and> ow = Owner_Free \<and> 0 \<notin> region_frames_set r"
    and far: "\<And>y p. y \<in> set xs \<Longrightarrow> tr_lo y \<le> p \<Longrightarrow> p < tr_hi y \<Longrightarrow> p \<in> region_frames_set r \<Longrightarrow>
        p \<in> overlap_ok H (tr_tag y) (st, ow) \<and> p \<in> overlap_ok H (st, ow) (tr_tag y)"
  shows "runs (insert_tracked_range s r st ow) (\<lambda>s'. \<exists>ys. repr s' ys \<and> length ys \<le> Suc (length xs)
     \<and> table_ok H ys \<and> (\<forall>k. frames ys k = frames xs k \<union> (if k = (st, ow) then region_frames_set r else {}))
     \<and> (H = {} \<longrightarrow> canon xs \<longrightarrow> canon ys))"
proof (cases "region_pages r = 0")
  case True
  then have "region_frames_set r = {}" by (simp add: region_frames_set_def Let_def)
  with True assms(1,2) show ?thesis by (auto simp: runs_insert_zero)
next
  case False
  let ?c = "\<lparr>tr_region = r, tr_state = st, tr_owner = ow\<rparr>"
  let ?ys = "takeWhile (starts_below r) xs @ ?c # dropWhile (starts_below r) xs"
  have rok: "region_ok r" using False r by (intro region_okI)
  have "0 < tr_lo ?c" if "st \<noteq> State_Reserved"
    using that st region_frames_nonempty [OF rok] by (metis Region.simps TrackedRange.simps(1) gr0I tr_lo_def)
  then have cok: "tr_ok ?c" using st rok by (auto simp: tr_ok_def)
  note ins = insert_table [OF assms(2) rok refl cok far]
  note co = coalesce_table [OF ins(1)]
  have "length (takeWhile (starts_below r) xs) + length (dropWhile (starts_below r) xs) = length xs"
    unfolding length_append [symmetric] takeWhile_dropWhile_id ..
  then have len: "length ?ys = Suc (length xs)" by simp
  have "canon (coalesce tracked_adj tracked_join ?ys)" if "H = {}" "canon xs"
    using coalesce_canon [of ?ys] ins(1,3) that by (simp add: canon_def)
  with co ins(2) len length_coalesce [of tracked_adj tracked_join ?ys]
  show ?thesis
    by (intro runs_conseq [OF runs_insert [OF assms(1,3) False]] exI
        [of _ "coalesce tracked_adj tracked_join ?ys"]) auto
qed

text \<open>\<open>F\<close> is added to the frames of one state and owner; nothing else changes.\<close>

definition gained ::
    "nat set \<Rightarrow> FrameRangeState \<times> FrameRangeOwner \<Rightarrow> PhysicalFrameAllocator \<Rightarrow> PhysicalFrameAllocator \<Rightarrow> bool" where
  "gained F dst s s' \<longleftrightarrow>
     (\<forall>st ow. fa_frames s' st ow = fa_frames s st ow \<union> (if (st, ow) = dst then F else {}))"

lemma gainedI:
  assumes "repr s' ys" "\<forall>k. frames ys k = frames (live s) k \<union> (if k = dst then F else {})"
  shows "gained F dst s s'"
  using assms by (simp add: gained_def fa_frames_def repr_live [OF assms(1)])

lemma disjoint_far:
  assumes "\<And>st ow. F \<inter> fa_frames s st ow = {}" "y \<in> set (live s)" "tr_lo y \<le> p" "p < tr_hi y" "p \<in> F"
  shows "Q"
proof -
  have "p \<in> fa_frames s (tr_state y) (tr_owner y)"
    using assms(2-4) by (auto simp: fa_frames_def in_cover_iff tr_tag_def)
  with assms(1,5) show ?thesis by blast
qed

lemma add_region_runs:
  assumes "fa_inv s" "frame_count_ok fc" "tracked_count s < MAX_TRACKED_RANGES"
    and free: "\<And>st ow. (whole_frames start fc - {0}) \<inter> fa_frames s st ow = {}"
  shows "runs (add_region s start fc) (\<lambda>s'. fa_inv s' \<and> (fa_canon s \<longrightarrow> fa_canon s')
     \<and> tracked_count s' \<le> Suc (tracked_count s)
     \<and> gained (whole_frames start fc - {0}) (State_Free, Owner_Free) s s')"
proof -
  let ?xs = "live s" and ?F = "whole_frames start fc - {0}"
  have repr: "repr s ?xs" and ok: "table_ok {} ?xs" using assms(1) by (auto simp: fa_inv_def)
  have len: "length ?xs < MAX_TRACKED_RANGES" using repr_count [OF repr] assms(3) by simp
  note norm = normalize_region_frames [OF assms(2), of start]
  show ?thesis
  proof (cases "normalize_region start fc")
    case None
    with norm assms(1) show ?thesis by (auto simp: add_region_def gained_def)
  next
    case (Some r)
    with norm have r: "region_frames_set r = ?F" "4096 dvd unat (PhysAddr_as_u64 (region_start r))"
      "unat (PhysAddr_as_u64 (region_start r)) + unat (region_pages r) * 4096 < 2 ^ 64" by simp_all
    have "runs (insert_tracked_range s' r State_Free Owner_Free) (\<lambda>s'. fa_inv s' \<and> (fa_canon s \<longrightarrow> fa_canon s')
       \<and> tracked_count s' \<le> Suc (tracked_count s) \<and> gained ?F (State_Free, Owner_Free) s s')"
      if s': "repr s' ?xs" for s'
    proof (rule runs_conseq [OF insert_runs [OF s' ok len r(2,3), where st = State_Free and ow = Owner_Free]])
      show "State_Free = State_Reserved \<or> State_Free = State_Free \<and> Owner_Free = Owner_Free \<and> 0 \<notin> region_frames_set r"
        by (simp add: r(1))
      show "p \<in> overlap_ok {} (tr_tag y) (State_Free, Owner_Free) \<and> p \<in> overlap_ok {} (State_Free, Owner_Free) (tr_tag y)"
        if "y \<in> set ?xs" "tr_lo y \<le> p" "p < tr_hi y" "p \<in> region_frames_set r" for y p
        using disjoint_far [of ?F s y p] free that r(1) by blast
    next
      fix s'' assume "\<exists>ys. repr s'' ys \<and> length ys \<le> Suc (length ?xs) \<and> table_ok {} ys
        \<and> (\<forall>k. frames ys k = frames ?xs k \<union> (if k = (State_Free, Owner_Free) then region_frames_set r else {}))
        \<and> ({} = {} \<longrightarrow> canon ?xs \<longrightarrow> canon ys)"
      then obtain ys where ys: "repr s'' ys" "length ys \<le> Suc (length ?xs)" "table_ok {} ys"
        "\<forall>k. frames ys k = frames ?xs k \<union> (if k = (State_Free, Owner_Free) then ?F else {})"
        "canon ?xs \<longrightarrow> canon ys" unfolding r(1) by blast
      then show "fa_inv s'' \<and> (fa_canon s \<longrightarrow> fa_canon s'') \<and> tracked_count s'' \<le> Suc (tracked_count s)
          \<and> gained ?F (State_Free, Owner_Free) s s''"
        using repr_count [OF ys(1)] repr_count [OF repr] fa_invI [OF ys(1,3)] gainedI [OF ys(1,4)]
          fa_canonI [OF ys(1)] by (simp add: fa_canon_def)
    qed
    then show ?thesis
      using runs_insert_region [OF repr, of r] by (auto simp: add_region_def Some elim!: runs_conseq)
  qed
qed

end
