(* ===== verification/Frame_Reserve.thy ===== *)
theory Frame_Reserve
  imports Frame_Allocator_Spec
begin

text \<open>
  Reserving memory: the loop that carves a reserved region out of the free cells
  (\<open>remove_reserved_region_from_free_ranges\<close>) and the correctness of
  \<open>reserve_region_for\<close>.
\<close>

section \<open>Trimming one cell\<close>

definition trim_cell :: "u64 \<Rightarrow> u64 \<Rightarrow> TrackedRange \<Rightarrow> TrackedRange list" where
  "trim_cell rs re t =
     (if tr_state t \<noteq> State_Free then [t]
      else
        let start = PhysAddr_as_u64 (region_start (tr_region t));
            stop = PhysAddr_as_u64 (end_of t);
            os = max start rs; oe = min stop re
        in if oe \<le> os then [t]
           else (if 0 < (os - start) div FRAME_SIZE
                 then [outer_cell t (region_start (tr_region t)) ((os - start) div FRAME_SIZE)] else [])
              @ (if 0 < (stop - oe) div FRAME_SIZE
                 then [outer_cell t (PhysAddr oe) ((stop - oe) div FRAME_SIZE)] else []))"

lemma trim_cell_facts:
  assumes t: "tr_ok t" "tr_state t = State_Free"
    and rs: "unat rs = 4096 * a" and re: "unat re = 4096 * b" and ab: "a < b"
  shows "\<forall>c\<in>set (trim_cell rs re t). tr_ok c \<and> tr_tag c = tr_tag t \<and> tr_lo t \<le> tr_lo c \<and> tr_hi c \<le> tr_hi t
       \<and> {tr_lo c..<tr_hi c} \<inter> {a..<b} = {}"
    and "sorted_wrt (tr_sep H) (trim_cell rs re t)"
    and "frames (trim_cell rs re t) k = (if k = tr_tag t then {tr_lo t..<tr_hi t} - {a..<b} else {})"
    and "2 \<le> length (trim_cell rs re t) \<longleftrightarrow> tr_lo t < a \<and> b < tr_hi t"
    and "length (trim_cell rs re t) \<le> 2"
    and "{tr_lo t..<tr_hi t} \<inter> {a..<b} = {} \<Longrightarrow> trim_cell rs re t = [t]"
proof -
  let ?start = "PhysAddr_as_u64 (region_start (tr_region t))" and ?stop = "PhysAddr_as_u64 (end_of t)"
  let ?os = "max ?start rs" and ?oe = "min ?stop re"
  let ?b = "(?os - ?start) div FRAME_SIZE" and ?a = "(?stop - ?oe) div FRAME_SIZE"
  have lohi: "tr_lo t < tr_hi t" using t(1) by (rule tracked.nonempty)
  have start: "unat ?start = 4096 * tr_lo t" using t(1) by (rule tr_lo_bytes)
  have stop: "unat ?stop = 4096 * tr_hi t" using tr_end_bytes [OF t(1) end_of [OF t(1)]] .
  have os: "unat ?os = 4096 * max (tr_lo t) a"
    using start rs by (auto simp: max_def word_le_nat_alt)
  have oe: "unat ?oe = 4096 * min (tr_hi t) b"
    using stop re by (auto simp: min_def word_le_nat_alt)
  have b: "unat ?b = max (tr_lo t) a - tr_lo t" by (rule word_page_diff [OF os start]) simp
  have a: "unat ?a = tr_hi t - min (tr_hi t) b" by (rule word_page_diff [OF stop oe]) simp
  have b0: "0 < ?b \<longleftrightarrow> tr_lo t < a"
    using b by (metis diff_is_0_eq le_less_linear max.absorb1 max.cobounded2 max_def unat_gt_0 word_gt_0 zero_less_diff)
  have a0: "0 < ?a \<longleftrightarrow> b < tr_hi t"
    using a by (metis diff_self_eq_0 less_numeral_extra(3) min.strict_order_iff min_def not_less unat_gt_0 word_gt_0 zero_less_diff)
  have disj: "?oe \<le> ?os \<longleftrightarrow> tr_hi t \<le> a \<or> b \<le> tr_lo t"
    using os oe lohi ab by (auto simp: word_le_nat_alt)
  have eq: "trim_cell rs re t = (if tr_hi t \<le> a \<or> b \<le> tr_lo t then [t]
     else (if tr_lo t < a then [outer_cell t (region_start (tr_region t)) ?b] else [])
        @ (if b < tr_hi t then [outer_cell t (PhysAddr ?oe) ?a] else []))"
    using t(2) unfolding trim_cell_def Let_def b0 a0 disj by simp
  have B: "tr_ok (outer_cell t (region_start (tr_region t)) ?b)"
    "tr_lo (outer_cell t (region_start (tr_region t)) ?b) = tr_lo t"
    "tr_hi (outer_cell t (region_start (tr_region t)) ?b) = a"
    "tr_tag (outer_cell t (region_start (tr_region t)) ?b) = tr_tag t"
    if "tr_lo t < a" "a < tr_hi t"
  proof -
    have "unat ?b = a - tr_lo t" using b that by simp
    note facts = outer_cell_facts [OF t(1) start this]
    show "tr_ok (outer_cell t (region_start (tr_region t)) ?b)"
      "tr_lo (outer_cell t (region_start (tr_region t)) ?b) = tr_lo t"
      "tr_hi (outer_cell t (region_start (tr_region t)) ?b) = a"
      "tr_tag (outer_cell t (region_start (tr_region t)) ?b) = tr_tag t"
      using facts that by simp_all
  qed
  have A: "tr_ok (outer_cell t (PhysAddr ?oe) ?a)" "tr_lo (outer_cell t (PhysAddr ?oe) ?a) = b"
    "tr_hi (outer_cell t (PhysAddr ?oe) ?a) = tr_hi t" "tr_tag (outer_cell t (PhysAddr ?oe) ?a) = tr_tag t"
    if "b < tr_hi t" "tr_lo t < b"
  proof -
    have "unat (PhysAddr_as_u64 (PhysAddr ?oe)) = 4096 * b" "unat ?a = tr_hi t - b" using oe a that by simp_all
    note facts = outer_cell_facts [OF t(1) this]
    show "tr_ok (outer_cell t (PhysAddr ?oe) ?a)" "tr_lo (outer_cell t (PhysAddr ?oe) ?a) = b"
      "tr_hi (outer_cell t (PhysAddr ?oe) ?a) = tr_hi t" "tr_tag (outer_cell t (PhysAddr ?oe) ?a) = tr_tag t"
      using facts that by simp_all
  qed
  show "\<forall>c\<in>set (trim_cell rs re t). tr_ok c \<and> tr_tag c = tr_tag t \<and> tr_lo t \<le> tr_lo c \<and> tr_hi c \<le> tr_hi t
       \<and> {tr_lo c..<tr_hi c} \<inter> {a..<b} = {}"
    unfolding eq using A B t ab by auto
  show "sorted_wrt (tr_sep H) (trim_cell rs re t)"
    unfolding eq using A B ab by (auto simp: sep_disjoint)
  show "frames (trim_cell rs re t) k = (if k = tr_tag t then {tr_lo t..<tr_hi t} - {a..<b} else {})"
    unfolding eq using A B ab by auto
  show "2 \<le> length (trim_cell rs re t) \<longleftrightarrow> tr_lo t < a \<and> b < tr_hi t" "length (trim_cell rs re t) \<le> 2"
    unfolding eq using ab by auto
  assume "{tr_lo t..<tr_hi t} \<inter> {a..<b} = {}"
  then have "tr_hi t \<le> a \<or> b \<le> tr_lo t" using lohi ab by (auto simp: max_def min_def split: if_splits)
  then show "trim_cell rs re t = [t]" unfolding eq by simp
qed

lemma trim_cell_other: "tr_state t \<noteq> State_Free \<Longrightarrow> trim_cell rs re t = [t]"
  by (simp add: trim_cell_def)

lemma trim_cell_empty:
  assumes "re \<le> rs"
  shows "trim_cell rs re t = [t]"
proof -
  have "min x re \<le> max y rs" for x y :: u64
    using assms by (meson max.cobounded2 min.cobounded2 order.trans)
  then show ?thesis by (simp add: trim_cell_def Let_def)
qed

section \<open>The loop\<close>

abbreviation splits :: "u64 \<Rightarrow> u64 \<Rightarrow> TrackedRange list \<Rightarrow> nat" where
  "splits rs re xs \<equiv> length (filter (\<lambda>t. 2 \<le> length (trim_cell rs re t)) xs)"

lemma remove_reserved_step:
  assumes "repr s (us @ t # vs)" "tr_ok t"
    and "Suc (length us + length vs) + (if 2 \<le> length (trim_cell rs re t) then 1 else 0) \<le> MAX_TRACKED_RANGES"
    and rec: "\<And>s'. repr s' (us @ trim_cell rs re t @ vs) \<Longrightarrow>
        runs (remove_reserved_loop s' rs re (length us + length (trim_cell rs re t))) P"
  shows "runs (remove_reserved_loop s rs re (length us)) P"
proof -
  obtain te where e: "region_end (tr_region t) = Some te" using assms(2) by (metis end_of)
  let ?start = "PhysAddr_as_u64 (region_start (tr_region t))" and ?stop = "PhysAddr_as_u64 te"
  let ?os = "max ?start rs" and ?oe = "min ?stop re"
  let ?b = "(?os - ?start) div FRAME_SIZE" and ?a = "(?stop - ?oe) div FRAME_SIZE"
  let ?before = "outer_cell t (region_start (tr_region t)) ?b" and ?after = "outer_cell t (PhysAddr ?oe) ?a"
  have i: "length us < length (us @ t # vs)" by simp
  have get: "array_get (tracked_ranges s) (length us) = Done t"
    using repr_get [OF assms(1) i] by simp
  have n: "length us < tracked_count s" using repr_count [OF assms(1)] by simp
  have set: "runs (set_tracked_range s (length us) x) (\<lambda>s'. repr s' (us @ x # vs))" for x
    using runs_set [OF assms(1) i, of x] by simp
  have keep: "t\<lparr>tr_region := (tr_region t)\<lparr>region_pages := n\<rparr>\<rparr> = outer_cell t (region_start (tr_region t)) n"
    "t\<lparr>tr_region := \<lparr>region_start = x, region_pages = n\<rparr>\<rparr> = outer_cell t x n" for x n
    by (simp_all add: outer_cell_def)
  show ?thesis
  proof (cases "tr_state t = State_Free \<and> \<not> ?oe \<le> ?os")
    case False
    then have "trim_cell rs re t = [t]" by (auto simp: trim_cell_def Let_def e)
    with False rec [OF _, of s] assms(1) get n e show ?thesis
      by (subst remove_reserved_loop.simps) (auto simp: Let_def)
  next
    case True
    then have st: "tr_state t = State_Free" and ov: "\<not> ?oe \<le> ?os" by auto
    have trim: "trim_cell rs re t = (if 0 < ?b then [?before] else []) @ (if 0 < ?a then [?after] else [])"
      using True by (simp add: trim_cell_def Let_def e)
    have fr: "free_range x m = outer_cell t x m" for x m
      using assms(2) st by (simp add: free_range_def outer_cell_def tr_ok_def)
    have unfold: "remove_reserved_loop s rs re (length us)
      = (if 0 < ?b \<and> 0 < ?a
         then bind_run (set_tracked_range s (length us) ?before) (\<lambda>s'.
              bind_run (insert_tracked_range_at s' (length us + 1) ?after) (\<lambda>s''.
                remove_reserved_loop s'' rs re (length us + 2)))
         else if 0 < ?b
         then bind_run (set_tracked_range s (length us) ?before) (\<lambda>s'. remove_reserved_loop s' rs re (length us + 1))
         else if 0 < ?a
         then bind_run (set_tracked_range s (length us) ?after) (\<lambda>s'. remove_reserved_loop s' rs re (length us + 1))
         else bind_run (remove_tracked_range_at s (length us)) (\<lambda>s'. remove_reserved_loop s' rs re (length us)))"
      using st ov get n e keep
      by (subst remove_reserved_loop.simps) (simp add: Let_def fr)
    consider (ba) "0 < ?b" "0 < ?a" | (b) "0 < ?b" "\<not> 0 < ?a" | (a) "\<not> 0 < ?b" "0 < ?a"
      | (none) "\<not> 0 < ?b" "\<not> 0 < ?a" by blast
    then show ?thesis
    proof cases
      case ba
      have len: "length us + length vs < MAX_TRACKED_RANGES - 1" using assms(3) ba trim by simp
      have ins: "runs (insert_tracked_range_at s' (length us + 1) ?after) (\<lambda>s'. repr s' (us @ ?before # ?after # vs))"
        if "repr s' (us @ ?before # vs)" for s'
        using runs_insert_at [OF that, of "length us + 1" ?after] len by simp
      have rec2: "runs (remove_reserved_loop s'' rs re (length us + 2)) P"
        if "repr s'' (us @ ?before # ?after # vs)" for s''
        using rec [of s''] that trim ba by simp
      show ?thesis
        unfolding unfold if_P [OF conjI [OF ba]] runs_bind
        by (rule runs_conseq [OF set], rule runs_conseq [OF ins], assumption, rule rec2)
    next
      case b
      then show ?thesis using rec trim set [of ?before] by (auto simp: unfold elim!: runs_conseq)
    next
      case a
      then show ?thesis using rec trim set [of ?after] by (auto simp: unfold elim!: runs_conseq)
    next
      case none
      then show ?thesis using rec trim runs_remove [OF assms(1) i] by (auto simp: unfold elim!: runs_conseq)
    qed
  qed
qed

lemma remove_reserved_loop_runs:
  assumes "repr s (us @ vs)" "\<forall>t\<in>set vs. tr_ok t"
    and "length us + length vs + splits rs re vs \<le> MAX_TRACKED_RANGES"
    and "\<And>t. t \<in> set vs \<Longrightarrow> length (trim_cell rs re t) \<le> 2"
  shows "runs (remove_reserved_loop s rs re (length us))
     (\<lambda>s'. repr s' (us @ concat (map (trim_cell rs re) vs)))"
  using assms
proof (induction vs arbitrary: s us)
  case Nil
  then show ?case
    using repr_count [OF Nil(1)] by (subst remove_reserved_loop.simps) simp
next
  case (Cons t vs)
  show ?case
  proof (rule remove_reserved_step [OF Cons(2)])
    show "tr_ok t" using Cons(3) by simp
    show "Suc (length us + length vs) + (if 2 \<le> length (trim_cell rs re t) then 1 else 0) \<le> MAX_TRACKED_RANGES"
      using Cons(4) by (auto split: if_splits)
    fix s' assume s': "repr s' (us @ trim_cell rs re t @ vs)"
    then have "repr s' ((us @ trim_cell rs re t) @ vs)" by simp
    moreover have "length (us @ trim_cell rs re t) + length vs + splits rs re vs \<le> MAX_TRACKED_RANGES"
      using Cons(4) Cons(5) [of t] by (auto split: if_splits)
    ultimately have "runs (remove_reserved_loop s' rs re (length (us @ trim_cell rs re t)))
        (\<lambda>s'. repr s' ((us @ trim_cell rs re t) @ concat (map (trim_cell rs re) vs)))"
      using Cons(3,5) by (intro Cons(1)) auto
    then show "runs (remove_reserved_loop s' rs re (length us + length (trim_cell rs re t)))
        (\<lambda>s'. repr s' (us @ concat (map (trim_cell rs re) (t # vs))))" by simp
  qed
qed

section \<open>The trimmed table\<close>

lemma sorted_wrt_concat_map:
  assumes "sorted_wrt R xs" "\<forall>t\<in>set xs. sorted_wrt Q (g t)"
    and "\<forall>t\<in>set xs. \<forall>u\<in>set xs. R t u \<longrightarrow> (\<forall>c\<in>set (g t). \<forall>d\<in>set (g u). Q c d)"
  shows "sorted_wrt Q (concat (map g xs))"
  using assms
proof (induction xs)
  case (Cons x xs)
  have "\<forall>t\<in>set xs. \<forall>u\<in>set xs. R t u \<longrightarrow> (\<forall>c\<in>set (g t). \<forall>d\<in>set (g u). Q c d)"
    using Cons(4) by (meson list.set_intros(2))
  with Cons(2,3) have "sorted_wrt Q (concat (map g xs))" by (intro Cons(1)) simp_all
  moreover have "Q c d" if "c \<in> set (g x)" "d \<in> set (g u)" "u \<in> set xs" for c d u
  proof -
    have "R x u" using Cons(2) that(3) by simp
    with Cons(4) that show ?thesis by (meson list.set_intros)
  qed
  moreover have "sorted_wrt Q (g x)" using Cons(3) by simp
  ultimately show ?case by (auto simp: sorted_wrt_append)
qed simp

lemma length_filter_le_1:
  assumes "sorted_wrt R xs" "\<forall>x\<in>set xs. \<forall>y\<in>set xs. R x y \<longrightarrow> P x \<longrightarrow> \<not> P y"
  shows "length (filter P xs) \<le> 1"
  using assms
proof (induction xs)
  case (Cons x xs)
  show ?case
  proof (cases "P x")
    case True
    have "\<not> P y" if "y \<in> set xs" for y
    proof -
      have "R x y" using Cons(2) that by simp
      with Cons(3) True that show ?thesis by (meson list.set_intros)
    qed
    with True show ?thesis by (simp add: filter_empty_conv)
  next
    case False
    have "\<forall>x\<in>set xs. \<forall>y\<in>set xs. R x y \<longrightarrow> P x \<longrightarrow> \<not> P y"
      using Cons(3) by (meson list.set_intros(2))
    with Cons(2) have "length (filter P xs) \<le> 1" by (intro Cons(1)) simp_all
    with False show ?thesis by simp
  qed
qed simp

definition trims :: "u64 \<Rightarrow> u64 \<Rightarrow> nat \<Rightarrow> nat \<Rightarrow> TrackedRange list \<Rightarrow> bool" where
  "trims rs re a b xs \<longleftrightarrow>
     unat rs = 4096 * a \<and> unat re = 4096 * b \<and> a < b \<and> table_ok {a..<b} xs"

lemma trimsD:
  assumes "trims rs re a b xs"
  shows "unat rs = 4096 * a" "unat re = 4096 * b" "a < b" "table_ok {a..<b} xs"
    "\<And>t. t \<in> set xs \<Longrightarrow> tr_ok t"
  using assms by (auto simp: trims_def table_ok_def)

lemma trim_in:
  assumes T: "trims rs re a b xs" and "t \<in> set xs" "c \<in> set (trim_cell rs re t)"
  shows "tr_ok c \<and> tr_tag c = tr_tag t \<and> tr_lo t \<le> tr_lo c \<and> tr_hi c \<le> tr_hi t
     \<and> (tr_state t = State_Free \<longrightarrow> {tr_lo c..<tr_hi c} \<inter> {a..<b} = {})"
proof (cases "tr_state t = State_Free")
  case True
  with assms(3) trim_cell_facts(1) [OF trimsD(5) [OF T assms(2)] True trimsD(1-3) [OF T]]
  show ?thesis by blast
next
  case False
  with assms(3) trimsD(5) [OF T assms(2)] show ?thesis by (simp add: trim_cell_other)
qed

lemma trim_table:
  assumes T: "trims rs re a b xs"
  shows "table_ok {} (concat (map (trim_cell rs re) xs))"
proof -
  have "sorted_wrt (tr_sep {}) (trim_cell rs re t)" if "t \<in> set xs" for t
    using trim_cell_facts(2) [OF trimsD(5) [OF T that] _ trimsD(1-3) [OF T]]
    by (cases "tr_state t = State_Free") (simp_all add: trim_cell_other)
  moreover have "tr_sep {} c d"
    if "t \<in> set xs" "u \<in> set xs" "tr_sep {a..<b} t u" "c \<in> set (trim_cell rs re t)" "d \<in> set (trim_cell rs re u)"
    for t u c d
    unfolding sep_def
  proof (intro allI impI)
    fix p assume p: "tr_lo c \<le> p" "p < tr_hi c" "tr_lo d \<le> p" "p < tr_hi d"
    note c = trim_in [OF T that(1,4)] and d = trim_in [OF T that(2,5)]
    from p c d that(3) have "p \<in> overlap_ok {a..<b} (tr_tag t) (tr_tag u)" by (simp add: sep_def)
    moreover have "p \<notin> {a..<b}" if "tr_state t = State_Free \<or> tr_state u = State_Free"
      using p c d that by auto
    ultimately show "p \<in> overlap_ok {} (tr_tag c) (tr_tag d)"
      using c d by (auto simp: overlap_ok_def tr_tag_def split: if_splits)
  qed
  moreover have "sorted_wrt (tr_sep {a..<b}) xs" using trimsD(4) [OF T] by (simp add: table_ok_def)
  ultimately have "sorted_wrt (tr_sep {}) (concat (map (trim_cell rs re) xs))"
    by (intro sorted_wrt_concat_map [of "tr_sep {a..<b}"] ballI impI)
  with trim_in [OF T] show ?thesis by (auto simp: table_ok_def)
qed

lemma trim_frames:
  assumes T: "trims rs re a b xs"
  shows "frames (concat (map (trim_cell rs re) xs)) k = frames xs k - (if fst k = State_Free then {a..<b} else {})"
proof -
  have "frames (trim_cell rs re t) k
      = (if tr_tag t = k then {tr_lo t..<tr_hi t} else {}) - (if fst k = State_Free then {a..<b} else {})"
    if "t \<in> set xs" for t
    using trim_cell_facts(3) [OF trimsD(5) [OF T that] _ trimsD(1-3) [OF T], of k]
    by (cases "tr_state t = State_Free") (auto simp: trim_cell_other tr_tag_def)
  then show ?thesis by (induction xs) auto
qed

lemma trim_splits:
  assumes T: "trims rs re a b xs"
  shows "splits rs re xs \<le> 1"
proof (rule length_filter_le_1 [of "tr_sep {a..<b}"])
  show "sorted_wrt (tr_sep {a..<b}) xs" using trimsD(4) [OF T] by (simp add: table_ok_def)
  have split: "tr_state t = State_Free \<and> tr_lo t < a \<and> b < tr_hi t"
    if "t \<in> set xs" "2 \<le> length (trim_cell rs re t)" for t
    using that(2) trim_cell_facts(4) [OF trimsD(5) [OF T that(1)] _ trimsD(1-3) [OF T]]
    by (cases "tr_state t = State_Free") (auto simp: trim_cell_other)
  have "\<not> 2 \<le> length (trim_cell rs re y)"
    if xy: "x \<in> set xs" "y \<in> set xs" "tr_sep {a..<b} x y" "2 \<le> length (trim_cell rs re x)" for x y
  proof
    assume y: "2 \<le> length (trim_cell rs re y)"
    with split [OF xy(1,4)] split [OF xy(2)] xy(3) trimsD(3) [OF T]
    have "a \<in> overlap_ok {a..<b} (tr_tag x) (tr_tag y)" by (simp add: sep_def)
    with split [OF xy(1,4)] split [OF xy(2) y] show False
      by (simp add: overlap_ok_def tr_tag_def)
  qed
  then show "\<forall>x\<in>set xs. \<forall>y\<in>set xs. tr_sep {a..<b} x y \<longrightarrow>
      2 \<le> length (trim_cell rs re x) \<longrightarrow> \<not> 2 \<le> length (trim_cell rs re y)" by blast
qed

lemma trim_length:
  assumes T: "trims rs re a b xs" and "t \<in> set xs"
  shows "length (trim_cell rs re t) \<le> 2"
  using trim_cell_facts(5) [OF trimsD(5) [OF T assms(2)] _ trimsD(1-3) [OF T]]
  by (cases "tr_state t = State_Free") (auto simp: trim_cell_other)

section \<open>Reserving\<close>

text \<open>\<open>F\<close> leaves the free frames and joins the reserved frames of \<open>ow\<close>; nothing else changes.\<close>

definition reserved ::
    "nat set \<Rightarrow> FrameRangeOwner \<Rightarrow> PhysicalFrameAllocator \<Rightarrow> PhysicalFrameAllocator \<Rightarrow> bool" where
  "reserved F ow s s' \<longleftrightarrow>
     (\<forall>st o'. fa_frames s' st o' =
        fa_frames s st o' - (if st = State_Free then F else {})
          \<union> (if (st, o') = (State_Reserved, ow) then F else {}))"

lemma table_ok_mono: "table_ok {} xs \<Longrightarrow> table_ok H xs"
proof -
  assume ok: "table_ok {} xs"
  have "overlap_ok {} k k' \<subseteq> overlap_ok H k k'" for k k' by (auto simp: overlap_ok_def)
  then have "tr_sep H x y" if "tr_sep {} x y" for x y using that unfolding sep_def by blast
  with ok show ?thesis
    unfolding table_ok_def using sorted_wrt_mono_rel [of xs "tr_sep {}" "tr_sep H"] by blast
qed

lemma region_end_bounded:
  assumes "4096 dvd unat (PhysAddr_as_u64 (region_start r))"
    and "unat (PhysAddr_as_u64 (region_start r)) + unat (region_pages r) * 4096 < 2 ^ 64"
  obtains e a where "region_end r = Some e" "unat (PhysAddr_as_u64 (region_start r)) = 4096 * a"
    "unat (PhysAddr_as_u64 e) = 4096 * (a + unat (region_pages r))"
    "region_frames_set r = {a..<a + unat (region_pages r)}"
proof -
  obtain a where a: "unat (PhysAddr_as_u64 (region_start r)) = 4096 * a" using assms(1) by (auto elim: dvdE)
  let ?e = "PhysAddr (PhysAddr_as_u64 (region_start r) + of_nat (unat (region_pages r) * 4096))"
  have "unat (PhysAddr_as_u64 ?e) = unat (PhysAddr_as_u64 (region_start r)) + unat (region_pages r) * 4096"
    using assms(2) by (simp add: unat_word_ariths unat_of_nat)
  then show thesis
    using that [of ?e a] a by (simp add: region_end_Some_iff region_frames_set_def Let_def)
qed

lemma remove_reserved_runs:
  assumes "repr s xs" "table_ok (region_frames_set r) xs" "length xs < MAX_TRACKED_RANGES"
    and r: "4096 dvd unat (PhysAddr_as_u64 (region_start r))"
      "unat (PhysAddr_as_u64 (region_start r)) + unat (region_pages r) * 4096 < 2 ^ 64"
  shows "runs (remove_reserved_region_from_free_ranges s r) (\<lambda>s'. \<exists>ys. repr s' ys \<and> table_ok {} ys
     \<and> (\<forall>k. frames ys k = frames xs k - (if fst k = State_Free then region_frames_set r else {}))
     \<and> (canon xs \<longrightarrow> frames xs (State_Free, Owner_Free) \<inter> region_frames_set r = {}
          \<longrightarrow> canon ys \<and> length ys \<le> length xs))"
proof -
  obtain e a where e: "region_end r = Some e" "unat (PhysAddr_as_u64 (region_start r)) = 4096 * a"
    "unat (PhysAddr_as_u64 e) = 4096 * (a + unat (region_pages r))"
    "region_frames_set r = {a..<a + unat (region_pages r)}"
    using r by (rule region_end_bounded)
  let ?rs = "PhysAddr_as_u64 (region_start r)" and ?re = "PhysAddr_as_u64 e"
  let ?ys = "concat (map (trim_cell ?rs ?re) xs)"
  have oks: "\<forall>t\<in>set xs. tr_ok t" using assms(2) by (simp add: table_ok_def)
  have facts: "splits ?rs ?re xs \<le> 1 \<and> (\<forall>t\<in>set xs. length (trim_cell ?rs ?re t) \<le> 2) \<and> table_ok {} ?ys
     \<and> (\<forall>k. frames ?ys k = frames xs k - (if fst k = State_Free then region_frames_set r else {}))
     \<and> (frames xs (State_Free, Owner_Free) \<inter> region_frames_set r = {} \<longrightarrow> ?ys = xs)"
  proof (cases "region_pages r = 0")
    case True
    then have "?re \<le> ?rs" using e by (simp add: word_le_nat_alt)
    then have id: "trim_cell ?rs ?re = (\<lambda>t. [t])" by (auto simp: trim_cell_empty)
    have F: "region_frames_set r = {}" using True e by simp
    show ?thesis using assms(2) unfolding id F by (simp add: concat_map_singleton)
  next
    case False
    then have "0 < unat (region_pages r)" by (simp add: unat_gt_0)
    then have T: "trims ?rs ?re a (a + unat (region_pages r)) xs"
      using e assms(2) by (simp add: trims_def)
    have "trim_cell ?rs ?re t = [t]"
      if "frames xs (State_Free, Owner_Free) \<inter> region_frames_set r = {}" "t \<in> set xs" for t
    proof (cases "tr_state t = State_Free")
      case True
      then have "tr_tag t = (State_Free, Owner_Free)" using oks that(2) by (simp add: tr_tag_def tr_ok_def)
      then have "{tr_lo t..<tr_hi t} \<subseteq> frames xs (State_Free, Owner_Free)"
        using that(2) by (intro cover_subset)
      then have "{tr_lo t..<tr_hi t} \<inter> {a..<a + unat (region_pages r)} = {}" using that(1) e(4) by blast
      with True show ?thesis
        using trim_cell_facts(6) [OF trimsD(5) [OF T that(2)] True trimsD(1-3) [OF T]] by blast
    qed (simp add: trim_cell_other)
    then have "?ys = xs" if "frames xs (State_Free, Owner_Free) \<inter> region_frames_set r = {}"
      using that by (metis (no_types, lifting) concat_map_singleton list.map_ident map_cong)
    then show ?thesis
      using trim_splits [OF T] trim_length [OF T] trim_table [OF T] trim_frames [OF T] e(4) by simp
  qed
  then have "length xs + splits ?rs ?re xs \<le> MAX_TRACKED_RANGES" using assms(3) by linarith
  then have "runs (remove_reserved_loop s ?rs ?re 0) (\<lambda>s'. repr s' ?ys)"
    using remove_reserved_loop_runs [of s "[]" xs ?rs ?re] assms(1) oks facts by simp
  moreover have can: "canon (coalesce tracked_adj tracked_join ?ys)
      \<and> length (coalesce tracked_adj tracked_join ?ys) \<le> length xs"
    if "canon xs" "frames xs (State_Free, Owner_Free) \<inter> region_frames_set r = {}"
  proof -
    have "?ys = xs" using facts that(2) by blast
    then show ?thesis using coalesce_canon length_coalesce that(1) by (simp add: canon_def)
  qed
  moreover have "runs (merge_adjacent_tracked_ranges s') (\<lambda>s'. repr s' (coalesce tracked_adj tracked_join ?ys))"
    if "repr s' ?ys" for s' using that by (rule runs_merge)
  ultimately have "runs (remove_reserved_region_from_free_ranges s r)
      (\<lambda>s'. repr s' (coalesce tracked_adj tracked_join ?ys))"
    unfolding remove_reserved_region_from_free_ranges_def e(1) option.case runs_bind
    by (blast intro: runs_conseq)
  then show ?thesis
    using facts coalesce_table [of "{}" ?ys] can
    by (elim runs_conseq) (intro exI [of _ "coalesce tracked_adj tracked_join ?ys"], simp)
qed

lemma unique_conj:
  assumes "(\<exists>y. R y \<and> A y \<and> B y \<and> C y \<and> D y) \<and> (\<exists>y. R y \<and> E y)"
    and "\<And>y z. R y \<Longrightarrow> R z \<Longrightarrow> y = z"
  shows "\<exists>y. R y \<and> A y \<and> B y \<and> C y \<and> (Q \<longrightarrow> E y)"
  using assms by blast

lemma reserve_region_runs:
  assumes "fa_inv s" "frame_count_ok fc" "tracked_count s + 2 \<le> MAX_TRACKED_RANGES"
    and used: "\<And>ow. whole_frames start fc \<inter> fa_frames s State_Used ow = {}"
  shows "runs (reserve_region_for s start fc ow) (\<lambda>s'. fa_inv s' \<and> reserved (whole_frames start fc) ow s s'
     \<and> (fa_canon s \<longrightarrow> whole_frames start fc \<inter> free_frames s = {}
          \<longrightarrow> fa_canon s' \<and> tracked_count s' \<le> Suc (tracked_count s)))"
proof -
  let ?xs = "live s" and ?F = "whole_frames start fc"
  have repr: "repr s ?xs" and ok: "table_ok {} ?xs" using assms(1) by (auto simp: fa_inv_def)
  have len: "Suc (length ?xs) < MAX_TRACKED_RANGES" using repr_count [OF repr] assms(3) by simp
  note norm = normalize_reserved_region_frames [OF assms(2), of start]
  show ?thesis
  proof (cases "normalize_reserved_region start fc")
    case None
    with norm assms(1) show ?thesis by (auto simp: reserve_region_for_def reserved_def)
  next
    case (Some r)
    with norm have F: "region_frames_set r = ?F" and r: "4096 dvd unat (PhysAddr_as_u64 (region_start r))"
      "unat (PhysAddr_as_u64 (region_start r)) + unat (region_pages r) * 4096 < 2 ^ 64" by simp_all
    have notused: "tr_state y \<noteq> State_Used" if "y \<in> set ?xs" "tr_lo y \<le> p" "p < tr_hi y" "p \<in> ?F" for y p
    proof
      assume "tr_state y = State_Used"
      then have "p \<in> fa_frames s State_Used (tr_owner y)"
        using that by (auto simp: fa_frames_def in_cover_iff tr_tag_def)
      with used that(4) show False by blast
    qed
    have far: "p \<in> overlap_ok ?F (tr_tag y) (State_Reserved, ow) \<and> p \<in> overlap_ok ?F (State_Reserved, ow) (tr_tag y)"
      if "y \<in> set ?xs" "tr_lo y \<le> p" "p < tr_hi y" "p \<in> region_frames_set r" for y p
      using notused [OF that(1-3)] that(4) unfolding F
      by (cases "tr_state y") (auto simp: overlap_ok_def tr_tag_def)
    have len1: "length ?xs < MAX_TRACKED_RANGES" using len by simp
    have ins: "runs (insert_tracked_range s r State_Reserved ow) (\<lambda>s'. \<exists>ys. repr s' ys
       \<and> length ys \<le> Suc (length ?xs) \<and> table_ok ?F ys
       \<and> (\<forall>k. frames ys k = frames ?xs k \<union> (if k = (State_Reserved, ow) then ?F else {}))
       \<and> (?F = {} \<longrightarrow> canon ?xs \<longrightarrow> canon ys))"
      using insert_runs [OF repr table_ok_mono [OF ok] len1 r disjI1 [OF refl] far] unfolding F .
    have ins': "runs (insert_tracked_range s r State_Reserved ow) (\<lambda>s'. \<exists>ys. repr s' ys
        \<and> (canon ?xs \<longrightarrow> canon ys))" if "?F \<inter> free_frames s = {}"
    proof (rule runs_conseq [OF insert_runs [OF repr ok _ r disjI1 [OF refl], of ow]])
      show "p \<in> overlap_ok {} (tr_tag y) (State_Reserved, ow) \<and> p \<in> overlap_ok {} (State_Reserved, ow) (tr_tag y)"
        if "y \<in> set ?xs" "tr_lo y \<le> p" "p < tr_hi y" "p \<in> region_frames_set r" for y p
      proof -
        have "tr_state y \<noteq> State_Free"
        proof
          assume "tr_state y = State_Free"
          then have "p \<in> free_frames s"
            using that(1-3) ok by (auto simp: fa_frames_def in_cover_iff tr_tag_def table_ok_def tr_ok_def)
          with \<open>?F \<inter> free_frames s = {}\<close> that(4) F show False by blast
        qed
        with notused [OF that(1-3)] that(4) F show ?thesis
          by (cases "tr_state y") (auto simp: overlap_ok_def tr_tag_def)
      qed
    qed (use len in auto)
    have step: "runs (remove_reserved_region_from_free_ranges s' r) (\<lambda>s'. fa_inv s' \<and> reserved ?F ow s s'
       \<and> (fa_canon s \<longrightarrow> ?F \<inter> free_frames s = {} \<longrightarrow> fa_canon s' \<and> tracked_count s' \<le> Suc (tracked_count s)))"
      if ys: "repr s' ys" "length ys \<le> Suc (length ?xs)" "table_ok ?F ys"
        "\<forall>k. frames ys k = frames ?xs k \<union> (if k = (State_Reserved, ow) then ?F else {})"
        "?F \<inter> free_frames s = {} \<longrightarrow> canon ?xs \<longrightarrow> canon ys" for s' ys
    proof (rule runs_conseq [OF remove_reserved_runs [OF ys(1) _ _ r]])
      show "table_ok (region_frames_set r) ys" using ys(3) by (simp add: F)
      show "length ys < MAX_TRACKED_RANGES" using ys(2) len by simp
      fix s'' assume "\<exists>zs. repr s'' zs \<and> table_ok {} zs
        \<and> (\<forall>k. frames zs k = frames ys k - (if fst k = State_Free then region_frames_set r else {}))
        \<and> (canon ys \<longrightarrow> frames ys (State_Free, Owner_Free) \<inter> region_frames_set r = {}
             \<longrightarrow> canon zs \<and> length zs \<le> length ys)"
      then obtain zs where zs: "repr s'' zs" "table_ok {} zs"
        "\<forall>k. frames zs k = frames ys k - (if fst k = State_Free then ?F else {})"
        "canon ys \<longrightarrow> frames ys (State_Free, Owner_Free) \<inter> ?F = {} \<longrightarrow> canon zs \<and> length zs \<le> length ys"
        unfolding F by blast
      have "reserved ?F ow s s''"
        using zs(3) ys(4) by (auto simp: reserved_def fa_frames_def repr_live [OF zs(1)])
      moreover have "fa_canon s'' \<and> tracked_count s'' \<le> Suc (tracked_count s)"
        if "fa_canon s" "?F \<inter> free_frames s = {}"
        using that ys(2,4,5) zs(4) fa_canonI [OF zs(1)] repr_count [OF zs(1)] repr_count [OF repr]
        by (auto simp: fa_canon_def fa_frames_def Int_commute)
      ultimately show "fa_inv s'' \<and> reserved ?F ow s s''
        \<and> (fa_canon s \<longrightarrow> ?F \<inter> free_frames s = {} \<longrightarrow> fa_canon s'' \<and> tracked_count s'' \<le> Suc (tracked_count s))"
        using fa_invI [OF zs(1,2)] by blast
    qed
    have "runs (insert_tracked_range s r State_Reserved ow) (\<lambda>s'. \<exists>ys. repr s' ys \<and> length ys \<le> Suc (length ?xs)
       \<and> table_ok ?F ys \<and> (\<forall>k. frames ys k = frames ?xs k \<union> (if k = (State_Reserved, ow) then ?F else {}))
       \<and> (?F \<inter> free_frames s = {} \<longrightarrow> canon ?xs \<longrightarrow> canon ys))"
    proof (cases "?F \<inter> free_frames s = {}")
      case True
      from runs_conj [OF ins ins' [OF True]] show ?thesis
        by (rule runs_conseq) (rule unique_conj [OF _ repr_unique], assumption)
    next
      case False
      from ins show ?thesis
        by (rule runs_conseq) (use False in blast)
    qed
    then show ?thesis
      unfolding reserve_region_for_def Some option.case runs_bind
      by (rule runs_conseq) (blast intro: step)
  qed
qed

end
