(* ===== verification/Frame_Properties.thy ===== *)
theory Frame_Properties
  imports Frame_Reserve
begin

text \<open>
  The properties of the physical frame allocator, and the boot-time import of the firmware
  memory map (\<open>import_boot_memory_map\<close> of \<open>src/src/boot_services.rs\<close>), which is the only
  caller of \<open>add_region\<close> and \<open>reserve_region_for\<close>.
\<close>

section \<open>Importing the boot memory map\<close>

text \<open>The firmware memory types the importer tells apart; every other type is treated alike.\<close>

datatype MemoryType = CONVENTIONAL | LOADER_CODE | MMIO | MMIO_PORT_SPACE | OtherMemory u32

record MemoryDescriptor =
  md_ty :: MemoryType
  md_phys_start :: u64
  md_page_count :: u64

definition boot_memory_owner_for :: "MemoryType \<Rightarrow> FrameRangeOwner" where
  "boot_memory_owner_for memory_type =
     (case memory_type of
        LOADER_CODE \<Rightarrow> KernelImage
      | MMIO \<Rightarrow> Mmio
      | MMIO_PORT_SPACE \<Rightarrow> Mmio
      | _ \<Rightarrow> FirmwareReserved)"

fun import_boot_memory_map ::
    "PhysicalFrameAllocator \<Rightarrow> MemoryDescriptor list \<Rightarrow> PhysicalFrameAllocator run" where
  "import_boot_memory_map self [] = Done self"
| "import_boot_memory_map self (descriptor # memory_descriptors) =
     (case FrameCount_new (md_page_count descriptor) of
        None \<Rightarrow> import_boot_memory_map self memory_descriptors
      | Some frame_count \<Rightarrow>
          bind_run
            (if md_ty descriptor = CONVENTIONAL
             then add_region self (PhysAddr (md_phys_start descriptor)) frame_count
             else reserve_region_for self (PhysAddr (md_phys_start descriptor)) frame_count
                    (boot_memory_owner_for (md_ty descriptor)))
            (\<lambda>self. import_boot_memory_map self memory_descriptors))"

definition descriptor_frames :: "MemoryDescriptor \<Rightarrow> nat set" where
  "descriptor_frames d =
     (case FrameCount_new (md_page_count d) of
        None \<Rightarrow> {} | Some fc \<Rightarrow> whole_frames (PhysAddr (md_phys_start d)) fc)"

text \<open>The frames a descriptor contributes to a state and owner.\<close>

definition contributes :: "MemoryDescriptor \<Rightarrow> FrameRangeState \<Rightarrow> FrameRangeOwner \<Rightarrow> nat set" where
  "contributes d st ow =
     (if md_ty d = CONVENTIONAL
      then (if (st, ow) = (State_Free, Owner_Free) then descriptor_frames d - {0} else {})
      else (if (st, ow) = (State_Reserved, boot_memory_owner_for (md_ty d)) then descriptor_frames d else {}))"

abbreviation all_frames :: "PhysicalFrameAllocator \<Rightarrow> nat set" where
  "all_frames s \<equiv> \<Union>st. \<Union>ow. fa_frames s st ow"

lemma contributes_subset: "contributes d st ow \<subseteq> descriptor_frames d"
  by (auto simp: contributes_def)

lemma import_step:
  assumes s: "fa_canon s" "\<forall>ow. fa_frames s State_Used ow = {}" "all_frames s \<inter> descriptor_frames d = {}"
    and n: "tracked_count s + 2 \<le> MAX_TRACKED_RANGES"
    and fc: "FrameCount_new (md_page_count d) = Some fc"
  shows "runs (if md_ty d = CONVENTIONAL
             then add_region s (PhysAddr (md_phys_start d)) fc
             else reserve_region_for s (PhysAddr (md_phys_start d)) fc (boot_memory_owner_for (md_ty d)))
     (\<lambda>s'. fa_canon s' \<and> tracked_count s' \<le> Suc (tracked_count s)
        \<and> (\<forall>st ow. fa_frames s' st ow = fa_frames s st ow \<union> contributes d st ow))"
proof -
  have ok: "frame_count_ok fc" using fc by (simp add: FrameCount_new_Some_iff)
  have D: "descriptor_frames d = whole_frames (PhysAddr (md_phys_start d)) fc"
    using fc by (simp add: descriptor_frames_def)
  have disj: "descriptor_frames d \<inter> fa_frames s st ow = {}" for st ow using s(3) by blast
  show ?thesis
  proof (cases "md_ty d = CONVENTIONAL")
    case True
    have "runs (add_region s (PhysAddr (md_phys_start d)) fc) (\<lambda>s'. fa_inv s' \<and> (fa_canon s \<longrightarrow> fa_canon s')
        \<and> tracked_count s' \<le> Suc (tracked_count s)
        \<and> gained (descriptor_frames d - {0}) (State_Free, Owner_Free) s s')"
      unfolding D by (rule add_region_runs [OF fa_canon_inv [OF s(1)] ok]) (use n disj D in auto)
    with True s(1) show ?thesis
      by (auto elim!: runs_conseq simp: gained_def contributes_def)
  next
    case False
    have "runs (reserve_region_for s (PhysAddr (md_phys_start d)) fc (boot_memory_owner_for (md_ty d)))
       (\<lambda>s'. fa_inv s' \<and> reserved (descriptor_frames d) (boot_memory_owner_for (md_ty d)) s s'
     \<and> (fa_canon s \<longrightarrow> descriptor_frames d \<inter> free_frames s = {}
          \<longrightarrow> fa_canon s' \<and> tracked_count s' \<le> Suc (tracked_count s)))"
      unfolding D by (rule reserve_region_runs [OF fa_canon_inv [OF s(1)] ok n]) (use s(2) in auto)
    moreover have "fa_frames s st ow - (if st = State_Free then descriptor_frames d else {}) = fa_frames s st ow" for st ow
      using disj [of st ow] by auto
    ultimately show ?thesis
      using False s(1) disj by (auto elim!: runs_conseq simp: reserved_def contributes_def)
  qed
qed

lemma import_runs:
  assumes "fa_canon s" "\<forall>ow. fa_frames s State_Used ow = {}"
    and "\<forall>d\<in>set ds. all_frames s \<inter> descriptor_frames d = {}"
    and "sorted_wrt (\<lambda>d d'. descriptor_frames d \<inter> descriptor_frames d' = {}) ds"
    and "tracked_count s + length ds < MAX_TRACKED_RANGES"
  shows "runs (import_boot_memory_map s ds) (\<lambda>s'. fa_canon s'
     \<and> (\<forall>st ow. fa_frames s' st ow = fa_frames s st ow \<union> (\<Union>d\<in>set ds. contributes d st ow)))"
  using assms
proof (induction ds arbitrary: s)
  case (Cons d ds)
  show ?case
  proof (cases "FrameCount_new (md_page_count d)")
    case None
    then have "contributes d st ow = {}" for st ow by (simp add: contributes_def descriptor_frames_def)
    with None Cons show ?thesis by simp
  next
    case (Some fc)
    have step: "runs (if md_ty d = CONVENTIONAL
             then add_region s (PhysAddr (md_phys_start d)) fc
             else reserve_region_for s (PhysAddr (md_phys_start d)) fc (boot_memory_owner_for (md_ty d)))
     (\<lambda>s'. fa_canon s' \<and> tracked_count s' \<le> Suc (tracked_count s)
        \<and> (\<forall>st ow. fa_frames s' st ow = fa_frames s st ow \<union> contributes d st ow))"
      using Cons.prems Some by (intro import_step) auto
    show ?thesis
      unfolding import_boot_memory_map.simps Some option.case runs_bind
    proof (rule runs_conseq [OF step])
      fix s' assume s': "fa_canon s' \<and> tracked_count s' \<le> Suc (tracked_count s)
        \<and> (\<forall>st ow. fa_frames s' st ow = fa_frames s st ow \<union> contributes d st ow)"
      have "\<forall>ow. fa_frames s' State_Used ow = {}"
        using s' Cons.prems(2) by (simp add: contributes_def)
      moreover have "\<forall>d'\<in>set ds. all_frames s' \<inter> descriptor_frames d' = {}"
        using s' Cons.prems(3,4) contributes_subset [of d] by fastforce
      ultimately have "runs (import_boot_memory_map s' ds) (\<lambda>s''. fa_canon s''
         \<and> (\<forall>st ow. fa_frames s'' st ow = fa_frames s' st ow \<union> (\<Union>d\<in>set ds. contributes d st ow)))"
        using s' Cons.prems(4,5) by (intro Cons.IH) auto
      then show "runs (import_boot_memory_map s' ds) (\<lambda>s''. fa_canon s''
         \<and> (\<forall>st ow. fa_frames s'' st ow = fa_frames s st ow \<union> (\<Union>d\<in>set (d # ds). contributes d st ow)))"
        using s' by (auto elim!: runs_conseq)
    qed
  qed
qed simp

lemma new_frames: "fa_frames frame_allocator_new st ow = {}" "tracked_count frame_allocator_new = 0"
  using repr_live [OF repr_new] repr_count [OF repr_new] by (simp_all add: fa_frames_def)

text \<open>
  C24: importing the firmware memory map. For a map of fewer than 512 descriptors that do not
  overlap, the import never panics and leaves the allocator in canonical form; the free
  frames are exactly the whole frames of the conventional descriptors, frame zero excepted,
  every other descriptor's frames are reserved for its owner class, and nothing is in use.
\<close>

theorem import_boot_memory_map_correct:
  assumes "sorted_wrt (\<lambda>d d'. descriptor_frames d \<inter> descriptor_frames d' = {}) ds"
    and "length ds < MAX_TRACKED_RANGES"
  shows "runs (import_boot_memory_map frame_allocator_new ds) (\<lambda>s. fa_canon s
     \<and> free_frames s = (\<Union>d\<in>{d \<in> set ds. md_ty d = CONVENTIONAL}. descriptor_frames d) - {0}
     \<and> (\<forall>ow. fa_frames s State_Reserved ow
          = (\<Union>d\<in>{d \<in> set ds. md_ty d \<noteq> CONVENTIONAL \<and> boot_memory_owner_for (md_ty d) = ow}. descriptor_frames d))
     \<and> (\<forall>ow. fa_frames s State_Used ow = {}))"
proof (rule runs_conseq [OF import_runs [OF fa_canon_new]])
  fix s assume "fa_canon s \<and> (\<forall>st ow. fa_frames s st ow
      = fa_frames frame_allocator_new st ow \<union> (\<Union>d\<in>set ds. contributes d st ow))"
  then show "fa_canon s
     \<and> free_frames s = (\<Union>d\<in>{d \<in> set ds. md_ty d = CONVENTIONAL}. descriptor_frames d) - {0}
     \<and> (\<forall>ow. fa_frames s State_Reserved ow
          = (\<Union>d\<in>{d \<in> set ds. md_ty d \<noteq> CONVENTIONAL \<and> boot_memory_owner_for (md_ty d) = ow}. descriptor_frames d))
     \<and> (\<forall>ow. fa_frames s State_Used ow = {})"
    by (auto simp: new_frames contributes_def split: if_splits)
qed (use assms new_frames in auto)

definition sample_map :: "MemoryDescriptor list" where
  "sample_map =
     [\<lparr>md_ty = CONVENTIONAL, md_phys_start = 0, md_page_count = 4\<rparr>,
      \<lparr>md_ty = MMIO, md_phys_start = 0x100000, md_page_count = 1\<rparr>]"

lemma sample_map_disjoint:
  "sorted_wrt (\<lambda>d d'. descriptor_frames d \<inter> descriptor_frames d' = {}) sample_map"
  by (auto simp: sample_map_def descriptor_frames_def FrameCount_new_def whole_frames_def)

theorem import_boot_memory_map_correct_witness:
  "runs (import_boot_memory_map frame_allocator_new sample_map) (\<lambda>s. fa_canon s
     \<and> free_frames s = (\<Union>d\<in>{d \<in> set sample_map. md_ty d = CONVENTIONAL}. descriptor_frames d) - {0})"
  by (rule runs_conseq [OF import_boot_memory_map_correct [OF sample_map_disjoint]])
    (simp_all add: sample_map_def)

section \<open>Allocation and release\<close>

lemma free_used_disjoint:
  assumes "fa_inv s"
  shows "free_frames s \<inter> fa_frames s State_Used ow = {}"
proof (rule equals0I)
  fix p assume "p \<in> free_frames s \<inter> fa_frames s State_Used ow"
  then obtain i j where ij: "i < length (live s)" "tr_tag (live s ! i) = (State_Free, Owner_Free)"
    "tr_lo (live s ! i) \<le> p" "p < tr_hi (live s ! i)" "j < length (live s)"
    "tr_tag (live s ! j) = (State_Used, ow)" "tr_lo (live s ! j) \<le> p" "p < tr_hi (live s ! j)"
    by (auto simp: fa_frames_def in_cover_iff in_set_conv_nth)
  then have "i = j" using assms by (intro free_cell_unique [of "live s" i j p]) (auto simp: fa_inv_def tr_tag_def)
  with ij show False by simp
qed

text \<open>
  C1: allocation. From a valid allocator with table space left, \<open>allocate_frames_for\<close> never
  panics and keeps the invariant. When it succeeds, the returned range is page aligned, has
  the requested size, avoids frame zero, consists of frames that were free, and exactly
  these frames become used by the owner. In canonical form it takes the lowest fitting
  address, and it fails only when no run of that many free frames exists.
\<close>

theorem allocate_frames_for_correct:
  assumes "fa_inv s" "frame_count_ok fc" "ow \<noteq> Owner_Free" "tracked_count s < MAX_TRACKED_RANGES"
  shows "runs (allocate_frames_for s fc ow) (\<lambda>(s', r). fa_inv s' \<and> (fa_canon s \<longrightarrow> fa_canon s')
     \<and> tracked_count s' \<le> Suc (tracked_count s) \<and>
     (case r of
        None \<Rightarrow> s' = s \<and> (fa_canon s \<longrightarrow> (\<forall>g. \<not> {g..<g + count_nat fc} \<subseteq> free_frames s))
      | Some rng \<Rightarrow> allocated s fc ow rng s' \<and> (fa_canon s \<longrightarrow> runs_from s (count_nat fc) (range_first rng))))"
  using assms by (rule allocate_runs)

lemma new_facts: "fa_inv frame_allocator_new" "tracked_count frame_allocator_new < MAX_TRACKED_RANGES"
  using fa_canon_inv [OF fa_canon_new] new_frames(2) by simp_all

theorem allocate_frames_for_correct_witness:
  "runs (allocate_frames_for frame_allocator_new (FrameCount 2) KernelHeap) (\<lambda>(s', r). fa_inv s')"
  using allocate_frames_for_correct [OF new_facts(1) _ _ new_facts(2), of "FrameCount 2" KernelHeap]
  by (auto elim!: runs_conseq simp: frame_count_ok_def)

text \<open>
  C2: release. \<open>free_frames_for\<close> never panics and keeps the invariant; it accepts only a
  range all of whose frames are used by the named owner, in canonical form it accepts every
  such range, and then exactly these frames become free. Otherwise the allocator is
  unchanged, so a double free and a free by another owner are rejected.
\<close>

theorem free_frames_for_correct:
  assumes "fa_inv s" "frame_range_ok rng" "tracked_count s + 2 \<le> MAX_TRACKED_RANGES"
  shows "runs (free_frames_for s rng ow) (\<lambda>(s', released). fa_inv s' \<and> (fa_canon s \<longrightarrow> fa_canon s')
     \<and> (released \<longrightarrow> ow \<noteq> Owner_Free \<and> range_frames rng \<subseteq> fa_frames s State_Used ow)
     \<and> (fa_canon s \<longrightarrow> range_frames rng \<subseteq> fa_frames s State_Used ow \<longrightarrow> ow \<noteq> Owner_Free \<longrightarrow> released)
     \<and> (if released then moved (range_frames rng) (State_Used, ow) (State_Free, Owner_Free) s s' else s' = s))"
proof (cases "ow = Owner_Free")
  case True
  with assms(1) show ?thesis by (simp add: free_frames_for_def)
next
  case False
  show ?thesis
    by (rule runs_conseq [OF free_runs [OF assms(1,2) False assms(3)]]) (use False in auto)
qed

theorem free_frames_for_correct_witness:
  "runs (free_frames_for frame_allocator_new
       \<lparr>pfr_start = PhysicalFrameStart (PhysAddr 4096), pfr_frame_count = FrameCount 1\<rparr> UserHeap)
     (\<lambda>(s', released). \<not> released \<and> s' = frame_allocator_new)"
proof -
  let ?r = "\<lparr>pfr_start = PhysicalFrameStart (PhysAddr 4096), pfr_frame_count = FrameCount 1\<rparr>"
  have "frame_range_ok ?r"
    by (simp add: frame_range_ok_def frame_start_ok_def frame_count_ok_def PhysicalFrameStart_as_u64_def)
  moreover have "\<not> range_frames ?r \<subseteq> fa_frames frame_allocator_new State_Used UserHeap"
    by (simp add: new_frames range_frames_def Let_def)
  ultimately show ?thesis
    using free_frames_for_correct [OF new_facts(1), of ?r UserHeap] new_frames(2)
    by (auto elim!: runs_conseq split: if_splits)
qed



end
