(* ===== verification/Frame_Reference.thy ===== *)
theory Frame_Reference
  imports Frame_Reserve
begin

text \<open>
  A reference implementation of the frame allocator on plain lists of tracked ranges, without
  arrays, counters, shifting loops or panics, and the functional refinement that the array
  implementation computes exactly the reference's list. The reference is also the form in
  which concrete runs are evaluated.
\<close>

section \<open>The reference operations\<close>

definition ref_insert ::
    "Region \<Rightarrow> FrameRangeState \<Rightarrow> FrameRangeOwner \<Rightarrow> TrackedRange list \<Rightarrow> TrackedRange list" where
  "ref_insert r st ow xs =
     (if region_pages r = 0 then xs
      else coalesce tracked_adj tracked_join
        (takeWhile (starts_below r) xs @ \<lparr>tr_region = r, tr_state = st, tr_owner = ow\<rparr>
           # dropWhile (starts_below r) xs))"

definition ref_add :: "PhysAddr \<Rightarrow> FrameCount \<Rightarrow> TrackedRange list \<Rightarrow> TrackedRange list" where
  "ref_add start fc xs =
     (case normalize_region start fc of
        None \<Rightarrow> xs
      | Some r \<Rightarrow> ref_insert r State_Free Owner_Free xs)"

definition ref_reserve ::
    "PhysAddr \<Rightarrow> FrameCount \<Rightarrow> FrameRangeOwner \<Rightarrow> TrackedRange list \<Rightarrow> TrackedRange list" where
  "ref_reserve start fc ow xs =
     (case normalize_reserved_region start fc of
        None \<Rightarrow> xs
      | Some r \<Rightarrow> coalesce tracked_adj tracked_join
          (concat (map (trim_cell (PhysAddr_as_u64 (region_start r)) (PhysAddr_as_u64 (the (region_end r))))
             (ref_insert r State_Reserved ow xs))))"

definition ref_allocate ::
    "FrameCount \<Rightarrow> FrameRangeOwner \<Rightarrow> TrackedRange list
       \<Rightarrow> TrackedRange list \<times> PhysicalFrameRange option" where
  "ref_allocate fc ow xs =
     (case find_index (wants (count_nat fc)) xs of
        None \<Rightarrow> (xs, None)
      | Some j \<Rightarrow> (replace_cell xs j (used_cell (xs ! j) fc ow),
          Some \<lparr>pfr_start = PhysicalFrameStart (region_start (tr_region (xs ! j))), pfr_frame_count = fc\<rparr>))"

definition ref_free ::
    "PhysicalFrameRange \<Rightarrow> FrameRangeOwner \<Rightarrow> TrackedRange list \<Rightarrow> TrackedRange list \<times> bool" where
  "ref_free rng ow xs =
     (case find_index (fits (\<lambda>t. tr_tag t = (State_Used, ow)) (released_cell rng)) xs of
        None \<Rightarrow> (xs, False)
      | Some i \<Rightarrow> (replace_cell xs i (released_cell rng), True))"

section \<open>Refinement\<close>

lemma ref_insert_runs:
  assumes "repr s xs" "length xs < MAX_TRACKED_RANGES"
  shows "runs (insert_tracked_range s r st ow) (\<lambda>s'. repr s' (ref_insert r st ow xs))"
  using runs_insert [OF assms] assms(1) by (simp add: ref_insert_def runs_insert_zero)

lemma ref_insert_length: "length (ref_insert r st ow xs) \<le> Suc (length xs)"
proof -
  have "length (takeWhile (starts_below r) xs) + length (dropWhile (starts_below r) xs) = length xs"
    by (metis length_append takeWhile_dropWhile_id)
  then show ?thesis by (auto simp: ref_insert_def intro: order_trans [OF length_coalesce])
qed

lemma ref_add_runs:
  assumes "repr s xs" "length xs < MAX_TRACKED_RANGES"
  shows "runs (add_region s start fc) (\<lambda>s'. repr s' (ref_add start fc xs))"
proof (cases "normalize_region start fc")
  case (Some r)
  have "runs (insert_tracked_range s' r State_Free Owner_Free) (\<lambda>s'. repr s' (ref_add start fc xs))"
    if "repr s' xs" for s'
    using ref_insert_runs [OF that assms(2)] Some by (simp add: ref_add_def)
  then show ?thesis
    using Some by (simp add: add_region_def) (rule runs_conseq [OF runs_insert_region [OF assms(1)]])
qed (use assms in \<open>simp add: add_region_def ref_add_def\<close>)

lemma ref_allocate_runs:
  assumes "repr s xs" "table_ok {} xs" "frame_count_ok fc" "ow \<noteq> Owner_Free"
    and "length xs < MAX_TRACKED_RANGES"
  shows "runs (allocate_frames_for s fc ow)
     (\<lambda>(s', r). repr s' (fst (ref_allocate fc ow xs)) \<and> r = snd (ref_allocate fc ow xs))"
  using allocate_loop_spec [OF assms, of 0] assms(1,4) repr_count [OF assms(1)]
  by (auto simp: allocate_frames_for_def ref_allocate_def split: option.splits elim!: runs_conseq)

lemma ref_free_runs:
  assumes "repr s xs" "\<forall>t\<in>set xs. tr_ok t" "frame_range_ok rng" "ow \<noteq> Owner_Free"
    and "length xs + 2 \<le> MAX_TRACKED_RANGES"
  shows "runs (free_frames_for s rng ow)
     (\<lambda>(s', b). repr s' (fst (ref_free rng ow xs)) \<and> b = snd (ref_free rng ow xs))"
proof -
  let ?c = "released_cell rng" and ?r = "tr_region (released_cell rng)"
  note cf = released_cell_facts [OF assms(3)]
  obtain e where e: "region_end ?r = Some e" using region_end_ok [OF cf(1)] by blast
  have ceq: "?c = \<lparr>tr_region = ?r, tr_state = State_Free, tr_owner = Owner_Free\<rparr>"
    by (simp add: released_cell_def)
  have free: "free_frames_for s rng ow = mark_range_free_loop s ?r e ow 0"
    using assms(4) e by (simp add: free_frames_for_def mark_range_free_def released_cell_def)
  note loop = mark_free_loop_eq [OF assms(1,2) _ ceq cf(1) e, of 0 ow, simplified]
  show ?thesis
  proof (cases "find_index (fits (\<lambda>t. tr_tag t = (State_Used, ow)) ?c) xs")
    case None
    then show ?thesis using assms(1) by (simp add: free loop ref_free_def)
  next
    case (Some i)
    let ?t = "xs ! i"
    have i: "i < length xs" "tr_tag ?t = (State_Used, ow)"
      using find_index_SomeD [OF Some] by (auto simp: fits_def)
    have "length (split_cell ?t (end_of ?t) ?c e) \<le> 3" by (simp add: split_cell_def pieces_def)
    then have "runs (mark_range_free_at s i ?t (end_of ?t) ?r e ow) (\<lambda>s'. repr s' (replace_cell xs i ?c))"
      using runs_mark_free_at [OF assms(1) i, of "end_of ?t" ?r e] assms(5) e
      by (simp add: replace_cell_def flip: ceq)
    then show ?thesis using Some by (auto simp: free loop ref_free_def elim!: runs_conseq)
  qed
qed

lemma ref_reserve_runs:
  assumes "repr s xs" "\<forall>t\<in>set xs. tr_ok t" "length xs + 2 \<le> MAX_TRACKED_RANGES"
    and "\<forall>r. normalize_reserved_region start fc = Some r \<longrightarrow>
       (\<forall>t\<in>set (ref_insert r State_Reserved ow xs). tr_ok t)
       \<and> splits (PhysAddr_as_u64 (region_start r)) (PhysAddr_as_u64 (the (region_end r)))
           (ref_insert r State_Reserved ow xs) \<le> 1
       \<and> region_end r \<noteq> None"
  shows "runs (reserve_region_for s start fc ow) (\<lambda>s'. repr s' (ref_reserve start fc ow xs))"
proof (cases "normalize_reserved_region start fc")
  case (Some r)
  let ?ys = "ref_insert r State_Reserved ow xs"
  let ?rs = "PhysAddr_as_u64 (region_start r)" and ?re = "PhysAddr_as_u64 (the (region_end r))"
  have r: "\<forall>t\<in>set ?ys. tr_ok t" "splits ?rs ?re ?ys \<le> 1" "region_end r = Some (the (region_end r))"
    using assms(4) Some by auto
  have two: "length (trim_cell ?rs ?re t) \<le> 2" for t by (simp add: trim_cell_def Let_def)
  have len: "length ?ys \<le> Suc (length xs)" by (rule ref_insert_length)
  have loop: "runs (remove_reserved_loop s' ?rs ?re 0) (\<lambda>s'. repr s' (concat (map (trim_cell ?rs ?re) ?ys)))"
    if "repr s' ?ys" for s'
    using remove_reserved_loop_runs [of s' "[]" ?ys ?rs ?re] that r two len assms(3) by simp
  have "runs (remove_reserved_region_from_free_ranges s' r) (\<lambda>s'. repr s' (ref_reserve start fc ow xs))"
    if "repr s' ?ys" for s'
    unfolding remove_reserved_region_from_free_ranges_def runs_bind
    by (subst r(3)) (auto simp: ref_reserve_def Some intro!: runs_conseq [OF loop [OF that]] runs_merge)
  then show ?thesis
    using Some assms(3) ref_insert_runs [OF assms(1), of r State_Reserved ow]
    by (auto simp: reserve_region_for_def elim!: runs_conseq)
qed (use assms in \<open>simp add: reserve_region_for_def ref_reserve_def\<close>)

end
