(* ===== verification/Frame_Allocator_Checks.thy ===== *)
theory Frame_Allocator_Checks
  imports Frame_Reference
begin

text \<open>
  The self-check routines of \<open>frame_allocator/verification.rs\<close>, one definition each, and the
  proof that every one of them returns true: the runs are evaluated on the reference lists of
  \<open>Frame_Reference\<close>.
\<close>

section \<open>The self-checks\<close>

definition frame_count :: "u64 \<Rightarrow> FrameCount run" where
  "frame_count count = expect (FrameCount_new count)"

definition verify_zero_address_skip_for_multi_frame_allocations :: "bool run" where
  "verify_zero_address_skip_for_multi_frame_allocations =
     bind_run (frame_count 3) (\<lambda>three.
     bind_run (add_region frame_allocator_new (PhysAddr 0) three) (\<lambda>fa.
     bind_run (frame_count 2) (\<lambda>two.
     bind_run (allocate_frames fa two) (\<lambda>(fa, r).
       Done (map_option (\<lambda>rng. PhysicalFrameStart_as_u64 (pfr_start rng)) r = Some FRAME_SIZE)))))"

definition verify_typed_physical_frame_start :: bool where
  "verify_typed_physical_frame_start =
     (let aligned_frame_start = PhysicalFrameStart_new (PhysAddr FRAME_SIZE);
          unaligned_frame_start = PhysicalFrameStart_new (PhysAddr (FRAME_SIZE + 1))
      in is_some_and aligned_frame_start (\<lambda>frame_start.
           PhysicalFrameStart_as_address frame_start = PhysAddr FRAME_SIZE
           \<and> PhysicalFrameStart_as_u64 frame_start = FRAME_SIZE)
         \<and> is_none unaligned_frame_start)"

definition verify_typed_tracked_region_start :: "bool run" where
  "verify_typed_tracked_region_start =
     bind_run (frame_count 4) (\<lambda>four.
     bind_run (add_region frame_allocator_new (PhysAddr FRAME_SIZE) four) (\<lambda>fa.
     bind_run (frame_count 1) (\<lambda>one.
     bind_run (reserve_region fa (PhysAddr (2 * FRAME_SIZE)) one) (\<lambda>fa.
     bind_run (allocate_frame fa) (\<lambda>(fa, r). case r of None \<Rightarrow> Done False | Some first_frame \<Rightarrow>
     bind_run (allocate_frame fa) (\<lambda>(fa, r). case r of None \<Rightarrow> Done False | Some second_frame \<Rightarrow>
       Done (PhysicalFrameStart_as_address first_frame = PhysAddr FRAME_SIZE
         \<and> PhysicalFrameStart_as_address second_frame = PhysAddr (3 * FRAME_SIZE))))))))"

definition verify_reserved_used_and_free_range_tracking :: "bool run" where
  "verify_reserved_used_and_free_range_tracking =
     bind_run (frame_count 1) (\<lambda>one.
     bind_run (reserve_region frame_allocator_new (PhysAddr 0) one) (\<lambda>fa.
     bind_run (frame_count 4) (\<lambda>four.
     bind_run (add_region fa (PhysAddr FRAME_SIZE) four) (\<lambda>fa.
     bind_run (frame_count 2) (\<lambda>two.
     bind_run (allocate_frames fa two) (\<lambda>(fa, r). case r of None \<Rightarrow> Done False | Some _ \<Rightarrow>
     bind_run (fa_statistics fa) (\<lambda>st.
       Done (st = \<lparr>stat_reserved = 1, stat_free = 2, stat_used = 2\<rparr>))))))))"

definition verify_duplicate_allocation_rejection :: "bool run" where
  "verify_duplicate_allocation_rejection =
     bind_run (frame_count 4) (\<lambda>four.
     bind_run (add_region frame_allocator_new (PhysAddr 0) four) (\<lambda>fa.
     bind_run (allocate_frame fa) (\<lambda>(fa, r). case r of None \<Rightarrow> Done False | Some first_frame \<Rightarrow>
     bind_run (allocate_frame fa) (\<lambda>(fa, r). case r of None \<Rightarrow> Done False | Some second_frame \<Rightarrow>
     and_run (Done (first_frame \<noteq> second_frame))
       (bind_run (fa_statistics fa) (\<lambda>st.
          Done (st = \<lparr>stat_reserved = 0, stat_free = 1, stat_used = 2\<rparr>)))))))"

definition verify_contiguous_allocation_boundaries :: "bool run" where
  "verify_contiguous_allocation_boundaries =
     bind_run (frame_count 1) (\<lambda>one.
     bind_run (add_region frame_allocator_new (PhysAddr FRAME_SIZE) one) (\<lambda>fa.
     bind_run (frame_count 2) (\<lambda>two.
     bind_run (add_region fa (PhysAddr (3 * FRAME_SIZE)) two) (\<lambda>fa.
     bind_run (frame_count 2) (\<lambda>two.
     bind_run (allocate_frames fa two) (\<lambda>(fa, r).
       Done (map_option (\<lambda>rng. PhysicalFrameStart_as_u64 (pfr_start rng)) r = Some (3 * FRAME_SIZE))))))))"

definition verify_reserved_range_exclusion :: "bool run" where
  "verify_reserved_range_exclusion =
     bind_run (frame_count 4) (\<lambda>four.
     bind_run (add_region frame_allocator_new (PhysAddr FRAME_SIZE) four) (\<lambda>fa.
     bind_run (frame_count 1) (\<lambda>one.
     bind_run (reserve_region fa (PhysAddr (2 * FRAME_SIZE)) one) (\<lambda>fa.
     bind_run (allocate_frame fa) (\<lambda>(fa, r). case r of None \<Rightarrow> Done False | Some first_frame \<Rightarrow>
     bind_run (allocate_frame fa) (\<lambda>(fa, r). case r of None \<Rightarrow> Done False | Some second_frame \<Rightarrow>
     and_run (Done (PhysicalFrameStart_as_u64 first_frame = FRAME_SIZE
         \<and> PhysicalFrameStart_as_u64 second_frame = 3 * FRAME_SIZE))
       (bind_run (fa_statistics fa) (\<lambda>st.
          Done (st = \<lparr>stat_reserved = 1, stat_free = 1, stat_used = 2\<rparr>)))))))))"

definition verify_owner_tracking :: "bool run" where
  "verify_owner_tracking =
     bind_run (frame_count 8) (\<lambda>eight.
     bind_run (add_region frame_allocator_new (PhysAddr FRAME_SIZE) eight) (\<lambda>fa.
     bind_run (frame_count 2) (\<lambda>two.
     bind_run (allocate_frames_for fa two KernelHeap) (\<lambda>(fa, r). case r of None \<Rightarrow> Done False | Some _ \<Rightarrow>
     bind_run (frame_count 3) (\<lambda>three.
     bind_run (allocate_frames_for fa three UserElf) (\<lambda>(fa, r). case r of None \<Rightarrow> Done False | Some _ \<Rightarrow>
     and_run (bind_run (pages_owned_by fa KernelHeap) (\<lambda>n. Done (n = 2)))
       (and_run (bind_run (pages_owned_by fa UserElf) (\<lambda>n. Done (n = 3)))
         (bind_run (fa_statistics fa) (\<lambda>st.
            Done (st = \<lparr>stat_reserved = 0, stat_free = 3, stat_used = 5\<rparr>))))))))))"

definition verify_released_frame_reuse :: "bool run" where
  "verify_released_frame_reuse =
     bind_run (frame_count 3) (\<lambda>three.
     bind_run (add_region frame_allocator_new (PhysAddr FRAME_SIZE) three) (\<lambda>fa.
     bind_run (frame_count 2) (\<lambda>two.
     bind_run (allocate_frames_for fa two DynamicKernelMapping) (\<lambda>(fa, r).
       case r of None \<Rightarrow> Done False | Some dynamic_range \<Rightarrow>
     bind_run (allocate_frame_for fa UserStack) (\<lambda>(fa, r). case r of None \<Rightarrow> Done False | Some _ \<Rightarrow>
     bind_run (free_frames_for fa dynamic_range KernelStack) (\<lambda>(fa, wrong_owner_released).
     bind_run (free_frames_for fa dynamic_range DynamicKernelMapping) (\<lambda>(fa, released).
     bind_run (free_frames_for fa dynamic_range DynamicKernelMapping) (\<lambda>(fa, double_released).
     bind_run (frame_count 2) (\<lambda>two.
     bind_run (allocate_frames_for fa two KernelStack) (\<lambda>(fa, r).
       case r of None \<Rightarrow> Done False | Some reused_range \<Rightarrow>
     and_run (Done (\<not> wrong_owner_released \<and> released \<and> \<not> double_released
         \<and> reused_range = dynamic_range))
       (and_run (bind_run (pages_owned_by fa DynamicKernelMapping) (\<lambda>n. Done (n = 0)))
         (and_run (bind_run (pages_owned_by fa KernelStack) (\<lambda>n. Done (n = 2)))
           (bind_run (fa_statistics fa) (\<lambda>st.
              Done (st = \<lparr>stat_reserved = 0, stat_free = 0, stat_used = 3\<rparr>)))))))))))))))"

text \<open>The loop over the allocation plan of \<open>verify_explicit_owner_coverage\<close>; \<open>None\<close> is its early return.\<close>

fun allocate_plan ::
    "PhysicalFrameAllocator \<Rightarrow> (FrameRangeOwner \<times> u64) list \<Rightarrow> PhysicalFrameAllocator option run" where
  "allocate_plan fa [] = Done (Some fa)"
| "allocate_plan fa ((owner, pages) # plan) =
     bind_run (frame_count pages) (\<lambda>fc.
     bind_run (allocate_frames_for fa fc owner) (\<lambda>(fa, r).
       case r of None \<Rightarrow> Done None | Some _ \<Rightarrow> allocate_plan fa plan))"

definition verify_explicit_owner_coverage :: "bool run" where
  "verify_explicit_owner_coverage =
     bind_run (frame_count 1) (\<lambda>one.
     bind_run (reserve_region_for frame_allocator_new (PhysAddr 0) one KernelImage) (\<lambda>fa.
     bind_run (frame_count 1) (\<lambda>one.
     bind_run (reserve_region_for fa (PhysAddr FRAME_SIZE) one Mmio) (\<lambda>fa.
     bind_run (frame_count 1) (\<lambda>one.
     bind_run (reserve_region_for fa (PhysAddr (2 * FRAME_SIZE)) one GuardPage) (\<lambda>fa.
     bind_run (frame_count 20) (\<lambda>twenty.
     bind_run (add_region fa (PhysAddr (3 * FRAME_SIZE)) twenty) (\<lambda>fa.
     bind_run (allocate_plan fa
       [(PageTable, 1), (KernelHeap, 2), (KernelStack, 2), (FramebufferBackbuffer, 2), (AhciDma, 3),
        (DynamicKernelMapping, 1), (UserStack, 2), (UserElf, 4), (UserHeap, 1), (UserMapping, 2)]) (\<lambda>r.
       case r of None \<Rightarrow> Done False
       | Some fa \<Rightarrow> bind_run (owner_statistics fa) (\<lambda>st. Done (st =
           \<lparr>os_free = 0, os_firmware_reserved = 0, os_kernel_image = 1, os_mmio = 1,
            os_guard_page = 1, os_unknown_used = 0, os_page_table = 1, os_kernel_heap = 2,
            os_kernel_stack = 2, os_framebuffer_backbuffer = 2, os_ahci_dma = 3,
            os_dynamic_kernel_mapping = 1, os_user_stack = 2, os_user_elf = 4, os_user_heap = 1,
            os_user_mapping = 2\<rparr>)))))))))))"

section \<open>Stepping on the reference lists\<close>

named_theorems frame_eval \<open>definitions that evaluate the reference operations\<close>

lemmas [frame_eval] = ref_add_def ref_insert_def ref_reserve_def ref_allocate_def ref_free_def
  normalize_region_def normalize_reserved_region_def align_up_def region_end_def PhysAddr_checked_add_def
  FrameCount_byte_len_def arith_defs starts_below_def tracked_adj_def tracked_join_def trim_cell_def
  outer_cell_def wants_def tr_pages_def replace_cell_def split_cell_def pieces_def used_cell_def
  released_cell_def fits_def tr_lo_def tr_hi_def tr_tag_def tr_ok_def region_ok_def
  frame_count_ok_def frame_range_ok_def frame_start_ok_def PhysicalFrameStart_as_u64_def Let_def

definition well_spaced :: "TrackedRange list \<Rightarrow> bool" where
  "well_spaced xs \<longleftrightarrow> (\<forall>t\<in>set xs. tr_ok t)
     \<and> sorted_wrt (\<lambda>a b. tr_hi a \<le> tr_lo b \<or> tr_hi b \<le> tr_lo a) xs
     \<and> length xs + 2 \<le> MAX_TRACKED_RANGES"

declare well_spaced_def [frame_eval]

lemma well_spaced_table: "well_spaced xs \<Longrightarrow> table_ok {} xs"
  unfolding well_spaced_def table_ok_def
  by (auto simp: sep_def elim!: sorted_wrt_mono_rel [rotated])

lemma step_new: "(\<And>s. repr s [] \<Longrightarrow> runs (f s) P) \<Longrightarrow> runs (f frame_allocator_new) P"
  using repr_new by blast

lemma step_add:
  assumes "repr s xs" "ref_add start fc xs = ys" "well_spaced xs"
    and "\<And>s. repr s ys \<Longrightarrow> runs (k s) P"
  shows "runs (bind_run (add_region s start fc) k) P"
  using ref_add_runs [OF assms(1), of start fc] assms(2-4)
  by (auto simp: well_spaced_def elim!: runs_conseq)

lemma step_reserve:
  assumes "repr s xs" "ref_reserve start fc ow xs = ys"
    "well_spaced xs \<and> (case normalize_reserved_region start fc of None \<Rightarrow> True
       | Some r \<Rightarrow> (\<forall>t\<in>set (ref_insert r State_Reserved ow xs). tr_ok t)
           \<and> splits (PhysAddr_as_u64 (region_start r)) (PhysAddr_as_u64 (the (region_end r)))
               (ref_insert r State_Reserved ow xs) \<le> 1
           \<and> region_end r \<noteq> None)"
    and "\<And>s. repr s ys \<Longrightarrow> runs (k s) P"
  shows "runs (bind_run (reserve_region_for s start fc ow) k) P"
proof -
  have "runs (reserve_region_for s start fc ow) (\<lambda>s'. repr s' (ref_reserve start fc ow xs))"
    using assms(3) by (intro ref_reserve_runs [OF assms(1)]) (auto simp: well_spaced_def)
  then show ?thesis unfolding runs_bind by (rule runs_conseq) (use assms in auto)
qed

lemma step_allocate:
  assumes "repr s xs" "ref_allocate fc ow xs = (ys, r)"
    "well_spaced xs \<and> frame_count_ok fc \<and> ow \<noteq> Owner_Free"
    and "\<And>s. repr s ys \<Longrightarrow> runs (k s r) P"
  shows "runs (bind_run (allocate_frames_for s fc ow) (\<lambda>(s, r). k s r)) P"
proof -
  have "runs (allocate_frames_for s fc ow)
     (\<lambda>(s', r). repr s' (fst (ref_allocate fc ow xs)) \<and> r = snd (ref_allocate fc ow xs))"
    using assms(1,3) well_spaced_table by (intro ref_allocate_runs) (auto simp: well_spaced_def)
  then show ?thesis unfolding runs_bind by (rule runs_conseq) (use assms in auto)
qed

lemma step_allocate_one:
  assumes "repr s xs" "ref_allocate (FrameCount 1) ow xs = (ys, r)"
    "well_spaced xs \<and> frame_count_ok (FrameCount 1) \<and> ow \<noteq> Owner_Free"
    and "\<And>s. repr s ys \<Longrightarrow> runs (k s (map_option pfr_start r)) P"
  shows "runs (bind_run (allocate_frame_for s ow) (\<lambda>(s, r). k s r)) P"
  using step_allocate [OF assms(1-3), of "\<lambda>s r. k s (map_option pfr_start r)" P] assms(4)
  by (auto simp: allocate_frame_for_def FrameCount_new_def expect_def)
    (metis (mono_tags, lifting) case_prod_conv runs_conseq surj_pair)

lemma step_free:
  assumes "repr s xs" "fst (ref_free rng ow xs) = ys"
    "well_spaced xs \<and> frame_range_ok rng \<and> ow \<noteq> Owner_Free"
    and "\<And>s. repr s ys \<Longrightarrow> runs (k s (snd (ref_free rng ow xs))) P"
  shows "runs (bind_run (free_frames_for s rng ow) (\<lambda>(s, r). k s r)) P"
proof -
  have "runs (free_frames_for s rng ow)
     (\<lambda>(s', b). repr s' (fst (ref_free rng ow xs)) \<and> b = snd (ref_free rng ow xs))"
    using assms(1,3) by (intro ref_free_runs) (auto simp: well_spaced_def)
  then show ?thesis unfolding runs_bind by (rule runs_conseq) (use assms in auto)
qed

lemma statistics_fold:
  assumes "repr s xs"
  shows "fa_statistics s = Done (fold count_state xs \<lparr>stat_reserved = 0, stat_free = 0, stat_used = 0\<rparr>)"
    and "owner_statistics s = Done (fold count_owner xs no_owner_statistics)"
    and "pages_owned_by s ow = Done (fold (\<lambda>t n. if tr_owner t = ow
       then saturating_add n (region_pages (tr_region t)) else n) xs 0)"
  using assms by (simp_all add: fa_statistics_def owner_statistics_def pages_owned_by_def for_each_array repr_def)

lemma frame_counts:
  "frame_count 1 = Done (FrameCount 1)" "frame_count 2 = Done (FrameCount 2)"
  "frame_count 3 = Done (FrameCount 3)" "frame_count 4 = Done (FrameCount 4)"
  "frame_count 8 = Done (FrameCount 8)" "frame_count 20 = Done (FrameCount 20)"
  by (simp_all add: frame_count_def FrameCount_new_def expect_def)

text \<open>The self-checks with their calls unfolded to the four allocator operations.\<close>

lemmas check_shapes = frame_counts bind_run.simps allocate_frames_def allocate_frame_def
  reserve_region_def and_run_def if_True

fun ref_plan :: "(FrameRangeOwner \<times> u64) list \<Rightarrow> TrackedRange list \<Rightarrow> TrackedRange list option" where
  "ref_plan [] xs = Some xs"
| "ref_plan ((ow, n) # plan) xs =
     (if well_spaced xs \<and> frame_count n = Done (FrameCount n) \<and> frame_count_ok (FrameCount n) \<and> ow \<noteq> Owner_Free
      then case ref_allocate (FrameCount n) ow xs of
        (ys, Some _) \<Rightarrow> ref_plan plan ys
      | (ys, None) \<Rightarrow> None
      else None)"

lemma ref_plan_runs:
  "repr s xs \<Longrightarrow> ref_plan plan xs = Some ys \<Longrightarrow>
     runs (allocate_plan s plan) (\<lambda>r. \<exists>s'. r = Some s' \<and> repr s' ys)"
proof (induction plan xs arbitrary: s rule: ref_plan.induct)
  case (2 ow n plan xs)
  then obtain zs r where c: "well_spaced xs" "frame_count n = Done (FrameCount n)" "frame_count_ok (FrameCount n)"
    "ow \<noteq> Owner_Free" "ref_allocate (FrameCount n) ow xs = (zs, Some r)" "ref_plan plan zs = Some ys"
    by (auto split: if_splits prod.splits option.splits)
  then show ?case
    using 2(1) [OF _ c(5) [symmetric] refl _ c(6)] step_allocate [OF 2(2) c(5), of "\<lambda>fa r. case r of None \<Rightarrow> Done None | Some _ \<Rightarrow> allocate_plan fa plan"]
    by (simp only: allocate_plan.simps bind_run.simps) auto
qed auto

lemma step_plan:
  assumes "repr s xs" "ref_plan plan xs = Some ys" "True" "\<And>s. repr s ys \<Longrightarrow> runs (k (Some s)) P"
  shows "runs (bind_run (allocate_plan s plan) k) P"
  unfolding runs_bind by (rule runs_conseq [OF ref_plan_runs [OF assms(1,2)]]) (use assms(4) in auto)

lemmas frame_steps = step_add step_reserve step_allocate step_allocate_one step_free step_plan

lemmas check_eval = statistics_fold count_state_def count_owner_def frame_counts no_owner_statistics_def frame_eval

section \<open>Every self-check passes\<close>

lemma self_check_runs:
  "runs verify_zero_address_skip_for_multi_frame_allocations (\<lambda>b. b)"
  "runs verify_typed_tracked_region_start (\<lambda>b. b)"
  "runs verify_reserved_used_and_free_range_tracking (\<lambda>b. b)"
  "runs verify_duplicate_allocation_rejection (\<lambda>b. b)"
  "runs verify_contiguous_allocation_boundaries (\<lambda>b. b)"
  "runs verify_reserved_range_exclusion (\<lambda>b. b)"
  "runs verify_owner_tracking (\<lambda>b. b)"
  "runs verify_released_frame_reuse (\<lambda>b. b)"
  "runs verify_explicit_owner_coverage (\<lambda>b. b)"
  unfolding verify_zero_address_skip_for_multi_frame_allocations_def
    verify_typed_tracked_region_start_def
    verify_reserved_used_and_free_range_tracking_def
    verify_duplicate_allocation_rejection_def
    verify_contiguous_allocation_boundaries_def
    verify_reserved_range_exclusion_def
    verify_owner_tracking_def
    verify_released_frame_reuse_def
    verify_explicit_owner_coverage_def check_shapes
  by (rule step_new, (rule frame_steps, assumption, simp add: frame_eval frame_counts,
       simp add: frame_eval frame_counts, (simp only: option.case option.map)?)+, simp add: check_eval)+

lemma runs_True: "runs m (\<lambda>b. b) \<Longrightarrow> m = Done True"
  by (auto simp: runs_iff)


end
