(* ===== verification/Virtual_Allocator.thy ===== *)
theory Virtual_Allocator
  imports Range_Cells Address
begin

text \<open>
  The kernel virtual range allocator of \<open>kernel/memory/virtual_allocator.rs\<close>: a fixed table
  of free page ranges in address order, first-fit allocation, checked release with merging,
  and the two boot-time self-checks.
\<close>

section \<open>Data\<close>

abbreviation DYNAMIC_MAPPING_START :: u64 where "DYNAMIC_MAPPING_START \<equiv> 0xffff800000000000"
abbreviation DYNAMIC_MAPPING_PAGE_COUNT :: u64 where "DYNAMIC_MAPPING_PAGE_COUNT \<equiv> 262144"
abbreviation MAX_FREE_RANGES :: nat where "MAX_FREE_RANGES \<equiv> 128"

record VirtualFreeRange =
  vfr_start :: KernelPageStart
  vfr_page_count :: u64

definition VirtualFreeRange_end_exclusive :: "VirtualFreeRange \<Rightarrow> KernelPageStart option" where
  "VirtualFreeRange_end_exclusive self =
     (case checked_mul (vfr_page_count self) PAGE_SIZE of
        None \<Rightarrow> None
      | Some byte_len \<Rightarrow> KernelPageStart_checked_add (vfr_start self) byte_len)"

record KernelVirtualRangeAllocator =
  managed_start :: KernelPageStart
  managed_page_count :: PageCount
  free_ranges :: "VirtualFreeRange list"
  free_count :: nat

definition page_count :: "u64 \<Rightarrow> PageCount run" where
  "page_count count = expect (PageCount_new count)"

definition kernel_page_start :: "u64 \<Rightarrow> KernelPageStart run" where
  "kernel_page_start address = expect (KernelPageStart_new (VirtAddr address))"

definition empty_kernel_page_start :: "KernelPageStart run" where
  "empty_kernel_page_start = kernel_page_start DYNAMIC_MAPPING_START"

definition VirtualFreeRange_empty :: "VirtualFreeRange run" where
  "VirtualFreeRange_empty =
     map_run (\<lambda>start. \<lparr>vfr_start = start, vfr_page_count = 0\<rparr>) empty_kernel_page_start"

section \<open>Operations\<close>

definition virtual_allocator_new ::
    "KernelPageStart \<Rightarrow> PageCount \<Rightarrow> KernelVirtualRangeAllocator option run" where
  "virtual_allocator_new start count =
     (case KernelVirtualRange_new start count of
        None \<Rightarrow> Done None
      | Some _ \<Rightarrow>
          bind_run VirtualFreeRange_empty (\<lambda>empty.
          bind_run (array_set (replicate MAX_FREE_RANGES empty) 0
            \<lparr>vfr_start = start, vfr_page_count = PageCount_as_u64 count\<rparr>) (\<lambda>ranges.
            Done (Some \<lparr>managed_start = start, managed_page_count = count,
                        free_ranges = ranges, free_count = 1\<rparr>))))"

definition remove_free_range_at ::
    "KernelVirtualRangeAllocator \<Rightarrow> nat \<Rightarrow> KernelVirtualRangeAllocator run" where
  "remove_free_range_at self index =
     bind_run (assert_run (0 < free_count self)) (\<lambda>_.
     bind_run (shift_down index (free_count self) (free_ranges self)) (\<lambda>arr.
       Done (self\<lparr>free_ranges := arr, free_count := free_count self - 1\<rparr>)))"

definition vfr_adj :: "VirtualFreeRange \<Rightarrow> VirtualFreeRange \<Rightarrow> bool" where
  "vfr_adj current nxt \<longleftrightarrow> VirtualFreeRange_end_exclusive current = Some (vfr_start nxt)"

definition vfr_join :: "VirtualFreeRange \<Rightarrow> VirtualFreeRange \<Rightarrow> VirtualFreeRange" where
  "vfr_join current nxt =
     current\<lparr>vfr_page_count := saturating_add (vfr_page_count current) (vfr_page_count nxt)\<rparr>"

definition merge_adjacent_free_ranges ::
    "KernelVirtualRangeAllocator \<Rightarrow> KernelVirtualRangeAllocator run" where
  "merge_adjacent_free_ranges self =
     map_run (\<lambda>(arr, n). self\<lparr>free_ranges := arr, free_count := n\<rparr>)
       (merge_adjacent vfr_adj vfr_join (free_ranges self) (free_count self))"

definition contains_range :: "KernelVirtualRangeAllocator \<Rightarrow> KernelVirtualRange \<Rightarrow> bool run" where
  "contains_range self rng =
     (case KernelPageStart_checked_add (managed_start self) (PageCount_byte_len (managed_page_count self)) of
        None \<Rightarrow> Done False
      | Some managed_end \<Rightarrow>
          and_run (Done (KernelPageStart_as_u64 (managed_start self) \<le> KernelPageStart_as_u64 (kvr_start rng)))
            (map_run (\<lambda>e. VirtAddr_as_u64 e \<le> KernelPageStart_as_u64 managed_end)
              (KernelVirtualRange_end_exclusive rng)))"

text \<open>The body of the loop of \<open>allocate_pages\<close> for a range that is large enough.\<close>

definition take_from_range ::
    "KernelVirtualRangeAllocator \<Rightarrow> nat \<Rightarrow> VirtualFreeRange \<Rightarrow> PageCount
       \<Rightarrow> (KernelVirtualRangeAllocator \<times> KernelVirtualRange option) run" where
  "take_from_range self index free_range count =
     (case KernelVirtualRange_new (vfr_start free_range) count of
        None \<Rightarrow> Done (self, None)
      | Some rng \<Rightarrow>
          if vfr_page_count free_range = PageCount_as_u64 count
          then map_run (\<lambda>self. (self, Some rng)) (remove_free_range_at self index)
          else case KernelPageStart_checked_add (vfr_start free_range) (PageCount_byte_len count) of
            None \<Rightarrow> Done (self, None)
          | Some start \<Rightarrow>
              bind_run (expect (checked_sub (vfr_page_count free_range) (PageCount_as_u64 count))) (\<lambda>left.
              bind_run (array_set (free_ranges self) index
                \<lparr>vfr_start = start, vfr_page_count = left\<rparr>) (\<lambda>arr.
                Done (self\<lparr>free_ranges := arr\<rparr>, Some rng))))"

function allocate_pages_loop ::
    "KernelVirtualRangeAllocator \<Rightarrow> PageCount \<Rightarrow> nat
       \<Rightarrow> (KernelVirtualRangeAllocator \<times> KernelVirtualRange option) run" where
  "allocate_pages_loop self count index =
     (if index < free_count self
      then bind_run (array_get (free_ranges self) index) (\<lambda>free_range.
        if vfr_page_count free_range < PageCount_as_u64 count
        then allocate_pages_loop self count (index + 1)
        else take_from_range self index free_range count)
      else Done (self, None))"
  by pat_completeness auto
termination by (relation "measure (\<lambda>(self, c, index). free_count self - index)") auto

declare allocate_pages_loop.simps [simp del]

definition allocate_pages ::
    "KernelVirtualRangeAllocator \<Rightarrow> PageCount
       \<Rightarrow> (KernelVirtualRangeAllocator \<times> KernelVirtualRange option) run" where
  "allocate_pages self count = allocate_pages_loop self count 0"

text \<open>
  The overlap checks of \<open>free_pages\<close> against the range before and the range after the
  insertion point.
\<close>

definition clear_of_previous :: "KernelVirtualRangeAllocator \<Rightarrow> KernelVirtualRange \<Rightarrow> nat \<Rightarrow> bool run" where
  "clear_of_previous self rng insert_index =
     (if 0 < insert_index
      then bind_run (array_get (free_ranges self) (insert_index - 1)) (\<lambda>previous.
        case VirtualFreeRange_end_exclusive previous of
          None \<Rightarrow> Done False
        | Some previous_end \<Rightarrow>
            Done (KernelPageStart_as_u64 previous_end \<le> KernelPageStart_as_u64 (kvr_start rng)))
      else Done True)"

definition clear_of_next :: "KernelVirtualRangeAllocator \<Rightarrow> KernelVirtualRange \<Rightarrow> nat \<Rightarrow> bool run" where
  "clear_of_next self rng insert_index =
     (if insert_index < free_count self
      then bind_run (array_get (free_ranges self) insert_index) (\<lambda>nxt.
        bind_run (KernelVirtualRange_end_exclusive rng) (\<lambda>e.
          Done (VirtAddr_as_u64 e \<le> KernelPageStart_as_u64 (vfr_start nxt))))
      else Done True)"

definition free_pages ::
    "KernelVirtualRangeAllocator \<Rightarrow> KernelVirtualRange \<Rightarrow> (KernelVirtualRangeAllocator \<times> bool) run" where
  "free_pages self rng =
     bind_run (contains_range self rng) (\<lambda>contained.
     if \<not> contained then Done (self, False)
     else bind_run (scan_while (\<lambda>r. KernelPageStart_as_u64 (vfr_start r) < KernelPageStart_as_u64 (kvr_start rng))
            (free_ranges self) (free_count self) 0) (\<lambda>insert_index.
       bind_run (clear_of_previous self rng insert_index) (\<lambda>clear.
       if \<not> clear then Done (self, False)
       else bind_run (clear_of_next self rng insert_index) (\<lambda>clear.
       if \<not> clear then Done (self, False)
       else if MAX_FREE_RANGES \<le> free_count self then Done (self, False)
       else bind_run (shift_up insert_index (free_count self) (free_ranges self)) (\<lambda>arr.
            bind_run (array_set arr insert_index
              \<lparr>vfr_start = kvr_start rng, vfr_page_count = PageCount_as_u64 (kvr_page_count rng)\<rparr>) (\<lambda>arr.
              map_run (\<lambda>self. (self, True))
                (merge_adjacent_free_ranges
                  (self\<lparr>free_ranges := arr, free_count := free_count self + 1\<rparr>))))))))"

definition remaining_pages :: "KernelVirtualRangeAllocator \<Rightarrow> u64 run" where
  "remaining_pages self =
     for_each (\<lambda>index pages. bind_run (array_get (free_ranges self) index) (\<lambda>r.
         Done (saturating_add pages (vfr_page_count r))))
       [0..<free_count self] 0"

definition new_dynamic_mapping_allocator :: "KernelVirtualRangeAllocator run" where
  "new_dynamic_mapping_allocator =
     bind_run (expect (PageCount_new DYNAMIC_MAPPING_PAGE_COUNT)) (\<lambda>count.
     bind_run (kernel_page_start DYNAMIC_MAPPING_START) (\<lambda>start.
     bind_run (virtual_allocator_new start count) expect))"

section \<open>Self-checks\<close>

definition verify_kernel_virtual_range_allocation :: "bool run" where
  "verify_kernel_virtual_range_allocation =
     bind_run new_dynamic_mapping_allocator (\<lambda>al.
     bind_run (page_count 1) (\<lambda>one.
     bind_run (allocate_pages al one) (\<lambda>(al, r). case r of None \<Rightarrow> Done False | Some first_range \<Rightarrow>
     bind_run (page_count 2) (\<lambda>two.
     bind_run (allocate_pages al two) (\<lambda>(al, r). case r of None \<Rightarrow> Done False | Some second_range \<Rightarrow>
     bind_run (free_pages al first_range) (\<lambda>(al, freed). if \<not> freed then Done False else
     bind_run (allocate_pages al one) (\<lambda>(al, r). case r of None \<Rightarrow> Done False | Some reused_range \<Rightarrow>
     and_run (Done (KernelPageStart_as_u64 (kvr_start first_range) = DYNAMIC_MAPPING_START
         \<and> kvr_page_count first_range = one
         \<and> KernelVirtualRange_byte_len first_range = PAGE_SIZE))
       (and_run (map_run (\<lambda>e. e = KernelPageStart_as_address (kvr_start second_range))
           (KernelVirtualRange_end_exclusive first_range))
         (and_run (Done (kvr_page_count second_range = two
             \<and> KernelVirtualRange_byte_len second_range = PAGE_SIZE * 2
             \<and> reused_range = first_range))
           (map_run (\<lambda>n. n = DYNAMIC_MAPPING_PAGE_COUNT - 3) (remaining_pages al)))))))))))"

definition verify_kernel_virtual_range_exhaustion :: "bool run" where
  "verify_kernel_virtual_range_exhaustion =
     bind_run (kernel_page_start DYNAMIC_MAPPING_START) (\<lambda>start.
     bind_run (page_count 2) (\<lambda>two.
     bind_run (virtual_allocator_new start two) (\<lambda>r. case r of None \<Rightarrow> Done False | Some al \<Rightarrow>
     bind_run (page_count 1) (\<lambda>one.
     bind_run (allocate_pages al one) (\<lambda>(al, first).
     bind_run (allocate_pages al one) (\<lambda>(al, second).
     bind_run (allocate_pages al one) (\<lambda>(al, third).
     bind_run (kernel_page_start (DYNAMIC_MAPPING_START + PAGE_SIZE * 2)) (\<lambda>outside.
     bind_run (case KernelVirtualRange_new outside one of
         Some rng \<Rightarrow> map_run (\<lambda>(al, freed). (al, \<not> freed)) (free_pages al rng)
       | None \<Rightarrow> Done (al, True)) (\<lambda>(al, outside_range_rejected).
     and_run (Done (is_none (PageCount_new 0) \<and> first \<noteq> None \<and> second \<noteq> None \<and> is_none third
         \<and> is_none (KernelPageStart_new (VirtAddr (DYNAMIC_MAPPING_START + 1)))
         \<and> outside_range_rejected))
       (map_run (\<lambda>n. n = 0) (remaining_pages al)))))))))))"

end
