(* ===== verification/Virtual_Allocator_Proofs.thy ===== *)
theory Virtual_Allocator_Proofs
  imports Virtual_Allocator
begin

text \<open>
  Correctness of the kernel virtual range allocator. The free table is an instance of
  \<open>range_cells\<close> over page numbers; its abstract value is the set of free pages, and each
  operation is specified by what it does to that set.
\<close>

section \<open>Free ranges as cells over page numbers\<close>

definition vr_lo :: "VirtualFreeRange \<Rightarrow> nat" where
  "vr_lo r = unat (KernelPageStart_as_u64 (vfr_start r)) div 4096"

definition vr_hi :: "VirtualFreeRange \<Rightarrow> nat" where
  "vr_hi r = vr_lo r + unat (vfr_page_count r)"

definition vr_ok :: "VirtualFreeRange \<Rightarrow> bool" where
  "vr_ok r \<longleftrightarrow> kernel_page_ok (vfr_start r) \<and> 0 < unat (vfr_page_count r)
     \<and> unat (KernelPageStart_as_u64 (vfr_start r)) + unat (vfr_page_count r) * 4096 < 2 ^ 64"

lemma vr_lo_bytes: "vr_ok r \<Longrightarrow> unat (KernelPageStart_as_u64 (vfr_start r)) = 4096 * vr_lo r"
  by (simp add: vr_ok_def kernel_page_ok_def vr_lo_def)

lemma vr_hi_bound: "vr_ok r \<Longrightarrow> 4096 * vr_hi r < 2 ^ 64"
  using vr_lo_bytes [of r] by (simp add: vr_ok_def vr_hi_def)

lemma KernelPageStart_as_u64_inj: "KernelPageStart_as_u64 a = KernelPageStart_as_u64 b \<longleftrightarrow> a = b"
  by (metis KernelPageStart.expand VirtAddr.expand KernelPageStart_as_u64_def)

text \<open>Page starts are determined by their page number.\<close>

lemma kernel_page_ok_eq_iff:
  "kernel_page_ok a \<Longrightarrow> kernel_page_ok b \<Longrightarrow>
     a = b \<longleftrightarrow> unat (KernelPageStart_as_u64 a) div 4096 = unat (KernelPageStart_as_u64 b) div 4096"
  by (metis KernelPageStart_as_u64_inj dvd_div_mult_self kernel_page_ok_def word_unat_eq_iff)

lemma page_advance:
  assumes "kernel_page_ok p" "unat n = 4096 * k" "unat (KernelPageStart_as_u64 p) + 4096 * k < 2 ^ 64"
  shows "\<exists>q. KernelPageStart_checked_add p n = Some q \<and> kernel_page_ok q
     \<and> unat (KernelPageStart_as_u64 q) = unat (KernelPageStart_as_u64 p) + 4096 * k"
proof -
  let ?q = "KernelPageStart (VirtAddr (KernelPageStart_as_u64 p + n))"
  have sum: "unat (KernelPageStart_as_u64 p + n) = unat (KernelPageStart_as_u64 p) + 4096 * k"
    using assms(2,3) by (simp add: unat_word_ariths)
  then have "kernel_page_ok ?q"
    using assms(1) by (auto simp: kernel_page_ok_def KernelPageStart_as_u64_def word_le_nat_alt)
  with sum show ?thesis
    using assms by (intro exI [of _ ?q])
      (simp add: KernelPageStart_checked_add_def VirtAddr_checked_add_def checked_add_def
        KernelPageStart_new_Some_iff KernelPageStart_as_u64_def)
qed

lemma vr_end:
  assumes "vr_ok r"
  shows "\<exists>e. VirtualFreeRange_end_exclusive r = Some e \<and> kernel_page_ok e
     \<and> unat (KernelPageStart_as_u64 e) = 4096 * vr_hi r"
proof -
  have "unat (vfr_page_count r) * 4096 < 2 ^ 64" using assms by (simp add: vr_ok_def)
  then have "checked_mul (vfr_page_count r) PAGE_SIZE = Some (vfr_page_count r * 4096)"
    and "unat (vfr_page_count r * 4096) = 4096 * unat (vfr_page_count r)"
    by (simp_all add: checked_mul_def unat_word_ariths)
  then show ?thesis
    using assms page_advance [of "vfr_start r" "vfr_page_count r * 4096" "unat (vfr_page_count r)"]
      vr_lo_bytes [OF assms]
    by (auto simp: VirtualFreeRange_end_exclusive_def vr_ok_def vr_hi_def)
qed

lemma vfr_adj_iff:
  assumes "vr_ok a" "vr_ok b"
  shows "vfr_adj a b \<longleftrightarrow> vr_hi a = vr_lo b"
proof -
  obtain e where e: "VirtualFreeRange_end_exclusive a = Some e" "kernel_page_ok e"
    "unat (KernelPageStart_as_u64 e) = 4096 * vr_hi a" using vr_end [OF assms(1)] by blast
  have "kernel_page_ok (vfr_start b)" using assms(2) by (simp add: vr_ok_def)
  with e show ?thesis by (simp add: vfr_adj_def kernel_page_ok_eq_iff vr_lo_def)
qed

lemma vfr_join_pages:
  assumes "vr_ok a" "vr_ok b" "vfr_adj a b"
  shows "unat (vfr_page_count (vfr_join a b)) = unat (vfr_page_count a) + unat (vfr_page_count b)"
proof -
  have "vr_hi a = vr_lo b" using assms by (simp add: vfr_adj_iff)
  then have "4096 * (unat (vfr_page_count a) + unat (vfr_page_count b)) < 2 ^ 64"
    using vr_hi_bound [OF assms(2)] by (simp add: vr_hi_def)
  then show ?thesis by (simp add: vfr_join_def unat_saturating_add)
qed

interpretation virt: range_cells vr_ok vr_lo vr_hi "\<lambda>_. ()" vfr_adj vfr_join
proof unfold_locales
  fix a b assume ab: "vr_ok a" "vr_ok b"
  show "vr_lo a < vr_hi a" using ab by (simp add: vr_ok_def vr_hi_def)
  show "vfr_adj a b \<longleftrightarrow> () = () \<and> vr_hi a = vr_lo b" using ab by (simp add: vfr_adj_iff)
  assume adj: "vfr_adj a b"
  have hl: "vr_hi a = vr_lo b" using adj ab by (simp add: vfr_adj_iff)
  show lo: "vr_lo (vfr_join a b) = vr_lo a" by (simp add: vr_lo_def vfr_join_def)
  show "vr_hi (vfr_join a b) = vr_hi b"
    using hl vfr_join_pages [OF ab adj] lo by (simp add: vr_hi_def)
  show "vr_ok (vfr_join a b)"
    using ab vfr_join_pages [OF ab adj] vr_hi_bound [OF ab(2)] vr_lo_bytes [OF ab(1)] hl
    by (auto simp: vr_ok_def vfr_join_def vr_hi_def)
qed simp_all

section \<open>Invariant and abstraction\<close>

text \<open>
  A canonical table lists its ranges in address order with a gap between any two, so no two
  neighbours could be merged.
\<close>

definition gapped :: "VirtualFreeRange \<Rightarrow> VirtualFreeRange \<Rightarrow> bool" where
  "gapped a b \<longleftrightarrow> vr_hi a < vr_lo b"

definition vcanon :: "VirtualFreeRange list \<Rightarrow> bool" where
  "vcanon xs \<longleftrightarrow> (\<forall>r\<in>set xs. vr_ok r) \<and> sorted_wrt gapped xs"

abbreviation vsep :: "VirtualFreeRange \<Rightarrow> VirtualFreeRange \<Rightarrow> bool" where
  "vsep \<equiv> sep vr_lo vr_hi (\<lambda>_. ()) (\<lambda>_ _. {})"

abbreviation vpages :: "VirtualFreeRange list \<Rightarrow> nat set" where
  "vpages xs \<equiv> cover vr_lo vr_hi (\<lambda>_. ()) xs ()"

lemma vcanon_cells:
  assumes "vcanon xs"
  shows "\<forall>r\<in>set xs. vr_ok r" "ordered vr_lo xs" "sorted_wrt vsep xs"
    "successively (\<lambda>a b. \<not> vfr_adj a b) xs"
proof -
  have gap: "sorted_wrt gapped xs" using assms by (simp add: vcanon_def)
  show ok: "\<forall>r\<in>set xs. vr_ok r" using assms by (simp add: vcanon_def)
  show "ordered vr_lo xs" unfolding ordered_def
    using gap by (rule sorted_wrt_mono_rel [rotated]) (use ok virt.nonempty in \<open>force simp: gapped_def\<close>)
  show "sorted_wrt vsep xs"
    using gap by (rule sorted_wrt_mono_rel [rotated]) (auto simp: gapped_def sep_def)
  have "sorted_wrt (\<lambda>a b. \<not> vfr_adj a b) xs"
    using gap by (rule sorted_wrt_mono_rel [rotated]) (use ok in \<open>auto simp: gapped_def vfr_adj_iff\<close>)
  then show "successively (\<lambda>a b. \<not> vfr_adj a b) xs"
    by (induction xs) (auto simp: successively_Cons)
qed

lemma cells_vcanon:
  assumes "\<forall>r\<in>set xs. vr_ok r" "ordered vr_lo xs" "sorted_wrt vsep xs"
    "successively (\<lambda>a b. \<not> vfr_adj a b) xs"
  shows "vcanon xs"
proof -
  have "sorted_wrt gapped xs"
    using assms
  proof (induction xs)
    case (Cons x xs)
    then have IH: "sorted_wrt gapped xs" by (auto simp: ordered_def successively_Cons)
    have "gapped x y" if "y \<in> set xs" for y
    proof (cases xs)
      case (Cons z zs)
      have "vr_hi x \<le> vr_lo z" "\<not> vfr_adj x z" "vr_ok x" "vr_ok z"
        using Cons.prems Cons virt.sep_hi_le [of "\<lambda>_ _. {}" x z] by (auto simp: ordered_def)
      then have "gapped x z" by (simp add: gapped_def vfr_adj_iff)
      moreover have "y = z \<or> gapped z y" using IH that Cons by auto
      ultimately show ?thesis using virt.nonempty [of z] \<open>vr_ok z\<close> by (auto simp: gapped_def)
    qed (use that in simp)
    with IH show ?case by simp
  qed simp
  with assms(1) show ?thesis by (simp add: vcanon_def)
qed

definition vlive :: "KernelVirtualRangeAllocator \<Rightarrow> VirtualFreeRange list" where
  "vlive s = take (free_count s) (free_ranges s)"

definition vtable :: "KernelVirtualRangeAllocator \<Rightarrow> bool" where
  "vtable s \<longleftrightarrow> length (free_ranges s) = MAX_FREE_RANGES \<and> free_count s \<le> MAX_FREE_RANGES"

text \<open>The pages of a kernel range, and the validity that its constructor establishes.\<close>

definition kr_pages :: "KernelVirtualRange \<Rightarrow> nat set" where
  "kr_pages r = (let f = unat (KernelPageStart_as_u64 (kvr_start r)) div 4096
     in {f..<f + unat (PageCount_as_u64 (kvr_page_count r))})"

definition kr_ok :: "KernelVirtualRange \<Rightarrow> bool" where
  "kr_ok r \<longleftrightarrow> kernel_page_ok (kvr_start r) \<and> page_count_ok (kvr_page_count r)
     \<and> unat (KernelPageStart_as_u64 (kvr_start r)) + unat (PageCount_as_u64 (kvr_page_count r)) * 4096 < 2 ^ 64"

definition managed :: "KernelVirtualRangeAllocator \<Rightarrow> KernelVirtualRange" where
  "managed s = \<lparr>kvr_start = managed_start s, kvr_page_count = managed_page_count s\<rparr>"

definition va_inv :: "KernelVirtualRangeAllocator \<Rightarrow> bool" where
  "va_inv s \<longleftrightarrow> vtable s \<and> vcanon (vlive s) \<and> kr_ok (managed s) \<and> vpages (vlive s) \<subseteq> kr_pages (managed s)"

definition va_free :: "KernelVirtualRangeAllocator \<Rightarrow> nat set" where
  "va_free s = vpages (vlive s)"

end
