(* ===== verification/Virtual_Allocator_Spec.thy ===== *)
theory Virtual_Allocator_Spec
  imports Virtual_Allocator_Proofs
begin

text \<open>
  What the operations of the kernel virtual range allocator do to its set of free pages, the
  page total, and the evaluation of its two self-checks.
\<close>

section \<open>Construction\<close>

abbreviation kr_first :: "KernelVirtualRange \<Rightarrow> nat" where
  "kr_first r \<equiv> unat (KernelPageStart_as_u64 (kvr_start r)) div 4096"

abbreviation kr_last :: "KernelVirtualRange \<Rightarrow> nat" where
  "kr_last r \<equiv> kr_first r + unat (PageCount_as_u64 (kvr_page_count r))"

lemma kr_new:
  assumes "kernel_page_ok start" "page_count_ok count"
  shows "KernelVirtualRange_new start count = Some r \<longleftrightarrow>
     r = \<lparr>kvr_start = start, kvr_page_count = count\<rparr> \<and> kr_ok r"
  using assms PageCount_byte_len_unat [OF assms(2)]
  by (auto simp: KernelVirtualRange_new_def kr_ok_def checked_add_def split: option.splits)

lemma empty_range: "VirtualFreeRange_empty
   = Done \<lparr>vfr_start = KernelPageStart (VirtAddr DYNAMIC_MAPPING_START), vfr_page_count = 0\<rparr>"
  by (simp add: VirtualFreeRange_empty_def empty_kernel_page_start_def kernel_page_start_def
      KernelPageStart_new_def is_multiple_of_def)

lemma take_update:
  assumes "i < n" "n \<le> length arr"
  shows "take n (arr[i := x]) = take i (take n arr) @ x # drop (Suc i) (take n arr)"
proof -
  have "take n (arr[i := x]) = (take n arr)[i := x]" by (simp add: take_update_swap)
  also have "\<dots> = take i (take n arr) @ x # drop (Suc i) (take n arr)"
    using assms by (intro upd_conv_take_nth_drop) simp
  finally show ?thesis .
qed

lemma take_first_update: "xs \<noteq> [] \<Longrightarrow> take (Suc 0) (xs[0 := x]) = [x]"
  by (cases xs) auto

lemma new_runs:
  assumes "kernel_page_ok start" "page_count_ok count"
  shows "runs (virtual_allocator_new start count) (\<lambda>r. case r of
       None \<Rightarrow> \<not> kr_ok \<lparr>kvr_start = start, kvr_page_count = count\<rparr>
     | Some s \<Rightarrow> va_inv s \<and> managed s = \<lparr>kvr_start = start, kvr_page_count = count\<rparr> \<and> free_count s = 1
         \<and> va_free s = kr_pages (managed s))"
proof (cases "KernelVirtualRange_new start count")
  case None
  then show ?thesis using kr_new [OF assms] by (auto simp: virtual_allocator_new_def)
next
  case (Some r)
  let ?c = "\<lparr>vfr_start = start, vfr_page_count = PageCount_as_u64 count\<rparr>"
  have r: "kr_ok \<lparr>kvr_start = start, kvr_page_count = count\<rparr>" using kr_new [OF assms] Some by auto
  then have "vr_ok ?c" by (simp add: kr_ok_def vr_ok_def page_count_ok_def unat_gt_0)
  with r Some show ?thesis
    by (simp add: virtual_allocator_new_def empty_range va_inv_def va_free_def managed_def vtable_def
        vlive_def vcanon_def kr_pages_def vr_lo_def vr_hi_def Let_def take_first_update)
qed

lemma vlive_length: "vtable s \<Longrightarrow> length (vlive s) = free_count s"
  by (simp add: vlive_def vtable_def)

section \<open>Allocation\<close>

abbreviation large :: "nat \<Rightarrow> VirtualFreeRange \<Rightarrow> bool" where
  "large n r \<equiv> n \<le> unat (vfr_page_count r)"

lemma allocate_loop_eq:
  assumes "vtable s" "index \<le> free_count s"
  shows "allocate_pages_loop s count index
     = (case find_index (large (unat (PageCount_as_u64 count))) (drop index (vlive s)) of
          None \<Rightarrow> Done (s, None)
        | Some i \<Rightarrow> take_from_range s (index + i) (vlive s ! (index + i)) count)"
  using assms(2)
proof (induction "free_count s - index" arbitrary: index)
  case 0
  then show ?case by (subst allocate_pages_loop.simps) (simp add: vlive_def)
next
  case (Suc k)
  then have i: "index < free_count s" "index < length (vlive s)" "index < length (free_ranges s)"
    using assms(1) by (auto simp: vlive_def vtable_def)
  then have g: "vlive s ! index = free_ranges s ! index" by (simp add: vlive_def)
  show ?case
    using i g Suc(1) [of "Suc index"] Suc(2)
    by (subst allocate_pages_loop.simps)
      (auto simp: find_index_drop word_less_nat_alt split: option.splits)
qed

text \<open>What is left of a free range after \<open>n\<close> pages were taken from its start.\<close>

lemma take_runs:
  assumes s: "vtable s" and i: "i < length (vlive s)" and ok: "vr_ok (vlive s ! i)" "page_count_ok count"
    and big: "large (unat (PageCount_as_u64 count)) (vlive s ! i)"
  shows "runs (take_from_range s i (vlive s ! i) count) (\<lambda>(s', r). \<exists>ts.
     (\<forall>t\<in>set ts. vr_ok t \<and> vr_lo t = vr_lo (vlive s ! i) + unat (PageCount_as_u64 count)
        \<and> vr_hi t = vr_hi (vlive s ! i)) \<and> length ts \<le> 1
     \<and> (ts = [] \<longleftrightarrow> unat (vfr_page_count (vlive s ! i)) = unat (PageCount_as_u64 count))
     \<and> vtable s' \<and> managed s' = managed s \<and> vlive s' = take i (vlive s) @ ts @ drop (Suc i) (vlive s)
     \<and> r = Some \<lparr>kvr_start = vfr_start (vlive s ! i), kvr_page_count = count\<rparr>
     \<and> kr_ok \<lparr>kvr_start = vfr_start (vlive s ! i), kvr_page_count = count\<rparr>)"
proof -
  let ?t = "vlive s ! i" and ?n = "unat (PageCount_as_u64 count)"
  let ?r = "\<lparr>kvr_start = vfr_start ?t, kvr_page_count = count\<rparr>"
  have t: "kernel_page_ok (vfr_start ?t)" "4096 * vr_hi ?t < 2 ^ 64"
    "unat (KernelPageStart_as_u64 (vfr_start ?t)) = 4096 * vr_lo ?t"
    using ok vr_hi_bound vr_lo_bytes by (simp_all add: vr_ok_def)
  then have r: "kr_ok ?r" using ok(2) big by (simp add: kr_ok_def vr_hi_def)
  then have new: "KernelVirtualRange_new (vfr_start ?t) count = Some ?r" using kr_new [OF t(1) ok(2)] by blast
  have il: "i < free_count s" "free_count s \<le> length (free_ranges s)" "i < length (free_ranges s)"
    using s i by (auto simp: vlive_def vtable_def)
  show ?thesis
  proof (cases "vfr_page_count ?t = PageCount_as_u64 count")
    case True
    obtain arr where arr: "shift_down i (free_count s) (free_ranges s) = Done arr" "length arr = length (free_ranges s)"
      "take (free_count s - 1) arr = take i (vlive s) @ drop (Suc i) (vlive s)"
      using shift_down_remove [OF il(1,2)] by (auto simp: vlive_def)
    then show ?thesis
      using True new r s il
      by (auto simp: take_from_range_def remove_free_range_at_def vtable_def managed_def vlive_def)
  next
    case False
    then have lt: "?n < unat (vfr_page_count ?t)" using big by (metis le_neq_implies_less word_unat_eq_iff)
    obtain q where q: "KernelPageStart_checked_add (vfr_start ?t) (PageCount_byte_len count) = Some q"
      "kernel_page_ok q" "unat (KernelPageStart_as_u64 q) = 4096 * (vr_lo ?t + ?n)"
      using page_advance [OF t(1), of "PageCount_byte_len count" ?n] PageCount_byte_len_unat [OF ok(2)] t lt
      by (auto simp: vr_hi_def algebra_simps)
    let ?u = "\<lparr>vfr_start = q, vfr_page_count = vfr_page_count ?t - PageCount_as_u64 count\<rparr>"
    have sub: "checked_sub (vfr_page_count ?t) (PageCount_as_u64 count) = Some (vfr_page_count ?t - PageCount_as_u64 count)"
      "unat (vfr_page_count ?t - PageCount_as_u64 count) = unat (vfr_page_count ?t) - ?n"
      using lt by (simp_all add: checked_sub_def unat_sub word_le_nat_alt)
    have u: "vr_ok ?u" "vr_lo ?u = vr_lo ?t + ?n" "vr_hi ?u = vr_hi ?t"
      using q sub(2) lt t(2) by (auto simp: vr_ok_def vr_lo_def vr_hi_def)
    have live: "take (free_count s) ((free_ranges s)[i := ?u]) = take i (vlive s) @ ?u # drop (Suc i) (vlive s)"
      using take_update [OF il(1,2)] by (simp add: vlive_def)
    let ?s = "s\<lparr>free_ranges := (free_ranges s)[i := ?u]\<rparr>"
    have "take_from_range s i ?t count = Done (?s, Some ?r)"
      using False new q(1) sub(1) il by (simp add: take_from_range_def)
    moreover have "vtable ?s" "managed ?s = managed s" using s by (simp_all add: vtable_def managed_def)
    moreover have "vlive ?s = take i (vlive s) @ [?u] @ drop (Suc i) (vlive s)" using live by (simp add: vlive_def)
    ultimately show ?thesis using r u lt by (simp only: runs.simps prod.case) (intro exI [of _ "[?u]"], simp)
  qed
qed

lemma taken_canon:
  assumes "vcanon (us @ t # vs)" "length ts \<le> 1" "vr_lo t + n \<le> vr_hi t"
    and ts: "\<forall>u\<in>set ts. vr_ok u \<and> vr_lo u = vr_lo t + n \<and> vr_hi u = vr_hi t" "ts = [] \<longleftrightarrow> vr_hi t = vr_lo t + n"
  shows "vcanon (us @ ts @ vs)" "vpages (us @ ts @ vs) = vpages (us @ t # vs) - {vr_lo t..<vr_lo t + n}"
proof -
  have ok: "\<forall>r\<in>set us. vr_ok r" "\<forall>r\<in>set vs. vr_ok r" "vr_ok t"
    and srt: "sorted_wrt gapped us" "sorted_wrt gapped vs"
    and gap: "x \<in> set us \<Longrightarrow> vr_hi x < vr_lo t" "y \<in> set vs \<Longrightarrow> vr_hi t < vr_lo y"
      "x \<in> set us \<Longrightarrow> y \<in> set vs \<Longrightarrow> gapped x y" for x y
    using assms(1) by (simp_all add: vcanon_def sorted_wrt_append gapped_def)
  consider "ts = []" | u where "ts = [u]" using assms(2) by (cases ts) auto
  then show "vcanon (us @ ts @ vs)"
  proof cases
    case 1
    then show ?thesis using ok srt gap(3) by (auto simp: vcanon_def sorted_wrt_append)
  next
    case 2
    then show ?thesis using ok srt gap ts(1)
      by (fastforce simp: vcanon_def sorted_wrt_append gapped_def)
  qed
  have out: "p \<notin> vpages us" "p \<notin> vpages vs" if "vr_lo t \<le> p" "p < vr_hi t" for p
    using that gap(1,2) by (fastforce simp: in_cover_iff)+
  have "vpages ts = {vr_lo t + n..<vr_hi t}" using ts assms(2) by (cases ts) auto
  then show "vpages (us @ ts @ vs) = vpages (us @ t # vs) - {vr_lo t..<vr_lo t + n}"
    using out assms(3) by (auto simp: not_le)
qed

lemma allocate_pages_runs:
  assumes "va_inv s" "page_count_ok count"
  shows "runs (allocate_pages s count) (\<lambda>(s', r). va_inv s' \<and> managed s' = managed s
     \<and> free_count s' \<le> free_count s \<and>
     (case r of
        None \<Rightarrow> s' = s \<and> (\<forall>g. \<not> {g..<g + unat (PageCount_as_u64 count)} \<subseteq> va_free s)
      | Some rng \<Rightarrow> kr_ok rng \<and> kvr_page_count rng = count \<and> kr_pages rng \<subseteq> va_free s
          \<and> va_free s' = va_free s - kr_pages rng
          \<and> (\<forall>g. {g..<g + unat (PageCount_as_u64 count)} \<subseteq> va_free s \<longrightarrow> kr_first rng \<le> g)))"
proof -
  let ?n = "unat (PageCount_as_u64 count)" and ?xs = "vlive s"
  have s: "vtable s" "vcanon ?xs" using assms(1) by (auto simp: va_inv_def)
  have n: "0 < ?n" using assms(2) by (simp add: page_count_ok_def unat_gt_0)
  note loop = allocate_loop_eq [OF s(1), of 0 count, simplified]
  have cellE: "\<exists>i<length ?xs. large ?n (?xs ! i) \<and> vr_lo (?xs ! i) \<le> g" if run: "{g..<g + ?n} \<subseteq> va_free s" for g
  proof -
    from virt.run_in_one_cell [OF vcanon_cells(1,3,2,4) [OF s(2)] _ _ run [unfolded va_free_def]] n
    obtain c where "c \<in> set ?xs" "vr_lo c \<le> g" "g + ?n \<le> vr_hi c" by auto
    then show ?thesis by (fastforce simp: in_set_conv_nth vr_hi_def)
  qed
  show ?thesis
  proof (cases "find_index (large ?n) ?xs")
    case None
    then have "\<not> {g..<g + ?n} \<subseteq> va_free s" for g
      using cellE [of g] by (auto simp: find_index_None_iff)
    with None assms(1) show ?thesis by (simp add: allocate_pages_def loop)
  next
    case (Some i)
    let ?t = "?xs ! i"
    have i: "i < length ?xs" "large ?n ?t" and first: "\<forall>j<i. \<not> large ?n (?xs ! j)"
      using find_index_SomeD [OF Some] by auto
    then have ok: "vr_ok ?t" using s(2) by (simp add: vcanon_def)
    have xs: "?xs = take i ?xs @ ?t # drop (Suc i) ?xs" using i(1) by (rule id_take_nth_drop)
    have F: "kr_pages \<lparr>kvr_start = vfr_start ?t, kvr_page_count = count\<rparr> = {vr_lo ?t..<vr_lo ?t + ?n}"
      by (simp add: kr_pages_def vr_lo_def Let_def)
    have "{vr_lo ?t..<vr_lo ?t + ?n} \<subseteq> {vr_lo ?t..<vr_hi ?t}" using i(2) by (auto simp: vr_hi_def)
    also have "\<dots> \<subseteq> va_free s" unfolding va_free_def using i(1) by (intro cover_subset) auto
    finally have sub: "{vr_lo ?t..<vr_lo ?t + ?n} \<subseteq> va_free s" .
    have c: "vcanon (take i ?xs @ ?t # drop (Suc i) ?xs)" "vr_lo ?t + ?n \<le> vr_hi ?t"
      using s(2) xs i(2) by (simp_all add: vr_hi_def)
    have ts: "vcanon (take i ?xs @ ts @ drop (Suc i) ?xs)"
        "vpages (take i ?xs @ ts @ drop (Suc i) ?xs) = va_free s - {vr_lo ?t..<vr_lo ?t + ?n}"
      if "\<forall>u\<in>set ts. vr_ok u \<and> vr_lo u = vr_lo ?t + ?n \<and> vr_hi u = vr_hi ?t" "length ts \<le> 1"
        "ts = [] \<longleftrightarrow> unat (vfr_page_count ?t) = ?n" for ts
      using taken_canon [OF c(1) that(2) c(2) that(1)] that(3) xs by (simp_all add: va_free_def vr_hi_def)
    have least: "vr_lo ?t \<le> g" if run: "{g..<g + ?n} \<subseteq> va_free s" for g
    proof -
      obtain j where j: "j < length ?xs" "large ?n (?xs ! j)" "vr_lo (?xs ! j) \<le> g" using cellE [OF run] by blast
      then have "i \<le> j" using first by (meson not_less)
      then have "vr_lo ?t \<le> vr_lo (?xs ! j)"
        using vcanon_cells(2) [OF s(2)] j(1)
        by (cases "i = j") (auto simp: ordered_def sorted_wrt_iff_nth_less)
      with j(3) show ?thesis by simp
    qed
    have inside: "va_free s \<subseteq> kr_pages (managed s)" "kr_ok (managed s)"
      using assms(1) by (simp_all add: va_inv_def va_free_def)
    show ?thesis
      unfolding allocate_pages_def loop Some option.case add_0
    proof (rule runs_conseq [OF take_runs [OF s(1) i(1) ok assms(2) i(2)]], clarify)
      fix s' ts
      assume facts: "\<forall>u\<in>set ts. vr_ok u \<and> vr_lo u = vr_lo ?t + ?n \<and> vr_hi u = vr_hi ?t" "length ts \<le> 1"
        "ts = [] \<longleftrightarrow> unat (vfr_page_count ?t) = ?n"
        and s': "vtable s'" "managed s' = managed s" "vlive s' = take i ?xs @ ts @ drop (Suc i) ?xs"
        and kr: "kr_ok \<lparr>kvr_start = vfr_start ?t, kvr_page_count = count\<rparr>"
      have free: "va_free s' = va_free s - {vr_lo ?t..<vr_lo ?t + ?n}"
        using ts(2) [OF facts] s'(3) by (simp add: va_free_def)
      then have "va_inv s'" using ts(1) [OF facts] s' inside by (auto simp: va_inv_def va_free_def)
      moreover have "free_count s' \<le> free_count s"
      proof -
        have "free_count s' = length (vlive s')" "free_count s = length ?xs"
          using s'(1) s(1) by (simp_all add: vlive_length)
        with s'(3) facts(2) i(1) show ?thesis by simp
      qed
      ultimately show "va_inv s' \<and> managed s' = managed s \<and> free_count s' \<le> free_count s \<and>
         (case Some \<lparr>kvr_start = vfr_start ?t, kvr_page_count = count\<rparr> of
            None \<Rightarrow> s' = s \<and> (\<forall>g. \<not> {g..<g + ?n} \<subseteq> va_free s)
          | Some rng \<Rightarrow> kr_ok rng \<and> kvr_page_count rng = count \<and> kr_pages rng \<subseteq> va_free s
              \<and> va_free s' = va_free s - kr_pages rng
              \<and> (\<forall>g. {g..<g + ?n} \<subseteq> va_free s \<longrightarrow> kr_first rng \<le> g))"
        using free kr sub s'(2) least by (simp add: F vr_lo_def)
    qed
  qed
qed

section \<open>Release\<close>

lemma kr_first_bytes: "kr_ok r \<Longrightarrow> unat (KernelPageStart_as_u64 (kvr_start r)) = 4096 * kr_first r"
  by (simp add: kr_ok_def kernel_page_ok_def)

lemma page_le_iff: "unat a = 4096 * m \<Longrightarrow> unat b = 4096 * k \<Longrightarrow> (a::u64) \<le> b \<longleftrightarrow> m \<le> k"
  by (simp add: word_le_nat_alt)

lemma page_less_iff: "unat a = 4096 * m \<Longrightarrow> unat b = 4096 * k \<Longrightarrow> (a::u64) < b \<longleftrightarrow> m < k"
  by (simp add: word_less_nat_alt)

lemma managed_sel [simp]: "kvr_start (managed s) = managed_start s" "kvr_page_count (managed s) = managed_page_count s"
  by (simp_all add: managed_def)

lemma kr_first_less: "kr_ok r \<Longrightarrow> kr_first r < kr_last r"
  by (simp add: kr_ok_def page_count_ok_def unat_gt_0)

lemma kr_end:
  assumes "kr_ok r"
  shows "\<exists>e. KernelVirtualRange_end_exclusive r = Done e \<and> unat (VirtAddr_as_u64 e) = 4096 * kr_last r"
proof -
  have n: "unat (PageCount_byte_len (kvr_page_count r)) = 4096 * unat (PageCount_as_u64 (kvr_page_count r))"
    using assms by (simp add: kr_ok_def PageCount_byte_len_unat)
  have "unat (KernelPageStart_as_u64 (kvr_start r)) + 4096 * unat (PageCount_as_u64 (kvr_page_count r)) < 2 ^ 64"
    using assms by (simp add: kr_ok_def)
  with n show ?thesis
    using kr_first_bytes [OF assms]
    by (simp add: KernelVirtualRange_end_exclusive_def KernelVirtualRange_byte_len_def VirtAddr_checked_add_def
        checked_add_def KernelPageStart_as_u64_def unat_word_ariths)
qed

lemma contains_runs:
  assumes "kr_ok rng" "kr_ok (managed s)"
  shows "contains_range s rng = Done (kr_first (managed s) \<le> kr_first rng \<and> kr_last rng \<le> kr_last (managed s))"
proof -
  obtain e where e: "KernelVirtualRange_end_exclusive rng = Done e" "unat (VirtAddr_as_u64 e) = 4096 * kr_last rng"
    using kr_end [OF assms(1)] by blast
  have m: "kernel_page_ok (managed_start s)"
    "unat (PageCount_byte_len (managed_page_count s)) = 4096 * unat (PageCount_as_u64 (managed_page_count s))"
    "unat (KernelPageStart_as_u64 (managed_start s)) + 4096 * unat (PageCount_as_u64 (managed_page_count s)) < 2 ^ 64"
    using assms(2) by (simp_all add: kr_ok_def managed_def PageCount_byte_len_unat)
  obtain q where q: "KernelPageStart_checked_add (managed_start s) (PageCount_byte_len (managed_page_count s)) = Some q"
    "unat (KernelPageStart_as_u64 q) = 4096 * kr_last (managed s)"
    using page_advance [OF m] kr_first_bytes [OF assms(2)] by auto
  have "KernelPageStart_as_u64 (managed_start s) \<le> KernelPageStart_as_u64 (kvr_start rng)
      \<longleftrightarrow> kr_first (managed s) \<le> kr_first rng"
    using page_le_iff [OF kr_first_bytes [OF assms(2)] kr_first_bytes [OF assms(1)]] by simp
  then show ?thesis
    unfolding contains_range_def q(1) option.case e(1) map_run_simps page_le_iff [OF e(2) q(2)]
    by (simp add: and_run_def)
qed

lemma last_takeWhile_nth:
  assumes "n = length (takeWhile p xs)" "0 < n"
  shows "last (takeWhile p xs) = xs ! (n - 1)"
  using assms by (metis One_nat_def diff_less last_conv_nth length_greater_0_conv takeWhile_nth zero_less_one)

lemma clear_runs:
  assumes "vtable s" "vcanon (vlive s)" "kr_ok rng"
    and us: "us = takeWhile (\<lambda>r. vr_lo r < kr_first rng) (vlive s)"
    and vs: "vs = dropWhile (\<lambda>r. vr_lo r < kr_first rng) (vlive s)"
  shows "clear_of_previous s rng (length us) = Done (\<forall>r\<in>set us. vr_hi r \<le> kr_first rng)"
    and "clear_of_next s rng (length us) = Done (\<forall>r\<in>set vs. kr_last rng \<le> vr_lo r)"
proof -
  have live: "us @ vs = vlive s" unfolding us vs by (rule takeWhile_dropWhile_id)
  then have len: "length us + length vs = free_count s" "free_count s \<le> length (free_ranges s)"
    using assms(1) by (auto simp: vlive_def vtable_def min_def dest: arg_cong [of _ _ length])
  have get: "free_ranges s ! i = (us @ vs) ! i" if "i < free_count s" for i
    using that unfolding live by (simp add: vlive_def)
  have c: "\<forall>r\<in>set us. vr_ok r" "\<forall>r\<in>set vs. vr_ok r" "sorted_wrt gapped us" "sorted_wrt gapped vs"
    using assms(2) unfolding live [symmetric] by (auto simp: vcanon_def sorted_wrt_append)
  show "clear_of_previous s rng (length us) = Done (\<forall>r\<in>set us. vr_hi r \<le> kr_first rng)"
  proof (cases us rule: rev_cases)
    case (snoc ys y)
    obtain e where e: "VirtualFreeRange_end_exclusive y = Some e" "unat (KernelPageStart_as_u64 e) = 4096 * vr_hi y"
      using vr_end [of y] c(1) snoc by auto
    have "\<forall>r\<in>set ys. vr_hi r < vr_lo y" "vr_lo y < vr_hi y"
      using c(1,3) snoc virt.nonempty by (auto simp: sorted_wrt_append gapped_def)
    then have "(\<forall>r\<in>set us. vr_hi r \<le> kr_first rng) \<longleftrightarrow> vr_hi y \<le> kr_first rng"
      using snoc by fastforce
    with e show ?thesis
      using snoc len get [of "length ys"] page_le_iff [OF e(2) kr_first_bytes [OF assms(3)]]
      by (simp add: clear_of_previous_def nth_append)
  qed (simp add: clear_of_previous_def)
  show "clear_of_next s rng (length us) = Done (\<forall>r\<in>set vs. kr_last rng \<le> vr_lo r)"
  proof (cases vs)
    case Nil
    then show ?thesis using len by (simp add: clear_of_next_def)
  next
    case (Cons y ys)
    obtain e where e: "KernelVirtualRange_end_exclusive rng = Done e" "unat (VirtAddr_as_u64 e) = 4096 * kr_last rng"
      using kr_end [OF assms(3)] by blast
    have "\<forall>r\<in>set ys. vr_hi y < vr_lo r" "vr_lo y < vr_hi y"
      using c(2,4) Cons virt.nonempty by (auto simp: gapped_def)
    then have "(\<forall>r\<in>set vs. kr_last rng \<le> vr_lo r) \<longleftrightarrow> kr_last rng \<le> vr_lo y"
      using Cons by fastforce
    with e show ?thesis
      using Cons len get [of "length us"] page_le_iff [OF e(2) vr_lo_bytes [of y]] c(2)
      by (simp add: clear_of_next_def nth_append)
  qed
qed

lemma dropWhile_ge:
  "ordered lo xs \<Longrightarrow> y \<in> set (dropWhile (\<lambda>r. lo r < k) xs) \<Longrightarrow> (k::nat) \<le> lo y"
  by (induction xs) (auto simp: ordered_def split: if_splits)

definition returned :: "KernelVirtualRange \<Rightarrow> VirtualFreeRange" where
  "returned rng = \<lparr>vfr_start = kvr_start rng, vfr_page_count = PageCount_as_u64 (kvr_page_count rng)\<rparr>"

lemma returned_facts:
  "kr_ok rng \<Longrightarrow> vr_ok (returned rng)" "vr_lo (returned rng) = kr_first rng" "vr_hi (returned rng) = kr_last rng"
  by (simp_all add: returned_def vr_ok_def kr_ok_def page_count_ok_def vr_lo_def vr_hi_def unat_gt_0)

lemma insert_canon:
  assumes "vcanon (us @ vs)" "kr_ok rng"
    and us: "us = takeWhile (\<lambda>r. vr_lo r < kr_first rng) (us @ vs)"
    and vs: "vs = dropWhile (\<lambda>r. vr_lo r < kr_first rng) (us @ vs)"
    and disj: "kr_pages rng \<inter> vpages (us @ vs) = {}"
  shows "vcanon (coalesce vfr_adj vfr_join (us @ returned rng # vs))"
    and "vpages (coalesce vfr_adj vfr_join (us @ returned rng # vs)) = vpages (us @ vs) \<union> kr_pages rng"
proof -
  note rf = returned_facts(1) [OF assms(2)] returned_facts(2,3) [of rng]
  note c = vcanon_cells [OF assms(1)]
  have ok: "\<forall>r\<in>set (us @ returned rng # vs). vr_ok r" using c(1) rf(1) by auto
  have "ordered vr_lo (us @ returned rng # vs)"
    using virt.insert_ordered [OF c(2), of "returned rng"] us vs unfolding rf(2) by simp
  moreover have "sorted_wrt vsep (us @ returned rng # vs)"
  proof (rule virt.insert_sep [OF c(3)])
    fix y p assume "y \<in> set us \<union> set vs" "vr_lo y \<le> p" "p < vr_hi y"
      "vr_lo (returned rng) \<le> p" "p < vr_hi (returned rng)"
    then have "p \<in> kr_pages rng \<inter> vpages (us @ vs)"
      unfolding rf by (auto simp: kr_pages_def in_cover_iff Let_def simp del: cover_simps)
    with disj show "p \<in> {} \<and> p \<in> {}" by blast
  qed
  ultimately show "vcanon (coalesce vfr_adj vfr_join (us @ returned rng # vs))"
    using ok by (intro cells_vcanon virt.coalesce_ok virt.coalesce_ordered virt.coalesce_sep virt.coalesce_no_adj)
  show "vpages (coalesce vfr_adj vfr_join (us @ returned rng # vs)) = vpages (us @ vs) \<union> kr_pages rng"
    unfolding virt.coalesce_cover [OF ok] by (auto simp: kr_pages_def rf Let_def)
qed

lemma disjoint_clear:
  assumes "vcanon (us @ vs)" "kr_ok rng"
    and us: "\<forall>r\<in>set us. vr_lo r < kr_first rng" and vs: "\<forall>r\<in>set vs. kr_first rng \<le> vr_lo r"
  shows "kr_pages rng \<inter> vpages (us @ vs) = {} \<longleftrightarrow>
     (\<forall>r\<in>set us. vr_hi r \<le> kr_first rng) \<and> (\<forall>r\<in>set vs. kr_last rng \<le> vr_lo r)"
proof
  have ok: "\<forall>r\<in>set (us @ vs). vr_lo r < vr_hi r" using vcanon_cells(1) [OF assms(1)] virt.nonempty by blast
  assume d: "kr_pages rng \<inter> vpages (us @ vs) = {}"
  have no: "\<not> (kr_first rng \<le> p \<and> p < kr_last rng)" if "r \<in> set (us @ vs)" "vr_lo r \<le> p" "p < vr_hi r" for r p
  proof -
    have "p \<in> vpages (us @ vs)" using that unfolding in_cover_iff by blast
    with d show ?thesis by (auto simp: kr_pages_def Let_def simp del: cover_simps)
  qed
  have "vr_hi r \<le> kr_first rng" if "r \<in> set us" for r
    using no [of r "kr_first rng"] that us kr_first_less [OF assms(2)] by fastforce
  moreover have "kr_last rng \<le> vr_lo r" if "r \<in> set vs" for r
    using no [of r "vr_lo r"] that vs ok by fastforce
  ultimately show "(\<forall>r\<in>set us. vr_hi r \<le> kr_first rng) \<and> (\<forall>r\<in>set vs. kr_last rng \<le> vr_lo r)" by blast
next
  assume "(\<forall>r\<in>set us. vr_hi r \<le> kr_first rng) \<and> (\<forall>r\<in>set vs. kr_last rng \<le> vr_lo r)"
  then show "kr_pages rng \<inter> vpages (us @ vs) = {}"
    by (fastforce simp: kr_pages_def Let_def in_cover_iff simp del: cover_simps)
qed

lemma kr_pages_subset:
  "kr_ok a \<Longrightarrow> kr_pages a \<subseteq> kr_pages b \<longleftrightarrow> kr_first b \<le> kr_first a \<and> kr_last a \<le> kr_last b"
  using kr_first_less [of a] unfolding kr_pages_def Let_def by (simp add: atLeastLessThan_subset_iff)

lemma vinsert_runs:
  assumes "vtable s" "free_count s < MAX_FREE_RANGES" "us @ vs = vlive s"
  shows "runs (bind_run (shift_up (length us) (free_count s) (free_ranges s)) (\<lambda>arr.
      bind_run (array_set arr (length us) x) (\<lambda>arr.
        map_run (\<lambda>s. (s, True)) (merge_adjacent_free_ranges
          (s\<lparr>free_ranges := arr, free_count := free_count s + 1\<rparr>)))))
    (\<lambda>(s', b). b \<and> vtable s' \<and> managed s' = managed s \<and> vlive s' = coalesce vfr_adj vfr_join (us @ x # vs))"
proof -
  have len: "length us \<le> free_count s" "free_count s < length (free_ranges s)"
    using assms by (auto simp: vlive_def vtable_def dest: arg_cong [of _ _ length])
  obtain arr where arr: "shift_up (length us) (free_count s) (free_ranges s) = Done arr"
    "length us < length arr" "length arr = length (free_ranges s)"
    "take (Suc (free_count s)) (arr[length us := x]) = us @ x # vs"
    using shift_up_insert [OF len, of x] assms(3) by (auto simp: vlive_def append_eq_conv_conj)
  obtain arr' n where "merge_adjacent vfr_adj vfr_join (arr[length us := x]) (Suc (free_count s)) = Done (arr', n)"
    "length arr' = length arr" "n \<le> Suc (free_count s)" "take n arr' = coalesce vfr_adj vfr_join (us @ x # vs)"
    using merge_adjacent_Done [of "Suc (free_count s)" "arr[length us := x]" vfr_adj vfr_join] arr len by auto
  then show ?thesis
    using arr assms(1,2) by (simp add: merge_adjacent_free_ranges_def vtable_def managed_def vlive_def)
qed

lemma free_pages_runs:
  assumes "va_inv s" "kr_ok rng"
  shows "runs (free_pages s rng) (\<lambda>(s', b). va_inv s' \<and> managed s' = managed s
     \<and> (b \<longleftrightarrow> kr_pages rng \<subseteq> kr_pages (managed s) \<and> kr_pages rng \<inter> va_free s = {}
          \<and> free_count s < MAX_FREE_RANGES)
     \<and> (if b then va_free s' = va_free s \<union> kr_pages rng else s' = s))"
proof -
  have s: "vtable s" "vcanon (vlive s)" "kr_ok (managed s)" "vpages (vlive s) \<subseteq> kr_pages (managed s)"
    using assms(1) by (simp_all add: va_inv_def)
  let ?p = "\<lambda>r. vr_lo r < kr_first rng"
  define us vs where us: "us = takeWhile ?p (vlive s)" and vs: "vs = dropWhile ?p (vlive s)"
  have live: "us @ vs = vlive s" unfolding us vs by (rule takeWhile_dropWhile_id)
  have "scan_while (\<lambda>r. KernelPageStart_as_u64 (vfr_start r) < KernelPageStart_as_u64 (kvr_start rng))
      (free_ranges s) (free_count s) 0
      = Done (length (takeWhile (\<lambda>r. KernelPageStart_as_u64 (vfr_start r) < KernelPageStart_as_u64 (kvr_start rng)) (vlive s)))"
    using s(1) scan_while_Done [of "free_count s" "free_ranges s"] by (simp add: vtable_def vlive_def)
  also have "takeWhile (\<lambda>r. KernelPageStart_as_u64 (vfr_start r) < KernelPageStart_as_u64 (kvr_start rng)) (vlive s) = us"
    unfolding us by (rule takeWhile_cong [OF refl])
      (use s(2) page_less_iff [OF vr_lo_bytes kr_first_bytes [OF assms(2)]] in \<open>auto simp: vcanon_def\<close>)
  finally have scan: "scan_while (\<lambda>r. KernelPageStart_as_u64 (vfr_start r) < KernelPageStart_as_u64 (kvr_start rng))
      (free_ranges s) (free_count s) 0 = Done (length us)" .
  have lo: "\<forall>r\<in>set us. ?p r" "\<forall>r\<in>set vs. kr_first rng \<le> vr_lo r"
    using dropWhile_ge [OF vcanon_cells(2) [OF s(2)]] unfolding us vs by (auto dest: set_takeWhileD)
  note clear = clear_runs [OF s(1,2) assms(2) us vs]
  have disj: "kr_pages rng \<inter> va_free s = {} \<longleftrightarrow>
      (\<forall>r\<in>set us. vr_hi r \<le> kr_first rng) \<and> (\<forall>r\<in>set vs. kr_last rng \<le> vr_lo r)"
    using disjoint_clear [of us vs rng] s(2) assms(2) lo by (simp add: live va_free_def)
  have sub: "contains_range s rng = Done (kr_pages rng \<subseteq> kr_pages (managed s))"
    using contains_runs [OF assms(2) s(3)] kr_pages_subset [OF assms(2)] by simp
  show ?thesis
  proof (cases "kr_pages rng \<subseteq> kr_pages (managed s) \<and> kr_pages rng \<inter> va_free s = {} \<and> free_count s < MAX_FREE_RANGES")
    case True
    have ins: "vcanon (coalesce vfr_adj vfr_join (us @ returned rng # vs))"
      "vpages (coalesce vfr_adj vfr_join (us @ returned rng # vs)) = va_free s \<union> kr_pages rng"
      using insert_canon [of us vs rng] s(2) assms(2) True us vs by (simp_all add: live va_free_def)
    have "runs (free_pages s rng) (\<lambda>(s', b). b \<and> vtable s' \<and> managed s' = managed s
        \<and> vlive s' = coalesce vfr_adj vfr_join (us @ returned rng # vs))"
      using True disj vinsert_runs [OF s(1) _ live, of "returned rng"]
      by (simp add: free_pages_def sub scan clear returned_def del: runs_bind runs_map)
    then show ?thesis
      using True ins s by (elim runs_conseq) (auto simp: va_inv_def va_free_def)
  next
    case False
    then have "free_pages s rng = Done (s, False)"
      using disj by (auto simp: free_pages_def sub scan clear)
    with False assms(1) show ?thesis by simp
  qed
qed

section \<open>Page total\<close>

lemma remaining_runs:
  assumes "va_inv s"
  shows "runs (remaining_pages s) (\<lambda>n. unat n = card (va_free s))"
proof -
  have s: "vtable s" "vcanon (vlive s)" "kr_ok (managed s)" "vpages (vlive s) \<subseteq> kr_pages (managed s)"
    using assms by (simp_all add: va_inv_def)
  let ?sum = "sum_list (map (\<lambda>r. unat (vfr_page_count r)) (vlive s))"
  have fold: "remaining_pages s = Done (fold (\<lambda>r n. saturating_add n (vfr_page_count r)) (vlive s) 0)"
    using s(1) by (simp add: remaining_pages_def for_each_array vlive_def vtable_def)
  have "va_free s = {p. \<exists>r\<in>set (vlive s). True \<and> vr_lo r \<le> p \<and> p < vr_hi r}"
    by (auto simp: va_free_def in_cover_iff)
  then have c: "card (va_free s) = ?sum"
    using card_cells [OF vcanon_cells(3) [OF s(2)], of "\<lambda>_. True"] by (simp add: vr_hi_def)
  have "finite (kr_pages (managed s))" "card (kr_pages (managed s)) < 2 ^ 64"
    using unat_u64_bound [of "PageCount_as_u64 (managed_page_count s)"] by (simp_all add: kr_pages_def Let_def)
  then have "?sum < 2 ^ 64"
    using card_mono [of "kr_pages (managed s)" "va_free s"] s(4) c by (simp add: va_free_def)
  then show ?thesis
    using fold_saturating [of id "\<lambda>r n. saturating_add n (vfr_page_count r)" "\<lambda>_. True" vfr_page_count "vlive s" 0]
    by (simp add: fold c)
qed

end
