(* ===== verification/Allocator_Contract.thy ===== *)
theory Allocator_Contract
  imports Mana_Prelude
begin

text \<open>
  The contract that the kernel's range allocators share, seen by a client: an allocation takes
  units out of the available set, a release puts them back. A client run is a sequence of
  requests and releases of ranges it holds; the contract gives that held ranges never overlap
  and that no unit is lost.
\<close>

section \<open>Client runs\<close>

text \<open>
  \<open>alloc_run ok room alloc release s (s', held)\<close>: from \<open>s\<close>, some requests, granted or refused,
  and some releases of held ranges lead to the state \<open>s'\<close>, where the client holds the ranges
  \<open>held\<close>. \<open>ok\<close> is the validity of a request and \<open>room\<close> the free capacity that a table needs.
\<close>

inductive alloc_run ::
    "('n \<Rightarrow> bool) \<Rightarrow> ('s \<Rightarrow> bool) \<Rightarrow> ('s \<Rightarrow> 'n \<Rightarrow> ('s \<times> 'r option) run) \<Rightarrow> ('s \<Rightarrow> 'r \<Rightarrow> ('s \<times> bool) run)
       \<Rightarrow> 's \<Rightarrow> 's \<times> 'r list \<Rightarrow> bool"
  for ok room alloc release s0 where
  start: "alloc_run ok room alloc release s0 (s0, [])"
| granted: "alloc_run ok room alloc release s0 (s, held) \<Longrightarrow> ok n \<Longrightarrow> room s
     \<Longrightarrow> alloc s n = Done (s', Some x) \<Longrightarrow> alloc_run ok room alloc release s0 (s', x # held)"
| refused: "alloc_run ok room alloc release s0 (s, held) \<Longrightarrow> ok n \<Longrightarrow> room s
     \<Longrightarrow> alloc s n = Done (s', None) \<Longrightarrow> alloc_run ok room alloc release s0 (s', held)"
| released: "alloc_run ok room alloc release s0 (s, held) \<Longrightarrow> x \<in> set held \<Longrightarrow> room s
     \<Longrightarrow> release s x = Done (s', True) \<Longrightarrow> alloc_run ok room alloc release s0 (s', remove1 x held)"

definition disjoint_units :: "('r \<Rightarrow> nat set) \<Rightarrow> 'r list \<Rightarrow> bool" where
  "disjoint_units units held \<longleftrightarrow> sorted_wrt (\<lambda>a b. units a \<inter> units b = {}) held"

lemma disjoint_units_remove1:
  assumes "disjoint_units units held" "x \<in> set held"
  shows "disjoint_units units (remove1 x held)"
    and "(\<Union>y\<in>set held. units y) = units x \<union> (\<Union>y\<in>set (remove1 x held). units y)"
    and "units x \<inter> (\<Union>y\<in>set (remove1 x held). units y) = {}"
proof -
  obtain us vs where held: "held = us @ x # vs" "x \<notin> set us"
    using split_list_first [OF assms(2)] by blast
  then have "remove1 x held = us @ vs" by (simp add: remove1_append)
  with held show "disjoint_units units (remove1 x held)"
    and "(\<Union>y\<in>set held. units y) = units x \<union> (\<Union>y\<in>set (remove1 x held). units y)"
    and "units x \<inter> (\<Union>y\<in>set (remove1 x held). units y) = {}"
    using assms(1) by (auto simp: disjoint_units_def sorted_wrt_append)
qed

section \<open>The contract\<close>

locale range_allocator =
  fixes inv :: "'s \<Rightarrow> bool"
    and avail :: "'s \<Rightarrow> nat set"
    and ok :: "'n \<Rightarrow> bool"
    and valid :: "'r \<Rightarrow> bool"
    and room :: "'s \<Rightarrow> bool"
    and units :: "'r \<Rightarrow> nat set"
    and alloc :: "'s \<Rightarrow> 'n \<Rightarrow> ('s \<times> 'r option) run"
    and release :: "'s \<Rightarrow> 'r \<Rightarrow> ('s \<times> bool) run"
  assumes alloc_law: "inv s \<Longrightarrow> ok n \<Longrightarrow> room s \<Longrightarrow> runs (alloc s n) (\<lambda>(s', r). inv s' \<and>
       (case r of None \<Rightarrow> avail s' = avail s
        | Some x \<Rightarrow> valid x \<and> units x \<subseteq> avail s \<and> avail s' = avail s - units x))"
    and release_law: "inv s \<Longrightarrow> valid x \<Longrightarrow> room s \<Longrightarrow> runs (release s x) (\<lambda>(s', b). inv s' \<and>
       avail s' = (if b then avail s \<union> units x else avail s))"
begin

lemma run_invariant:
  assumes "alloc_run ok room alloc release s0 (s, held)" "inv s0"
  shows "inv s \<and> (\<forall>x\<in>set held. valid x) \<and> disjoint_units units held
     \<and> (\<Union>x\<in>set held. units x) \<inter> avail s = {} \<and> (\<Union>x\<in>set held. units x) \<union> avail s = avail s0"
  using assms
proof (induction "(s, held)" arbitrary: s held rule: alloc_run.induct)
  case start
  then show ?case by (simp add: disjoint_units_def)
next
  case (granted s held n s' x)
  then have "inv s' \<and> valid x \<and> units x \<subseteq> avail s \<and> avail s' = avail s - units x"
    using alloc_law [of s n] by auto
  with granted show ?case by (auto simp: disjoint_units_def)
next
  case (refused s held n s')
  then show ?case using alloc_law [of s n] by auto
next
  case (released s held x s')
  then have "inv s' \<and> avail s' = avail s \<union> units x" using release_law [of s x] by auto
  moreover have "\<forall>y\<in>set (remove1 x held). valid y"
    using released set_remove1_subset [of x held] by blast
  moreover have "disjoint_units units held" "(\<Union>y\<in>set held. units y) \<inter> avail s = {}"
    "(\<Union>y\<in>set held. units y) \<union> avail s = avail s0" using released by simp_all
  ultimately show ?case
    using disjoint_units_remove1 [of units held x] released(3) by auto
qed

text \<open>The operations never panic along a run, as long as the table has room.\<close>

lemma run_total:
  assumes "alloc_run ok room alloc release s0 (s, held)" "inv s0" "room s"
  shows "ok n \<Longrightarrow> \<exists>r. alloc s n = Done r" "x \<in> set held \<Longrightarrow> \<exists>r. release s x = Done r"
  using run_invariant [OF assms(1,2)] alloc_law [of s n] release_law [of s x] assms(3)
  by (auto simp: runs_iff)

end

text \<open>
  An allocator that also recognises the ranges it handed out: \<open>mine s x\<close> says that \<open>x\<close> is
  recorded in \<open>s\<close> as handed out, which makes its release succeed.
\<close>

locale returnable_allocator = range_allocator inv avail ok valid room units alloc release
  for inv :: "'s \<Rightarrow> bool" and avail :: "'s \<Rightarrow> nat set" and ok :: "'n \<Rightarrow> bool" and valid :: "'r \<Rightarrow> bool"
    and room :: "'s \<Rightarrow> bool" and units :: "'r \<Rightarrow> nat set"
    and alloc :: "'s \<Rightarrow> 'n \<Rightarrow> ('s \<times> 'r option) run" and release :: "'s \<Rightarrow> 'r \<Rightarrow> ('s \<times> bool) run" +
  fixes mine :: "'s \<Rightarrow> 'r \<Rightarrow> bool"
  assumes mine_new: "inv s \<Longrightarrow> ok n \<Longrightarrow> room s \<Longrightarrow> alloc s n = Done (s', Some x) \<Longrightarrow> mine s' x"
    and mine_alloc: "inv s \<Longrightarrow> ok n \<Longrightarrow> room s \<Longrightarrow> alloc s n = Done (s', r) \<Longrightarrow> mine s y \<Longrightarrow> mine s' y"
    and mine_release: "inv s \<Longrightarrow> valid x \<Longrightarrow> room s \<Longrightarrow> release s x = Done (s', True)
       \<Longrightarrow> mine s y \<Longrightarrow> units y \<inter> units x = {} \<Longrightarrow> mine s' y"
    and release_mine: "inv s \<Longrightarrow> valid x \<Longrightarrow> room s \<Longrightarrow> mine s x \<Longrightarrow> units x \<inter> avail s = {}
       \<Longrightarrow> runs (release s x) (\<lambda>(s', b). b)"
begin

lemma run_mine:
  assumes "alloc_run ok room alloc release s0 (s, held)" "inv s0"
  shows "\<forall>x\<in>set held. mine s x"
  using assms
proof (induction "(s, held)" arbitrary: s held rule: alloc_run.induct)
  case (granted s held n s' x)
  then show ?case using run_invariant mine_new [of s n s' x] mine_alloc [of s n s'] by auto
next
  case (refused s held n s')
  then show ?case using run_invariant mine_alloc [of s n s'] by auto
next
  case (released s held x s')
  have inv: "inv s" "valid x" "disjoint_units units held"
    using run_invariant [OF released(1) released.prems] released(3) by auto
  show ?case
  proof
    fix y assume y: "y \<in> set (remove1 x held)"
    then have "units y \<inter> units x = {}" "y \<in> set held"
      using disjoint_units_remove1(3) [OF inv(3) released(3)] set_remove1_subset [of x held] by auto
    then show "mine s' y" using mine_release [OF inv(1,2) released(4,5)] released by blast
  qed
qed simp

lemma run_releasable:
  assumes "alloc_run ok room alloc release s0 (s, held)" "inv s0" "room s" "x \<in> set held"
  shows "runs (release s x) (\<lambda>(s', b). b)"
  using run_invariant [OF assms(1,2)] run_mine [OF assms(1,2)] assms(3,4) by (intro release_mine) auto

end

end
