(* ===== verification/Virtual_Properties.thy ===== *)
theory Virtual_Properties
  imports Virtual_Allocator_Spec Allocator_Contract
begin

text \<open>
  The properties of the kernel virtual range allocator: its operations against the set of free
  pages, the allocator contract, and its self-checks.
\<close>

section \<open>The allocator contract\<close>

interpretation kernel_pages: returnable_allocator
  "\<lambda>s. va_inv s \<and> managed s = m" va_free page_count_ok kr_ok "\<lambda>s. free_count s < MAX_FREE_RANGES"
  kr_pages allocate_pages free_pages "\<lambda>s x. kr_pages x \<subseteq> kr_pages m"
  for m :: KernelVirtualRange
proof unfold_locales
  fix s n and x y :: KernelVirtualRange
  assume s: "va_inv s \<and> managed s = m"
  show "runs (allocate_pages s n) (\<lambda>(s', r). (va_inv s' \<and> managed s' = m) \<and>
       (case r of None \<Rightarrow> va_free s' = va_free s
        | Some x \<Rightarrow> kr_ok x \<and> kr_pages x \<subseteq> va_free s \<and> va_free s' = va_free s - kr_pages x))"
    if "page_count_ok n"
    by (rule runs_conseq [OF allocate_pages_runs]) (use s that in \<open>auto split: option.splits\<close>)
  show "runs (free_pages s x) (\<lambda>(s', b). (va_inv s' \<and> managed s' = m) \<and>
       va_free s' = (if b then va_free s \<union> kr_pages x else va_free s))" if "kr_ok x"
    by (rule runs_conseq [OF free_pages_runs]) (use s that in \<open>auto split: if_splits\<close>)
  show "kr_pages x \<subseteq> kr_pages m" if "page_count_ok n" "allocate_pages s n = Done (s', Some x)" for s'
  proof -
    have "kr_pages x \<subseteq> va_free s" using allocate_pages_runs [of s n] s that by simp
    also have "\<dots> \<subseteq> kr_pages m" using s by (auto simp: va_inv_def va_free_def)
    finally show ?thesis .
  qed
  show "runs (free_pages s x) (\<lambda>(s', b). b)"
    if "kr_ok x" "free_count s < MAX_FREE_RANGES" "kr_pages x \<subseteq> kr_pages m" "kr_pages x \<inter> va_free s = {}"
    by (rule runs_conseq [OF free_pages_runs]) (use s that in auto)
qed

section \<open>Properties\<close>

text \<open>
  C20: allocation of kernel virtual ranges. It never panics and keeps the invariant: the free
  table is in address order with a gap between any two ranges, inside the managed range. It
  fails only when no run of that many free pages exists; otherwise it returns the lowest one,
  with the requested size, and removes exactly its pages from the free set.
\<close>

theorem virtual_allocation_correct:
  assumes "va_inv s" "page_count_ok count"
  shows "runs (allocate_pages s count) (\<lambda>(s', r). va_inv s' \<and> managed s' = managed s
     \<and> free_count s' \<le> free_count s \<and>
     (case r of
        None \<Rightarrow> s' = s \<and> (\<forall>g. \<not> {g..<g + unat (PageCount_as_u64 count)} \<subseteq> va_free s)
      | Some rng \<Rightarrow> kr_ok rng \<and> kvr_page_count rng = count \<and> kr_pages rng \<subseteq> va_free s
          \<and> va_free s' = va_free s - kr_pages rng
          \<and> (\<forall>g. {g..<g + unat (PageCount_as_u64 count)} \<subseteq> va_free s \<longrightarrow> kr_first rng \<le> g)))"
  using assms by (rule allocate_pages_runs)

text \<open>The allocator that boot creates for dynamic kernel mappings.\<close>

definition dynamic_allocator :: KernelVirtualRangeAllocator where
  "dynamic_allocator =
     (let start = KernelPageStart (VirtAddr DYNAMIC_MAPPING_START) in
      \<lparr>managed_start = start, managed_page_count = PageCount DYNAMIC_MAPPING_PAGE_COUNT,
       free_ranges = (replicate MAX_FREE_RANGES \<lparr>vfr_start = start, vfr_page_count = 0\<rparr>)
         [0 := \<lparr>vfr_start = start, vfr_page_count = DYNAMIC_MAPPING_PAGE_COUNT\<rparr>],
       free_count = 1\<rparr>)"

lemma dynamic_ok:
  "kernel_page_ok (KernelPageStart (VirtAddr DYNAMIC_MAPPING_START))"
  "n \<noteq> 0 \<Longrightarrow> n \<le> DYNAMIC_MAPPING_PAGE_COUNT \<Longrightarrow> page_count_ok (PageCount n)"
  "n \<noteq> 0 \<Longrightarrow> n \<le> DYNAMIC_MAPPING_PAGE_COUNT \<Longrightarrow>
     kr_ok \<lparr>kvr_start = KernelPageStart (VirtAddr DYNAMIC_MAPPING_START), kvr_page_count = PageCount n\<rparr>"
  by (auto simp: kr_ok_def kernel_page_ok_def page_count_ok_def KernelPageStart_as_u64_def word_le_nat_alt)

lemma dynamic_new:
  "new_dynamic_mapping_allocator = Done dynamic_allocator"
  "virtual_allocator_new (KernelPageStart (VirtAddr DYNAMIC_MAPPING_START)) (PageCount DYNAMIC_MAPPING_PAGE_COUNT)
     = Done (Some dynamic_allocator)"
proof -
  have "KernelVirtualRange_new (KernelPageStart (VirtAddr DYNAMIC_MAPPING_START)) (PageCount DYNAMIC_MAPPING_PAGE_COUNT) \<noteq> None"
    using kr_new [OF dynamic_ok(1,2), of DYNAMIC_MAPPING_PAGE_COUNT] dynamic_ok(3) [of DYNAMIC_MAPPING_PAGE_COUNT] by auto
  then show new: "virtual_allocator_new (KernelPageStart (VirtAddr DYNAMIC_MAPPING_START)) (PageCount DYNAMIC_MAPPING_PAGE_COUNT)
     = Done (Some dynamic_allocator)"
    by (auto simp: virtual_allocator_new_def empty_range dynamic_allocator_def Let_def)
  show "new_dynamic_mapping_allocator = Done dynamic_allocator"
    by (simp add: new_dynamic_mapping_allocator_def kernel_page_start_def KernelPageStart_new_def
        PageCount_new_def is_multiple_of_def new)
qed

lemma dynamic_facts:
  "va_inv dynamic_allocator" "free_count dynamic_allocator = 1"
  "va_free dynamic_allocator = kr_pages (managed dynamic_allocator)"
  "managed dynamic_allocator = \<lparr>kvr_start = KernelPageStart (VirtAddr DYNAMIC_MAPPING_START),
     kvr_page_count = PageCount DYNAMIC_MAPPING_PAGE_COUNT\<rparr>"
  using new_runs [OF dynamic_ok(1,2), of DYNAMIC_MAPPING_PAGE_COUNT] by (simp_all add: dynamic_new(2))

theorem virtual_allocation_correct_witness:
  "runs (allocate_pages dynamic_allocator (PageCount 2)) (\<lambda>(s', r). va_inv s')"
  using virtual_allocation_correct [OF dynamic_facts(1), of "PageCount 2"]
  by (auto simp: page_count_ok_def elim!: runs_conseq)

text \<open>
  C21: release of kernel virtual ranges. It never panics and keeps the invariant; it accepts
  exactly the ranges inside the managed range all of whose pages are in use, as long as the
  table has a free entry, and then exactly these pages become free. A rejected release leaves
  the allocator as it was.
\<close>

theorem virtual_release_exact:
  assumes "va_inv s" "kr_ok rng"
  shows "runs (free_pages s rng) (\<lambda>(s', b). va_inv s' \<and> managed s' = managed s
     \<and> (b \<longleftrightarrow> kr_pages rng \<subseteq> kr_pages (managed s) \<and> kr_pages rng \<inter> va_free s = {}
          \<and> free_count s < MAX_FREE_RANGES)
     \<and> (if b then va_free s' = va_free s \<union> kr_pages rng else s' = s))"
  using assms by (rule free_pages_runs)

theorem virtual_release_exact_witness:
  "runs (free_pages dynamic_allocator
     \<lparr>kvr_start = KernelPageStart (VirtAddr DYNAMIC_MAPPING_START), kvr_page_count = PageCount 1\<rparr>) (\<lambda>(s', b). \<not> b)"
proof -
  let ?r = "\<lparr>kvr_start = KernelPageStart (VirtAddr DYNAMIC_MAPPING_START), kvr_page_count = PageCount 1\<rparr>"
  have ok: "kr_ok ?r" by (rule dynamic_ok(3)) simp_all
  have "\<not> (kr_pages ?r \<subseteq> va_free dynamic_allocator \<and> kr_pages ?r \<inter> va_free dynamic_allocator = {})"
    using kr_first_less [OF ok] by (auto simp: kr_pages_def Let_def)
  then show ?thesis
    using virtual_release_exact [OF dynamic_facts(1) ok] dynamic_facts(3) by (auto elim!: runs_conseq)
qed



text \<open>
  C29: the page total. \<open>remaining_pages\<close> never saturates and returns the number of free pages.
\<close>

theorem remaining_pages_exact:
  assumes "va_inv s"
  shows "runs (remaining_pages s) (\<lambda>n. unat n = card (va_free s))"
  using assms by (rule remaining_runs)

theorem remaining_pages_exact_witness: "remaining_pages dynamic_allocator = Done DYNAMIC_MAPPING_PAGE_COUNT"
proof -
  have "card (va_free dynamic_allocator) = 262144"
    using dynamic_facts(3,4) by (simp add: kr_pages_def Let_def)
  moreover have "unat n = 262144 \<Longrightarrow> n = (DYNAMIC_MAPPING_PAGE_COUNT :: u64)" for n
    by (simp add: word_unat_eq_iff)
  ultimately show ?thesis using remaining_pages_exact [OF dynamic_facts(1)] by (auto simp: runs_iff)
qed

section \<open>Self-checks\<close>

text \<open>One allocation step of a self-check, when the lowest free pages are large enough.\<close>

definition page_range :: "nat \<Rightarrow> PageCount \<Rightarrow> KernelVirtualRange" where
  "page_range f count = \<lparr>kvr_start = KernelPageStart (VirtAddr (of_nat (4096 * f))), kvr_page_count = count\<rparr>"

lemma page_range_eq: "kr_ok r \<Longrightarrow> r = page_range (kr_first r) (kvr_page_count r)"
  using kr_first_bytes [of r]
  by (cases r) (simp add: page_range_def KernelPageStart_as_u64_inj [symmetric] KernelPageStart_as_u64_def
      word_unat_eq_iff unat_of_nat)

lemma step_allocate_low:
  assumes "va_inv s" "va_free s = F" "page_count_ok count" "n = unat (PageCount_as_u64 count)"
    and low: "{a..<a + n} \<subseteq> F" "\<forall>p\<in>F. a \<le> p"
    and k: "\<And>s'. va_inv s' \<Longrightarrow> managed s' = managed s \<Longrightarrow> free_count s' \<le> free_count s
       \<Longrightarrow> va_free s' = F - {a..<a + n} \<Longrightarrow> kr_ok (page_range a count)
       \<Longrightarrow> kr_pages (page_range a count) = {a..<a + n} \<Longrightarrow> runs (k s' (Some (page_range a count))) P"
  shows "runs (bind_run (allocate_pages s count) (\<lambda>(s', r). k s' r)) P"
  unfolding runs_bind
proof (rule runs_conseq [OF allocate_pages_runs [OF assms(1,3)]], clarify)
  fix s' r
  assume s': "va_inv s'" "managed s' = managed s" "free_count s' \<le> free_count s"
    and r: "case r of None \<Rightarrow> s' = s \<and> (\<forall>g. \<not> {g..<g + unat (PageCount_as_u64 count)} \<subseteq> va_free s)
      | Some rng \<Rightarrow> kr_ok rng \<and> kvr_page_count rng = count \<and> kr_pages rng \<subseteq> va_free s
          \<and> va_free s' = va_free s - kr_pages rng
          \<and> (\<forall>g. {g..<g + unat (PageCount_as_u64 count)} \<subseteq> va_free s \<longrightarrow> kr_first rng \<le> g)"
  then obtain rng where rng: "r = Some rng" "kr_ok rng" "kvr_page_count rng = count" "kr_pages rng \<subseteq> F"
    "va_free s' = F - kr_pages rng" "kr_first rng \<le> a"
    using low(1) assms(2,4) by (cases r) auto
  have "kr_first rng \<in> kr_pages rng" using kr_first_less [OF rng(2)] by (simp add: kr_pages_def Let_def)
  then have "kr_first rng = a" using rng(4,6) low(2) by force
  then have "rng = page_range a count" "kr_pages rng = {a..<a + n}"
    using page_range_eq [OF rng(2)] rng(3) assms(4) by (simp_all add: kr_pages_def Let_def)
  then show "runs (k s' r) P" using k [OF s'] rng by simp
qed

lemma step_free_held:
  assumes "va_inv s" "kr_ok rng" "kr_pages rng \<subseteq> kr_pages (managed s)" "kr_pages rng \<inter> va_free s = {}"
    "free_count s < MAX_FREE_RANGES"
    and "\<And>s'. va_inv s' \<Longrightarrow> managed s' = managed s \<Longrightarrow> va_free s' = va_free s \<union> kr_pages rng
       \<Longrightarrow> runs (k s' True) P"
  shows "runs (bind_run (free_pages s rng) (\<lambda>(s', b). k s' b)) P"
  unfolding runs_bind by (rule runs_conseq [OF free_pages_runs [OF assms(1,2)]]) (use assms(3-6) in auto)

lemma remaining_Done:
  assumes "va_inv s" "card (va_free s) = unat n"
  shows "remaining_pages s = Done n"
  using remaining_runs [OF assms(1)] assms(2) by (auto simp: runs_iff word_unat_eq_iff)

abbreviation dynamic_first :: nat where "dynamic_first \<equiv> 4503565267632128"

lemma dynamic_pages:
  "va_free dynamic_allocator = {dynamic_first..<dynamic_first + 262144}"
  "kr_pages (managed dynamic_allocator) = {dynamic_first..<dynamic_first + 262144}"
  using dynamic_facts(3,4) by (simp_all add: kr_pages_def Let_def KernelPageStart_as_u64_def)

lemma small_counts:
  "page_count 1 = Done (PageCount 1)" "page_count 2 = Done (PageCount 2)"
  "page_count_ok (PageCount 1)" "page_count_ok (PageCount 2)"
  by (simp_all add: page_count_def PageCount_new_def page_count_ok_def)

lemma kr_pages_nonempty: "kr_ok r \<Longrightarrow> kr_pages r \<noteq> {}"
  using kr_first_less [of r] by (simp add: kr_pages_def Let_def)

lemma step_refuse:
  assumes "va_inv s" "va_free s = {}" "page_count_ok count" "runs (k s None) P"
  shows "runs (bind_run (allocate_pages s count) (\<lambda>(s', r). k s' r)) P"
  unfolding runs_bind
proof (rule runs_conseq [OF allocate_pages_runs [OF assms(1,3)]], clarify)
  fix s' r
  assume r: "case r of None \<Rightarrow> s' = s \<and> (\<forall>g. \<not> {g..<g + unat (PageCount_as_u64 count)} \<subseteq> va_free s)
      | Some rng \<Rightarrow> kr_ok rng \<and> kvr_page_count rng = count \<and> kr_pages rng \<subseteq> va_free s
          \<and> va_free s' = va_free s - kr_pages rng
          \<and> (\<forall>g. {g..<g + unat (PageCount_as_u64 count)} \<subseteq> va_free s \<longrightarrow> kr_first rng \<le> g)"
  then have "r = None \<and> s' = s"
    using assms(2) kr_pages_nonempty by (cases r) auto
  with assms(4) show "runs (k s' r) P" by simp
qed

lemma range_allocation_runs: "runs verify_kernel_virtual_range_allocation (\<lambda>b. b)"
  unfolding verify_kernel_virtual_range_allocation_def dynamic_new(1) small_counts(1,2) bind_run.simps
  apply (rule step_allocate_low [OF dynamic_facts(1) dynamic_pages(1) small_counts(3) refl, where a = dynamic_first])
    apply (simp, simp, simp only: option.case)
  subgoal for s1
    apply (rule step_allocate_low [where s = s1 and a = "dynamic_first + 1" and n = 2, OF _ _ small_counts(4)])
         apply (assumption, assumption, simp, force, force, simp only: option.case)
    subgoal for s2
      apply (rule step_free_held [where s = s2])
           apply (assumption, assumption, simp add: dynamic_pages, force, simp add: dynamic_facts(2), simp only: not_True_eq_False if_False)
      subgoal for s3
        apply (rule step_allocate_low [where s = s3 and a = dynamic_first and n = 1, OF _ _ small_counts(3)])
            apply (assumption, assumption, simp, simp, force, simp only: option.case)
        subgoal premises prems for s4
        proof -
          have "va_free s4 = {dynamic_first + 3..<dynamic_first + 262144}" using prems by auto
          then have "remaining_pages s4 = Done (DYNAMIC_MAPPING_PAGE_COUNT - 3)"
            using prems by (intro remaining_Done) simp_all
          then show ?thesis
            by (simp add: and_run_def page_range_def KernelPageStart_as_u64_def KernelVirtualRange_byte_len_def
                PageCount_byte_len_def KernelVirtualRange_end_exclusive_def VirtAddr_checked_add_def checked_add_def)
        qed
        done
      done
    done
  done

lemma range_exhaustion_runs: "runs verify_kernel_virtual_range_exhaustion (\<lambda>b. b)"
proof -
  let ?p = "KernelPageStart (VirtAddr DYNAMIC_MAPPING_START)" and ?out = "page_range (dynamic_first + 2) (PageCount 1)"
  have ks: "kernel_page_start DYNAMIC_MAPPING_START = Done ?p"
    "kernel_page_start (DYNAMIC_MAPPING_START + PAGE_SIZE * 2) = Done (kvr_start ?out)"
    by (simp_all add: kernel_page_start_def KernelPageStart_new_def is_multiple_of_def page_range_def)
  have out: "KernelVirtualRange_new (kvr_start ?out) (PageCount 1) = Some ?out" "kr_ok ?out"
    "kr_pages ?out = {dynamic_first + 2}"
    by (simp_all add: KernelVirtualRange_new_def page_range_def KernelPageStart_as_u64_def PageCount_byte_len_def
        checked_add_def kr_ok_def kernel_page_ok_def page_count_ok_def kr_pages_def)
  have ok: "kr_ok \<lparr>kvr_start = ?p, kvr_page_count = PageCount 2\<rparr>" by (rule dynamic_ok(3)) simp_all
  have m: "kr_pages \<lparr>kvr_start = ?p, kvr_page_count = PageCount 2\<rparr> = {dynamic_first..<dynamic_first + 2}"
    by (simp add: kr_pages_def KernelPageStart_as_u64_def)
  obtain al where al: "virtual_allocator_new ?p (PageCount 2) = Done (Some al)" "va_inv al"
    "managed al = \<lparr>kvr_start = ?p, kvr_page_count = PageCount 2\<rparr>" "va_free al = {dynamic_first..<dynamic_first + 2}"
    using new_runs [OF dynamic_ok(1) small_counts(4)] ok m by (auto simp: runs_iff split: option.splits)
  show ?thesis
    unfolding verify_kernel_virtual_range_exhaustion_def ks small_counts(1,2) bind_run.simps al(1) option.case out(1)
    apply (rule step_allocate_low [OF al(2,4) small_counts(3) refl, where a = dynamic_first])
      apply (simp, simp)
    subgoal for s1
      apply (rule step_allocate_low [where s = s1 and a = "dynamic_first + 1" and n = 1, OF _ _ small_counts(3)])
           apply (assumption, assumption, simp, force, force)
      subgoal premises prems for s2
      proof -
        have e: "va_free s2 = {}" using prems by auto
        have "kr_pages ?out \<subseteq> kr_pages (managed s2) \<longleftrightarrow> False" using prems al(3) m out(3) by simp
        then have "runs (free_pages s2 ?out) (\<lambda>(s', b). s' = s2 \<and> \<not> b)"
          using free_pages_runs [of s2 ?out] prems out(2) by (auto elim!: runs_conseq)
        moreover have "remaining_pages s2 = Done 0" using e prems by (intro remaining_Done) simp_all
        ultimately show ?thesis
          using prems e
          by (intro step_refuse [where s = s2]) (auto simp: small_counts PageCount_new_def KernelPageStart_new_def
              is_multiple_of_def is_none_def elim!: runs_conseq)
      qed
      done
    done
qed


end
