(* ===== verification/Frame_Contract.thy ===== *)
theory Frame_Contract
  imports Frame_Accounting Allocator_Contract
begin

text \<open>
  The frame allocator as a provider of the allocator contract: a request names a frame count
  and an owner, a held range remembers its owner, and release goes to \<open>free_frames_for\<close> with
  that owner.
\<close>

definition frame_request ::
    "PhysicalFrameAllocator \<Rightarrow> FrameCount \<times> FrameRangeOwner
       \<Rightarrow> (PhysicalFrameAllocator \<times> (PhysicalFrameRange \<times> FrameRangeOwner) option) run" where
  "frame_request s = (\<lambda>(fc, ow). map_run (\<lambda>(s', r). (s', map_option (\<lambda>rng. (rng, ow)) r)) (allocate_frames_for s fc ow))"

definition frame_return ::
    "PhysicalFrameAllocator \<Rightarrow> PhysicalFrameRange \<times> FrameRangeOwner \<Rightarrow> (PhysicalFrameAllocator \<times> bool) run" where
  "frame_return s = (\<lambda>(rng, ow). free_frames_for s rng ow)"

abbreviation request_ok :: "FrameCount \<times> FrameRangeOwner \<Rightarrow> bool" where
  "request_ok \<equiv> \<lambda>(fc, ow). frame_count_ok fc \<and> ow \<noteq> Owner_Free"

abbreviation holding_ok :: "PhysicalFrameRange \<times> FrameRangeOwner \<Rightarrow> bool" where
  "holding_ok \<equiv> \<lambda>(rng, ow). frame_range_ok rng \<and> ow \<noteq> Owner_Free"

abbreviation table_room :: "PhysicalFrameAllocator \<Rightarrow> bool" where
  "table_room s \<equiv> tracked_count s + 2 \<le> MAX_TRACKED_RANGES"

abbreviation held_frames :: "PhysicalFrameRange \<times> FrameRangeOwner \<Rightarrow> nat set" where
  "held_frames x \<equiv> range_frames (fst x)"

lemma request_runs:
  assumes "fa_canon s" "request_ok n" "table_room s"
  shows "runs (frame_request s n) (\<lambda>(s', r). fa_canon s' \<and>
     (case r of None \<Rightarrow> s' = s
      | Some x \<Rightarrow> holding_ok x \<and> held_frames x \<subseteq> free_frames s
          \<and> moved (held_frames x) (State_Free, Owner_Free) (State_Used, snd x) s s'))"
proof -
  obtain fc ow where n: "n = (fc, ow)" by (cases n)
  have "runs (allocate_frames_for s fc ow) (\<lambda>(s', r). fa_inv s' \<and> (fa_canon s \<longrightarrow> fa_canon s')
     \<and> tracked_count s' \<le> Suc (tracked_count s) \<and>
     (case r of
        None \<Rightarrow> s' = s \<and> (fa_canon s \<longrightarrow> (\<forall>g. \<not> {g..<g + count_nat fc} \<subseteq> free_frames s))
      | Some rng \<Rightarrow> allocated s fc ow rng s' \<and> (fa_canon s \<longrightarrow> runs_from s (count_nat fc) (range_first rng))))"
    using assms n by (intro allocate_runs fa_canon_inv) auto
  then show ?thesis
    using assms(1,2) n by (auto simp: frame_request_def allocated_def elim!: runs_conseq split: option.splits)
qed

lemma return_runs:
  assumes "fa_canon s" "holding_ok x" "table_room s"
  shows "runs (frame_return s x) (\<lambda>(s', b). fa_canon s'
     \<and> (held_frames x \<subseteq> fa_frames s State_Used (snd x) \<longrightarrow> b)
     \<and> (if b then moved (held_frames x) (State_Used, snd x) (State_Free, Owner_Free) s s' else s' = s))"
  using free_runs [OF fa_canon_inv [OF assms(1)], of "fst x" "snd x"] assms
  by (auto simp: frame_return_def elim!: runs_conseq split: prod.splits)

lemma moved_taken:
  "moved F (State_Free, Owner_Free) (State_Used, ow) s s' \<Longrightarrow> free_frames s' = free_frames s - F"
  "moved F (State_Used, ow) (State_Free, Owner_Free) s s' \<Longrightarrow> free_frames s' = free_frames s \<union> F"
  by (simp_all add: moved_def)

interpretation frame_pool: returnable_allocator
  fa_canon free_frames request_ok holding_ok table_room held_frames frame_request frame_return
  "\<lambda>s x. held_frames x \<subseteq> fa_frames s State_Used (snd x)"
proof unfold_locales
  fix s n and x y :: "PhysicalFrameRange \<times> FrameRangeOwner"
  assume s: "fa_canon s"
  show "runs (frame_request s n) (\<lambda>(s', r). fa_canon s' \<and>
       (case r of None \<Rightarrow> free_frames s' = free_frames s
        | Some x \<Rightarrow> holding_ok x \<and> held_frames x \<subseteq> free_frames s \<and> free_frames s' = free_frames s - held_frames x))"
    if "request_ok n" "table_room s"
    by (rule runs_conseq [OF request_runs [OF s that]]) (auto dest: moved_taken split: option.splits)
  show "runs (frame_return s x) (\<lambda>(s', b). fa_canon s' \<and>
       free_frames s' = (if b then free_frames s \<union> held_frames x else free_frames s))"
    if "holding_ok x" "table_room s"
    by (rule runs_conseq [OF return_runs [OF s that]]) (auto dest: moved_taken split: if_splits)
  show "held_frames x \<subseteq> fa_frames s' State_Used (snd x)"
    if "request_ok n" "table_room s" "frame_request s n = Done (s', Some x)" for s'
    using request_runs [OF s that(1,2)] that(3) by (auto simp: moved_def)
  show "held_frames y \<subseteq> fa_frames s' State_Used (snd y)"
    if "request_ok n" "table_room s" "frame_request s n = Done (s', r)" "held_frames y \<subseteq> fa_frames s State_Used (snd y)" for s' r
    using request_runs [OF s that(1,2)] that(3,4) by (auto simp: moved_def split: option.splits)
  show "held_frames y \<subseteq> fa_frames s' State_Used (snd y)"
    if "holding_ok x" "table_room s" "frame_return s x = Done (s', True)"
      "held_frames y \<subseteq> fa_frames s State_Used (snd y)" "held_frames y \<inter> held_frames x = {}" for s'
    using return_runs [OF s that(1,2)] that(3-5) by (auto simp: moved_def)
  show "runs (frame_return s x) (\<lambda>(s', b). b)"
    if "holding_ok x" "table_room s" "held_frames x \<subseteq> fa_frames s State_Used (snd x)"
      "held_frames x \<inter> free_frames s = {}"
    by (rule runs_conseq [OF return_runs [OF s that(1,2)]]) (use that in auto)
qed

text \<open>
  C8: conservation of physical frames. Along any sequence of allocations, refusals and releases
  from a canonical allocator, with the table never full, the ranges a client holds are pairwise
  disjoint, disjoint from the free frames, and together with them make up the frames that were
  free at the start; the operations never panic and every held range can be released by its
  owner.
\<close>

theorem physical_frames_conserved:
  assumes "alloc_run request_ok table_room frame_request frame_return s0 (s, held)" "fa_canon s0"
  shows "fa_canon s \<and> disjoint_units held_frames held
     \<and> (\<Union>x\<in>set held. held_frames x) \<inter> free_frames s = {}
     \<and> (\<Union>x\<in>set held. held_frames x) \<union> free_frames s = free_frames s0
     \<and> (table_room s \<longrightarrow> (\<forall>x\<in>set held. runs (frame_return s x) (\<lambda>(s', b). b)))"
  using frame_pool.run_invariant [OF assms] frame_pool.run_releasable [OF assms] by simp

text \<open>A run on the allocator that manages frames 1 to 4: one frame is granted and held.\<close>

definition small_pool :: "PhysicalFrameAllocator run" where
  "small_pool = add_region frame_allocator_new (PhysAddr FRAME_SIZE) (FrameCount 4)"

lemma small_pool_runs:
  "runs small_pool (\<lambda>s. fa_canon s \<and> repr s [cell State_Free Owner_Free 4096 4])"
proof -
  let ?c = "cell State_Free Owner_Free 4096 4"
  have "runs small_pool (\<lambda>s. repr s [?c])"
    using ref_add_runs [OF repr_new, of "PhysAddr FRAME_SIZE" "FrameCount 4"] by (simp add: small_pool_def frame_eval)
  moreover have "canon [?c]"
    by (simp add: canon_def table_ok_def ordered_def tr_ok_def region_ok_def tr_lo_def)
  ultimately show ?thesis by (auto elim!: runs_conseq intro: fa_canonI)
qed

lemma small_pool_free:
  assumes "repr s [cell State_Free Owner_Free 4096 4]"
  shows "free_frames s = {1..<5}" "tracked_count s = 1"
  using assms repr_count [OF assms]
  by (auto simp: fa_frames_def repr_live cover_def tr_tag_def tr_lo_def tr_hi_def tr_pages_def)

lemma small_pool_request:
  assumes "repr s [cell State_Free Owner_Free 4096 4]"
  shows "\<exists>s' x. frame_request s (FrameCount 1, KernelHeap) = Done (s', Some x)"
proof -
  let ?xs = "[cell State_Free Owner_Free 4096 4]"
  have w: "well_spaced ?xs" by (simp add: frame_eval)
  have "snd (ref_allocate (FrameCount 1) KernelHeap ?xs) \<noteq> None" by (simp add: frame_eval)
  then show ?thesis
    using ref_allocate_runs [OF assms well_spaced_table [OF w], of "FrameCount 1" KernelHeap]
    by (auto simp: frame_request_def frame_count_ok_def runs_iff)
qed

theorem physical_frames_conserved_witness:
  "runs small_pool (\<lambda>s. \<exists>s' x. alloc_run request_ok table_room frame_request frame_return s (s', [x])
     \<and> held_frames x \<union> free_frames s' = free_frames s)"
proof (rule runs_conseq [OF small_pool_runs], clarify)
  fix s assume s: "fa_canon s" "repr s [cell State_Free Owner_Free 4096 4]"
  obtain s' x where a: "frame_request s (FrameCount 1, KernelHeap) = Done (s', Some x)"
    using small_pool_request [OF s(2)] by blast
  have run: "alloc_run request_ok table_room frame_request frame_return s (s', [x])"
    by (rule alloc_run.granted [where s = s and n = "(FrameCount 1, KernelHeap)"])
      (use a alloc_run.start repr_count [OF s(2)] in \<open>auto simp: frame_count_ok_def\<close>)
  from physical_frames_conserved [OF run s(1)]
  show "\<exists>s' x. alloc_run request_ok table_room frame_request frame_return s (s', [x])
     \<and> held_frames x \<union> free_frames s' = free_frames s"
    using run by (intro exI [of _ s'] exI [of _ x]) simp
qed

end
