(* ===== verification/User_Address_Space.thy ===== *)
theory User_Address_Space
  imports Frame_Contract
begin

text \<open>
  User address spaces (\<open>kernel/memory/address_space.rs\<close>): mapping and unmapping of single user
  pages with the frames they use, and the walk that validates a user range for the kernel's
  copies. The page-table walker is the \<open>OffsetPageTable\<close> of the \<open>x86_64\<close> crate; it is a
  parameter, a record of its three entry points, and what the kernel relies on is the
  predicate \<open>mapper_ok\<close>.
\<close>

section \<open>The page-table walker\<close>

datatype PageFlag = PRESENT | WRITABLE | USER_ACCESSIBLE | NO_EXECUTE | HUGE_PAGE

type_synonym PageTableFlags = "PageFlag set"

text \<open>
  \<open>'m\<close> is the memory that holds the page tables. \<open>map_to\<close> gets the kernel's frame allocator
  callback, the root frame, the page and the frame to map; \<open>None\<close> is its error result. \<open>unmap\<close>
  returns the address of the frame that was mapped, \<open>translate\<close> the flags of the page that
  contains an address.
\<close>

record 'm mapper =
  map_to :: "(PhysicalFrameAllocator \<Rightarrow> (PhysicalFrameAllocator \<times> u64 option) run)
    \<Rightarrow> 'm \<Rightarrow> u64 \<Rightarrow> u64 \<Rightarrow> u64 \<Rightarrow> PageTableFlags \<Rightarrow> PhysicalFrameAllocator
    \<Rightarrow> ('m \<times> PhysicalFrameAllocator) option run"
  unmap :: "'m \<Rightarrow> u64 \<Rightarrow> u64 \<Rightarrow> ('m \<times> u64) option"
  translate :: "'m \<Rightarrow> u64 \<Rightarrow> u64 \<Rightarrow> PageTableFlags option"

record UserAddressSpace =
  level_4_frame :: PhysicalFrameStart

definition single_frame_count :: "FrameCount run" where
  "single_frame_count = expect (FrameCount_new 1)"

lemma single_frame: "single_frame_count = Done (FrameCount 1)"
  by (simp add: single_frame_count_def FrameCount_new_def)

section \<open>Mapping and unmapping\<close>

definition AddressSpaceFrameAllocator_allocate_frame ::
    "PhysicalFrameAllocator \<Rightarrow> (PhysicalFrameAllocator \<times> u64 option) run" where
  "AddressSpaceFrameAllocator_allocate_frame fa =
     map_run (\<lambda>(fa, r). (fa, map_option PhysicalFrameStart_as_u64 r)) (allocate_frame_for fa PageTable)"

definition map_user_page ::
    "'m mapper \<Rightarrow> UserAddressSpace \<Rightarrow> 'm \<Rightarrow> PhysicalFrameAllocator \<Rightarrow> UserPageStart
       \<Rightarrow> PhysicalFrameStart \<Rightarrow> PageTableFlags \<Rightarrow> ('m \<times> PhysicalFrameAllocator) run" where
  "map_user_page mp self m fa virtual_page_start physical_start flags =
     bind_run (map_to mp AddressSpaceFrameAllocator_allocate_frame m
       (PhysicalFrameStart_as_u64 (level_4_frame self)) (UserPageStart_as_u64 virtual_page_start)
       (PhysicalFrameStart_as_u64 physical_start) flags fa) expect"

definition unmap_user_page_for ::
    "'m mapper \<Rightarrow> UserAddressSpace \<Rightarrow> 'm \<Rightarrow> PhysicalFrameAllocator \<Rightarrow> UserPageStart
       \<Rightarrow> FrameRangeOwner \<Rightarrow> (('m \<times> PhysicalFrameAllocator) \<times> bool) run" where
  "unmap_user_page_for mp self m fa virtual_page_start owner =
     (case unmap mp m (PhysicalFrameStart_as_u64 (level_4_frame self)) (UserPageStart_as_u64 virtual_page_start) of
        None \<Rightarrow> Done ((m, fa), False)
      | Some (m', frame) \<Rightarrow>
          bind_run (expect (PhysicalFrameStart_new (PhysAddr frame))) (\<lambda>physical_start.
          bind_run single_frame_count (\<lambda>one.
          bind_run (expect (PhysicalFrameRange_new physical_start one)) (\<lambda>physical_range.
          bind_run (free_frames_for fa physical_range owner) (\<lambda>(fa, freed).
          bind_run (assert_run freed) (\<lambda>_. Done ((m', fa), True)))))))"

section \<open>Validation of user ranges\<close>

definition mapping_flags_for_address ::
    "'m mapper \<Rightarrow> UserAddressSpace \<Rightarrow> 'm \<Rightarrow> VirtAddr \<Rightarrow> PageTableFlags option" where
  "mapping_flags_for_address mp self m address =
     translate mp m (PhysicalFrameStart_as_u64 (level_4_frame self)) (VirtAddr_as_u64 address)"

definition is_page_mapped_with_flags ::
    "'m mapper \<Rightarrow> UserAddressSpace \<Rightarrow> 'm \<Rightarrow> UserPageStart \<Rightarrow> PageTableFlags \<Rightarrow> bool" where
  "is_page_mapped_with_flags mp self m page_start required_flags =
     (case mapping_flags_for_address mp self m
        (UserVirtualAddress_as_address (UserPageStart_as_address page_start)) of
        Some flags \<Rightarrow> required_flags \<union> {PRESENT} \<union> {USER_ACCESSIBLE} \<subseteq> flags
      | None \<Rightarrow> False)"

lemma UserPageStart_checked_add_increases:
  assumes "UserPageStart_checked_add p PAGE_SIZE = Some q"
  shows "unat (UserPageStart_as_u64 q) = unat (UserPageStart_as_u64 p) + 4096"
    and "unat (UserPageStart_as_u64 q) < unat USER_SPACE_END"
  using assms
  by (auto simp: UserPageStart_checked_add_def UserVirtualAddress_checked_add_def VirtAddr_checked_add_def
      UserPageStart_new_def UserVirtualAddress_new_def checked_add_def UserPageStart_as_u64_def
      UserVirtualAddress_as_u64_def unat_word_ariths word_less_nat_alt split: option.splits if_splits)

function validate_user_mapping_loop ::
    "'m mapper \<Rightarrow> UserAddressSpace \<Rightarrow> 'm \<Rightarrow> PageTableFlags \<Rightarrow> UserPageStart \<Rightarrow> UserPageStart \<Rightarrow> bool" where
  "validate_user_mapping_loop mp self m required_flags last_page_start page_start =
     (if \<not> is_page_mapped_with_flags mp self m page_start required_flags then False
      else if page_start = last_page_start then True
      else case UserPageStart_checked_add page_start PAGE_SIZE of
        None \<Rightarrow> False
      | Some next_page_start \<Rightarrow>
          validate_user_mapping_loop mp self m required_flags last_page_start next_page_start)"
  by pat_completeness auto
termination
proof (relation "measure (\<lambda>(mp, self, m, fl, last, page). unat USER_SPACE_END - unat (UserPageStart_as_u64 page))", goal_cases)
  case (2 mp self m fl last page nxt)
  then show ?case using UserPageStart_checked_add_increases [OF 2(3)] by simp
qed simp

declare validate_user_mapping_loop.simps [simp del]

definition validate_user_mapping ::
    "'m mapper \<Rightarrow> UserAddressSpace \<Rightarrow> 'm \<Rightarrow> UserVirtualRange \<Rightarrow> PageTableFlags \<Rightarrow> bool run" where
  "validate_user_mapping mp self m rng required_flags =
     (case UserVirtualRange_first_page_start rng of
        None \<Rightarrow> Done False
      | Some first_page_start \<Rightarrow>
          bind_run (UserVirtualRange_last_page_start rng) (\<lambda>l.
            case l of
              None \<Rightarrow> Done False
            | Some last_page_start \<Rightarrow>
                Done (validate_user_mapping_loop mp self m required_flags last_page_start first_page_start)))"

definition is_user_range_mapped_readable ::
    "'m mapper \<Rightarrow> UserAddressSpace \<Rightarrow> 'm \<Rightarrow> UserReadableRange \<Rightarrow> bool run" where
  "is_user_range_mapped_readable mp self m rng =
     validate_user_mapping mp self m (UserReadableRange_as_range rng) {NO_EXECUTE}"

definition is_user_range_mapped_writable ::
    "'m mapper \<Rightarrow> UserAddressSpace \<Rightarrow> 'm \<Rightarrow> UserWritableRange \<Rightarrow> bool run" where
  "is_user_range_mapped_writable mp self m rng =
     validate_user_mapping mp self m (UserWritableRange_as_range rng) ({WRITABLE} \<union> {NO_EXECUTE})"

section \<open>Permission self-checks\<close>

definition verify_kernel_user_mapping_permissions ::
    "'m mapper \<Rightarrow> UserAddressSpace \<Rightarrow> 'm \<Rightarrow> VirtAddr \<Rightarrow> UserVirtualAddress \<Rightarrow> UserVirtualAddress \<Rightarrow> bool" where
  "verify_kernel_user_mapping_permissions mp self m kernel_pointer user_stack_pointer user_entry_pointer =
     (case mapping_flags_for_address mp self m kernel_pointer of
        None \<Rightarrow> False
      | Some kernel_flags \<Rightarrow>
          if PRESENT \<notin> kernel_flags \<or> USER_ACCESSIBLE \<in> kernel_flags then False
          else case mapping_flags_for_address mp self m (UserVirtualAddress_as_address user_stack_pointer) of
            None \<Rightarrow> False
          | Some user_stack_flags \<Rightarrow>
              if \<not> {PRESENT, USER_ACCESSIBLE} \<subseteq> user_stack_flags
                 \<or> WRITABLE \<notin> user_stack_flags \<or> NO_EXECUTE \<notin> user_stack_flags then False
              else case mapping_flags_for_address mp self m (UserVirtualAddress_as_address user_entry_pointer) of
                None \<Rightarrow> False
              | Some user_entry_flags \<Rightarrow>
                  {PRESENT, USER_ACCESSIBLE} \<subseteq> user_entry_flags
                  \<and> WRITABLE \<notin> user_entry_flags \<and> NO_EXECUTE \<notin> user_entry_flags)"

definition user_single_byte_range :: "UserVirtualAddress \<Rightarrow> UserVirtualRange option" where
  "user_single_byte_range user_address = UserVirtualRange_new user_address 1"

definition readable_single_byte_range :: "UserVirtualAddress \<Rightarrow> UserReadableRange option" where
  "readable_single_byte_range user_address = map_option UserReadableRange (user_single_byte_range user_address)"

definition writable_single_byte_range :: "UserVirtualAddress \<Rightarrow> UserWritableRange option" where
  "writable_single_byte_range user_address = map_option UserWritableRange (user_single_byte_range user_address)"

definition verify_syscall_user_data_permissions ::
    "'m mapper \<Rightarrow> UserAddressSpace \<Rightarrow> 'm \<Rightarrow> UserVirtualAddress \<Rightarrow> UserVirtualAddress \<Rightarrow> bool run" where
  "verify_syscall_user_data_permissions mp self m user_stack_pointer user_entry_pointer =
     (case readable_single_byte_range user_stack_pointer of
        None \<Rightarrow> Done False
      | Some user_stack_read_range \<Rightarrow>
     (case writable_single_byte_range user_stack_pointer of
        None \<Rightarrow> Done False
      | Some user_stack_write_range \<Rightarrow>
     (case readable_single_byte_range user_entry_pointer of
        None \<Rightarrow> Done False
      | Some user_entry_read_range \<Rightarrow>
     (case writable_single_byte_range user_entry_pointer of
        None \<Rightarrow> Done False
      | Some user_entry_write_range \<Rightarrow>
          and_run (is_user_range_mapped_readable mp self m user_stack_read_range)
            (and_run (is_user_range_mapped_writable mp self m user_stack_write_range)
              (and_run (map_run Not (is_user_range_mapped_readable mp self m user_entry_read_range))
                (map_run Not (is_user_range_mapped_writable mp self m user_entry_write_range))))))))"

section \<open>What the kernel relies on\<close>

text \<open>
  \<open>view m root p\<close> is the frame and the flags that the tables under \<open>root\<close> give the 4 KiB page
  \<open>p\<close>. The documented behaviour of the walker, for the user half of the address space (where the
  kernel makes 4 KiB mappings only): a successful \<open>map_to\<close> needs an unmapped page, maps exactly
  it and takes at most three table frames, each by a call of the allocator callback; it succeeds
  when the callback can supply three; \<open>unmap\<close> fails exactly on an unmapped page and otherwise
  removes exactly that page; other roots keep their pages; \<open>translate\<close> reads the leaf flags.
\<close>

type_synonym 'm page_view = "'m \<Rightarrow> u64 \<Rightarrow> u64 \<Rightarrow> (u64 \<times> PageTableFlags) option"

type_synonym frame_callback = "PhysicalFrameAllocator \<Rightarrow> (PhysicalFrameAllocator \<times> u64 option) run"

definition supplied :: "frame_callback \<Rightarrow> PhysicalFrameAllocator \<Rightarrow> PhysicalFrameAllocator \<Rightarrow> bool" where
  "supplied cb fa fa' \<longleftrightarrow> (\<exists>f. cb fa = Done (fa', Some f))"

definition maps_exactly :: "'m mapper \<Rightarrow> 'm page_view \<Rightarrow> bool" where
  "maps_exactly mp view \<longleftrightarrow>
     (\<forall>cb m root p f fl fa m' fa'. map_to mp cb m root p f fl fa = Done (Some (m', fa')) \<longrightarrow>
        view m root p = None \<and> view m' root = (view m root)(p \<mapsto> (f, fl))
        \<and> (\<forall>other. other \<noteq> root \<longrightarrow> view m' other = view m other)
        \<and> (\<exists>n\<le>3. (supplied cb ^^ n) fa fa'))"

definition maps_when_supplied :: "'m mapper \<Rightarrow> 'm page_view \<Rightarrow> bool" where
  "maps_when_supplied mp view \<longleftrightarrow>
     (\<forall>cb m root p f fl fa. p < USER_SPACE_END \<and> view m root p = None
        \<and> (\<forall>n\<le>3. \<exists>fa'. (supplied cb ^^ n) fa fa') \<longrightarrow> (\<exists>m' fa'. map_to mp cb m root p f fl fa = Done (Some (m', fa'))))"

definition unmaps_exactly :: "'m mapper \<Rightarrow> 'm page_view \<Rightarrow> bool" where
  "unmaps_exactly mp view \<longleftrightarrow>
     (\<forall>m root p. unmap mp m root p = None \<longleftrightarrow> view m root p = None)
   \<and> (\<forall>m root p m' f. unmap mp m root p = Some (m', f) \<longrightarrow>
        (\<exists>fl. view m root p = Some (f, fl)) \<and> view m' root = (view m root)(p := None)
        \<and> (\<forall>other. other \<noteq> root \<longrightarrow> view m' other = view m other))"

definition translates_leaf :: "'m mapper \<Rightarrow> 'm page_view \<Rightarrow> bool" where
  "translates_leaf mp view \<longleftrightarrow>
     (\<forall>m root p. p < USER_SPACE_END \<and> 4096 dvd unat p \<longrightarrow> translate mp m root p = map_option snd (view m root p))"

definition mapper_ok :: "'m mapper \<Rightarrow> 'm page_view \<Rightarrow> bool" where
  "mapper_ok mp view \<longleftrightarrow>
     maps_exactly mp view \<and> maps_when_supplied mp view \<and> unmaps_exactly mp view \<and> translates_leaf mp view"

section \<open>Range validation\<close>

lemma page_nat_inj: "page_nat a = page_nat b \<longleftrightarrow> a = b"
  by (cases a; cases b) (metis UserPageStart.sel UserPageStart_as_u64_def UserVirtualAddress.expand
      UserVirtualAddress_as_u64_def VirtAddr.expand word_unat_eq_iff)

lemma next_user_page:
  assumes "user_page_ok p" "page_nat p + 4096 < 0x800000000000"
  shows "\<exists>q. UserPageStart_checked_add p PAGE_SIZE = Some q \<and> user_page_ok q \<and> page_nat q = page_nat p + 4096"
proof -
  obtain q where q: "user_page_ok q" "page_nat q = page_nat p + 4096"
    using user_page_exists [of "page_nat p + 4096"] assms by (auto simp: user_page_ok_unat)
  then have "UserPageStart_checked_add p PAGE_SIZE = Some q"
    using UserPageStart_checked_add_Some_iff by (simp add: user_page_ok_def)
  with q show ?thesis by blast
qed

lemma validate_loop_iff:
  assumes "user_page_ok p" "user_page_ok l" "page_nat p \<le> page_nat l"
  shows "validate_user_mapping_loop mp self m fl l p \<longleftrightarrow>
     (\<forall>q. user_page_ok q \<and> page_nat p \<le> page_nat q \<and> page_nat q \<le> page_nat l
        \<longrightarrow> is_page_mapped_with_flags mp self m q fl)"
  using assms
proof (induction "page_nat l - page_nat p" arbitrary: p rule: less_induct)
  case less
  show ?case
  proof (cases "p = l")
    case True
    have "q = l" if "page_nat l \<le> page_nat q" "page_nat q \<le> page_nat l" for q
      using that page_nat_inj by (metis le_antisym)
    then show ?thesis
      using True less(2) by (subst validate_user_mapping_loop.simps) auto
  next
    case False
    then have lt: "page_nat p < page_nat l" using less(4) page_nat_inj by (metis le_neq_implies_less)
    then have step: "page_nat p + 4096 \<le> page_nat l"
      using less(2,3) page_multiples_le [of "page_nat p + 4096" "page_nat l"] by (auto simp: user_page_ok_unat)
    then obtain n where n: "UserPageStart_checked_add p PAGE_SIZE = Some n" "user_page_ok n" "page_nat n = page_nat p + 4096"
      using next_user_page [OF less(2)] less(3) by (auto simp: user_page_ok_unat)
    have "page_nat l - page_nat n < page_nat l - page_nat p" using n(3) step by simp
    from less(1) [OF this n(2) less(3)] have IH: "validate_user_mapping_loop mp self m fl l n \<longleftrightarrow>
        (\<forall>q. user_page_ok q \<and> page_nat n \<le> page_nat q \<and> page_nat q \<le> page_nat l \<longrightarrow> is_page_mapped_with_flags mp self m q fl)"
      using n(3) step by simp
    have "page_nat p \<le> page_nat q \<longleftrightarrow> q = p \<or> page_nat n \<le> page_nat q" if "user_page_ok q" for q
      using that less(2) n(3) page_nat_inj [of p q] page_multiples_le [of "page_nat p + 4096" "page_nat q"]
      by (auto simp: user_page_ok_unat)
    then show ?thesis
      using False n(1) IH less(2,4) by (subst validate_user_mapping_loop.simps) auto
  qed
qed

text \<open>The user pages that a byte range touches.\<close>

definition touches :: "UserVirtualRange \<Rightarrow> UserPageStart \<Rightarrow> bool" where
  "touches r q \<longleftrightarrow> user_page_ok q
     \<and> page_nat q < user_nat (uvr_start r) + unat (uvr_byte_len r) \<and> user_nat (uvr_start r) < page_nat q + 4096"

lemma validate_runs:
  assumes "user_range_ok r"
  shows "validate_user_mapping mp self m r fl =
     Done (4096 \<le> user_nat (uvr_start r) \<and> (\<forall>q. touches r q \<longrightarrow> is_page_mapped_with_flags mp self m q fl))"
proof (cases "4096 \<le> user_nat (uvr_start r)")
  case True
  from range_page_span [OF assms True]
  obtain f l where fl: "UserVirtualRange_first_page_start r = Some f" "UserVirtualRange_last_page_start r = Done (Some l)"
    "user_page_ok f" "user_page_ok l" "page_nat f \<le> page_nat l"
    and span: "\<And>q. user_page_ok q \<Longrightarrow> page_nat f \<le> page_nat q \<and> page_nat q \<le> page_nat l \<longleftrightarrow>
             page_nat q < user_nat (uvr_start r) + unat (uvr_byte_len r) \<and> user_nat (uvr_start r) < page_nat q + 4096"
    by blast
  have "touches r q \<longleftrightarrow> user_page_ok q \<and> page_nat f \<le> page_nat q \<and> page_nat q \<le> page_nat l" for q
    using span [of q] by (auto simp: touches_def)
  then show ?thesis
    using True fl(1,2) validate_loop_iff [OF fl(3-5)] by (simp add: validate_user_mapping_def)
next
  case False
  then show ?thesis using first_page_null [of r] by (simp add: validate_user_mapping_def)
qed

section \<open>One page\<close>

abbreviation root_of :: "UserAddressSpace \<Rightarrow> u64" where
  "root_of self \<equiv> PhysicalFrameStart_as_u64 (level_4_frame self)"

lemma map_user_page_ensures:
  assumes "mapper_ok mp view"
  shows "ensures (map_user_page mp self m fa p f fl) (\<lambda>(m', fa').
     view m (root_of self) (UserPageStart_as_u64 p) = None
     \<and> view m' (root_of self) = (view m (root_of self))(UserPageStart_as_u64 p \<mapsto> (PhysicalFrameStart_as_u64 f, fl))
     \<and> (\<forall>other. other \<noteq> root_of self \<longrightarrow> view m' other = view m other))"
  using assms by (auto simp: map_user_page_def mapper_ok_def maps_exactly_def ensures_def bind_run_Done_iff expect_Done_iff)

lemma unmap_user_page_ensures:
  assumes "mapper_ok mp view"
  shows "ensures (unmap_user_page_for mp self m fa p ow) (\<lambda>((m', fa'), b).
     (b \<longleftrightarrow> view m (root_of self) (UserPageStart_as_u64 p) \<noteq> None)
     \<and> view m' (root_of self) = (view m (root_of self))(UserPageStart_as_u64 p := None)
     \<and> (\<forall>other. other \<noteq> root_of self \<longrightarrow> view m' other = view m other))"
proof (cases "unmap mp m (root_of self) (UserPageStart_as_u64 p)")
  case None
  then have "view m (root_of self) (UserPageStart_as_u64 p) = None" using assms by (simp add: mapper_ok_def unmaps_exactly_def)
  with None show ?thesis by (simp add: unmap_user_page_for_def fun_upd_idem)
next
  case (Some x)
  obtain m' f where x: "x = (m', f)" by (cases x)
  with Some assms have "\<exists>fl. view m (root_of self) (UserPageStart_as_u64 p) = Some (f, fl)"
    "view m' (root_of self) = (view m (root_of self))(UserPageStart_as_u64 p := None)"
    "\<forall>other. other \<noteq> root_of self \<longrightarrow> view m' other = view m other"
    unfolding mapper_ok_def unmaps_exactly_def by blast+
  with Some x show ?thesis
    by (auto simp: unmap_user_page_for_def ensures_def bind_run_Done_iff expect_Done_iff assert_run_Done_iff
        split: prod.splits)
qed

text \<open>A frame address that \<open>free_frames_for\<close> accepts, and the frame it names.\<close>

definition frame_address_ok :: "u64 \<Rightarrow> bool" where
  "frame_address_ok f \<longleftrightarrow> 4096 dvd unat f \<and> unat f + 4096 < 2 ^ 64"

lemma unmap_user_page_runs:
  assumes mp: "mapper_ok mp view" and fa: "fa_canon fa" "table_room fa" and ow: "ow \<noteq> Owner_Free"
    and v: "view m (root_of self) (UserPageStart_as_u64 p) = Some (f, fl)"
    and f: "frame_address_ok f" "unat f div 4096 \<in> fa_frames fa State_Used ow"
  shows "runs (unmap_user_page_for mp self m fa p ow) (\<lambda>((m', fa'), b). b
     \<and> view m' (root_of self) = (view m (root_of self))(UserPageStart_as_u64 p := None)
     \<and> fa_canon fa' \<and> tracked_count fa' \<le> tracked_count fa + 2 \<and> moved {unat f div 4096} (State_Used, ow) (State_Free, Owner_Free) fa fa')"
proof -
  obtain m' where m': "unmap mp m (root_of self) (UserPageStart_as_u64 p) = Some (m', f)"
    "view m' (root_of self) = (view m (root_of self))(UserPageStart_as_u64 p := None)"
  proof (cases "unmap mp m (root_of self) (UserPageStart_as_u64 p)")
    case None
    with mp v show ?thesis by (auto simp: mapper_ok_def unmaps_exactly_def)
  next
    case (Some x)
    obtain m' g where "x = (m', g)" by (cases x)
    with Some mp v show ?thesis using that unfolding mapper_ok_def unmaps_exactly_def by fastforce
  qed
  let ?s = "PhysicalFrameStart (PhysAddr f)"
  let ?rng = "\<lparr>pfr_start = ?s, pfr_frame_count = FrameCount 1\<rparr>"
  have "PhysicalFrameStart_new (PhysAddr f) = Some ?s"
    using f(1) by (simp add: PhysicalFrameStart_new_def is_multiple_of_page frame_address_ok_def)
  moreover have "PhysicalFrameRange_new ?s (FrameCount 1) = Some ?rng"
    using f(1) by (simp add: PhysicalFrameRange_new_def PhysicalFrameStart_as_u64_def FrameCount_byte_len_def
        checked_add_def frame_address_ok_def)
  ultimately have "unmap_user_page_for mp self m fa p ow
      = bind_run (free_frames_for fa ?rng ow) (\<lambda>(fa, freed). bind_run (assert_run freed) (\<lambda>_. Done ((m', fa), True)))"
    using m' by (simp add: unmap_user_page_for_def single_frame)
  moreover have ok: "frame_range_ok ?rng" "range_frames ?rng = {unat f div 4096}"
    using f(1) by (simp_all add: frame_range_ok_def frame_start_ok_def frame_count_ok_def PhysicalFrameStart_as_u64_def
        range_frames_def frame_address_ok_def)
  have free: "runs (free_frames_for fa ?rng ow) (\<lambda>(fa', b). b \<and> fa_canon fa'
      \<and> tracked_count fa' \<le> tracked_count fa + 2 \<and> moved {unat f div 4096} (State_Used, ow) (State_Free, Owner_Free) fa fa')"
    by (rule runs_conseq [OF free_runs [OF fa_canon_inv [OF fa(1)] ok(1) ow fa(2)]])
      (use fa(1) f(2) ok(2) in auto)
  moreover note free
  ultimately show ?thesis using m' by (auto elim!: runs_conseq)
qed

section \<open>Page-table frames\<close>

lemma moved_trans:
  assumes "moved A src dst s t" "moved B src dst t u" "src \<noteq> dst"
  shows "moved (A \<union> B) src dst s u"
  using assms by (auto simp: moved_def)

lemma moved_empty [simp]: "moved {} src dst s s"
  by (simp add: moved_def)

lemma finite_frames [simp]: "finite (fa_frames s st ow)"
  by (simp add: fa_frames_def cover_def)

lemma allocate_frame_runs:
  assumes "fa_canon fa" "tracked_count fa < MAX_TRACKED_RANGES" "ow \<noteq> Owner_Free"
  shows "runs (allocate_frame_for fa ow) (\<lambda>(fa', r). fa_canon fa' \<and> tracked_count fa' \<le> Suc (tracked_count fa) \<and>
     (case r of None \<Rightarrow> fa' = fa \<and> free_frames fa = {}
      | Some f \<Rightarrow> frame_address_ok (PhysicalFrameStart_as_u64 f)
          \<and> unat (PhysicalFrameStart_as_u64 f) div 4096 \<in> free_frames fa
          \<and> moved {unat (PhysicalFrameStart_as_u64 f) div 4096} (State_Free, Owner_Free) (State_Used, ow) fa fa'))"
proof -
  have "frame_count_ok (FrameCount 1)" by (simp add: frame_count_ok_def)
  note run = allocate_runs [OF fa_canon_inv [OF assms(1)] this assms(3,2)]
  have one: "allocate_frame_for fa ow = map_run (\<lambda>(fa, r). (fa, map_option pfr_start r)) (allocate_frames_for fa (FrameCount 1) ow)"
    by (simp add: allocate_frame_for_def FrameCount_new_def)
  show ?thesis
    unfolding one runs_map
    by (rule runs_conseq [OF run])
      (use assms(1) in \<open>auto simp: allocated_def range_frames_def frame_range_ok_def frame_start_ok_def
         frame_address_ok_def Let_def split: option.splits\<close>)
qed

abbreviation table_callback :: frame_callback where
  "table_callback \<equiv> AddressSpaceFrameAllocator_allocate_frame"

lemma callback_runs:
  assumes "fa_canon fa" "tracked_count fa < MAX_TRACKED_RANGES"
  shows "runs (table_callback fa) (\<lambda>(fa', r). fa_canon fa' \<and> tracked_count fa' \<le> Suc (tracked_count fa) \<and>
     (case r of None \<Rightarrow> fa' = fa \<and> free_frames fa = {}
      | Some f \<Rightarrow> \<exists>t\<in>free_frames fa. moved {t} (State_Free, Owner_Free) (State_Used, PageTable) fa fa'))"
  unfolding AddressSpaceFrameAllocator_allocate_frame_def runs_map
  by (rule runs_conseq [OF allocate_frame_runs [OF assms]]) (auto split: option.splits)

lemma supplied_moved:
  assumes "supplied table_callback fa fa'" "fa_canon fa" "tracked_count fa < MAX_TRACKED_RANGES"
  shows "fa_canon fa' \<and> tracked_count fa' \<le> Suc (tracked_count fa)
     \<and> (\<exists>t\<in>free_frames fa. moved {t} (State_Free, Owner_Free) (State_Used, PageTable) fa fa')"
  using callback_runs [OF assms(2,3)] assms(1) by (auto simp: supplied_def)

text \<open>The frames that page-table frames were made of, after a chain of callback calls.\<close>

definition tables_taken :: "nat set \<Rightarrow> PhysicalFrameAllocator \<Rightarrow> PhysicalFrameAllocator \<Rightarrow> bool" where
  "tables_taken T fa fa' \<longleftrightarrow> T \<subseteq> free_frames fa \<and> moved T (State_Free, Owner_Free) (State_Used, PageTable) fa fa'"

lemma tables_taken_free: "tables_taken T fa fa' \<Longrightarrow> free_frames fa' = free_frames fa - T"
  by (simp add: tables_taken_def moved_def)

lemma tables_taken_finite: "tables_taken T fa fa' \<Longrightarrow> finite T"
  unfolding tables_taken_def using finite_subset finite_frames by blast

lemma tables_taken_card: "tables_taken T fa fa' \<Longrightarrow> card (free_frames fa') = card (free_frames fa) - card T"
  using tables_taken_finite tables_taken_free by (simp add: card_Diff_subset tables_taken_def)

lemma tables_taken_used: "tables_taken T fa fa' \<Longrightarrow> ow \<noteq> PageTable \<Longrightarrow> fa_frames fa' State_Used ow = fa_frames fa State_Used ow"
  by (simp add: tables_taken_def moved_def)

lemma supplied_chain:
  assumes "(supplied table_callback ^^ n) fa fa'" "fa_canon fa" "tracked_count fa + n \<le> MAX_TRACKED_RANGES"
  shows "fa_canon fa' \<and> tracked_count fa' \<le> tracked_count fa + n \<and> (\<exists>T. card T = n \<and> tables_taken T fa fa')"
  using assms
proof (induction n arbitrary: fa')
  case 0
  then show ?case by (auto simp: tables_taken_def intro!: exI [of _ "{}"] simp: moved_def)
next
  case (Suc n)
  then obtain mid where mid: "(supplied table_callback ^^ n) fa mid" "supplied table_callback mid fa'" by auto
  then obtain T where T: "fa_canon mid" "tracked_count mid \<le> tracked_count fa + n" "card T = n" "tables_taken T fa mid"
    using Suc by auto
  obtain t where t: "t \<in> free_frames mid" "moved {t} (State_Free, Owner_Free) (State_Used, PageTable) mid fa'"
    "fa_canon fa'" "tracked_count fa' \<le> Suc (tracked_count mid)"
    using supplied_moved [OF mid(2) T(1)] T(2) Suc(4) by auto
  have free: "free_frames mid = free_frames fa - T" using T(4) by (rule tables_taken_free)
  have "finite T" using T(4) by (rule tables_taken_finite)
  moreover have "t \<notin> T" "t \<in> free_frames fa" using t(1) free by auto
  moreover have "moved (T \<union> {t}) (State_Free, Owner_Free) (State_Used, PageTable) fa fa'"
    using T(4) t(2) by (intro moved_trans) (simp_all add: tables_taken_def)
  ultimately have "card (insert t T) = Suc n \<and> tables_taken (insert t T) fa fa'"
    using T(3,4) by (simp add: tables_taken_def)
  with t T(2) show ?case by (intro conjI exI [of _ "insert t T"]) auto
qed

lemma can_supply:
  assumes "fa_canon fa" "tracked_count fa + n \<le> MAX_TRACKED_RANGES" "n \<le> card (free_frames fa)"
  shows "\<exists>fa'. (supplied table_callback ^^ n) fa fa'"
  using assms
proof (induction n)
  case (Suc n)
  then obtain mid where mid: "(supplied table_callback ^^ n) fa mid" by auto
  then obtain T where T: "fa_canon mid" "tracked_count mid \<le> tracked_count fa + n" "card T = n" "tables_taken T fa mid"
    using supplied_chain Suc by (metis Suc_leD add_Suc_right)
  have "card (free_frames mid) = card (free_frames fa) - n"
    using tables_taken_card [OF T(4)] T(3) by simp
  then have "free_frames mid \<noteq> {}" using Suc(4) by auto
  moreover have "runs (table_callback mid) (\<lambda>(fa', r). fa_canon fa' \<and> tracked_count fa' \<le> Suc (tracked_count mid) \<and>
     (case r of None \<Rightarrow> fa' = mid \<and> free_frames mid = {}
      | Some f \<Rightarrow> \<exists>t\<in>free_frames mid. moved {t} (State_Free, Owner_Free) (State_Used, PageTable) mid fa'))"
    using T Suc(3) by (intro callback_runs) auto
  ultimately obtain fa' f where "table_callback mid = Done (fa', Some f)"
    by (auto simp: runs_iff split: option.splits)
  then have "supplied table_callback mid fa'" by (auto simp: supplied_def)
  with mid show ?case by auto
qed simp

lemma map_user_page_runs:
  assumes mp: "mapper_ok mp view" and fa: "fa_canon fa" "tracked_count fa + 3 \<le> MAX_TRACKED_RANGES" "3 \<le> card (free_frames fa)"
    and p: "user_page_ok p" "view m (root_of self) (UserPageStart_as_u64 p) = None"
  shows "runs (map_user_page mp self m fa p f fl) (\<lambda>(m', fa').
     view m' (root_of self) = (view m (root_of self))(UserPageStart_as_u64 p \<mapsto> (PhysicalFrameStart_as_u64 f, fl))
     \<and> (\<forall>other. other \<noteq> root_of self \<longrightarrow> view m' other = view m other)
     \<and> fa_canon fa' \<and> tracked_count fa' \<le> tracked_count fa + 3 \<and> (\<exists>T. card T \<le> 3 \<and> tables_taken T fa fa'))"
proof -
  have "\<exists>fa'. (supplied table_callback ^^ n) fa fa'" if "n \<le> 3" for n
    using can_supply [OF fa(1), of n] fa that by auto
  moreover have "UserPageStart_as_u64 p < USER_SPACE_END"
    using p(1) by (simp add: user_page_ok_unat word_less_nat_alt)
  ultimately obtain m' fa' where m': "map_to mp table_callback m (root_of self) (UserPageStart_as_u64 p)
      (PhysicalFrameStart_as_u64 f) fl fa = Done (Some (m', fa'))"
    using mp p(2) unfolding mapper_ok_def maps_when_supplied_def by meson
  then have eff: "view m' (root_of self) = (view m (root_of self))(UserPageStart_as_u64 p \<mapsto> (PhysicalFrameStart_as_u64 f, fl))"
    "\<forall>other. other \<noteq> root_of self \<longrightarrow> view m' other = view m other" "\<exists>n\<le>3. (supplied table_callback ^^ n) fa fa'"
    using mp unfolding mapper_ok_def maps_exactly_def by blast+
  then obtain n where n: "n \<le> 3" "(supplied table_callback ^^ n) fa fa'" by blast
  then have "fa_canon fa' \<and> tracked_count fa' \<le> tracked_count fa + n \<and> (\<exists>T. card T = n \<and> tables_taken T fa fa')"
    using fa by (intro supplied_chain) auto
  with n(1) eff(1,2) m' show ?thesis by (auto simp: map_user_page_def)
qed

section \<open>A walker with the documented behaviour\<close>

text \<open>
  Tables kept as a map from pages to leaf entries; every mapping takes one table frame. It shows
  that \<open>mapper_ok\<close> can hold.
\<close>

type_synonym flat_tables = "u64 \<Rightarrow> u64 \<Rightarrow> (u64 \<times> PageTableFlags) option"

definition flat_mapper :: "flat_tables mapper" where
  "flat_mapper =
     \<lparr>map_to = (\<lambda>cb m root p f fl fa.
        if m root p \<noteq> None then Done None
        else map_run (\<lambda>(fa', r). map_option (\<lambda>_. (m(root := (m root)(p \<mapsto> (f, fl))), fa')) r) (cb fa)),
      unmap = (\<lambda>m root p. map_option (\<lambda>(f, fl). (m(root := (m root)(p := None)), f)) (m root p)),
      translate = (\<lambda>m root a. map_option snd (m root (a - a mod 4096)))\<rparr>"

lemma flat_mapper_ok: "mapper_ok flat_mapper (\<lambda>m. m)"
proof -
  have one: "m root p = None \<and> m' = m(root := (m root)(p \<mapsto> (f, fl))) \<and> supplied cb fa fa'"
    if "map_to flat_mapper cb m root p f fl fa = Done (Some (m', fa'))" for cb m root p f fl fa m' fa'
    using that by (cases "m root p") (auto simp: flat_mapper_def supplied_def map_run_def bind_run_Done_iff)
  have "maps_exactly flat_mapper (\<lambda>m. m)"
    unfolding maps_exactly_def
  proof (intro allI impI, goal_cases)
    case (1 cb m root p f fl fa m' fa')
    note o = one [OF 1]
    then have "(supplied cb ^^ 1) fa fa'" by (simp add: eq_OO)
    then have "\<exists>n\<le>3. (supplied cb ^^ n) fa fa'" by (intro exI [of _ 1]) simp
    with o show ?case by simp
  qed
  moreover have "\<exists>m' fa'. map_to flat_mapper cb m root p f fl fa = Done (Some (m', fa'))"
    if "m root p = None" "(supplied cb ^^ 1) fa fa1" for cb m root p f fl fa fa1
    using that by (auto simp: flat_mapper_def supplied_def)
  then have "maps_when_supplied flat_mapper (\<lambda>m. m)"
    unfolding maps_when_supplied_def by (metis one_le_numeral)
  moreover have "unmaps_exactly flat_mapper (\<lambda>m. m)"
    by (auto simp: unmaps_exactly_def flat_mapper_def)
  moreover have "p mod 4096 = 0" if "4096 dvd unat p" for p :: u64
    using that by (simp add: word_unat_eq_iff unat_mod mod_eq_0_iff_dvd)
  then have "translates_leaf flat_mapper (\<lambda>m. m)"
    by (auto simp: translates_leaf_def flat_mapper_def)
  ultimately show ?thesis by (simp add: mapper_ok_def)
qed

end
