(* ===== verification/User_Heap.thy ===== *)
theory User_Heap
  imports User_Address_Space
begin

text \<open>
  The user heap (\<open>kernel/memory/user_heap.rs\<close>): the break of one user task, the pages mapped
  for it, and the \<open>brk\<close> request that grows or shrinks it.
\<close>

section \<open>The machine state the user memory operations change\<close>

text \<open>
  Page tables, frame allocator and the bytes of physical memory. Page-table frames and data
  frames have different owners in the frame allocator, so the bytes of a data frame are kept
  apart from the tables.
\<close>

record 'm memory =
  tables :: 'm
  allocator :: PhysicalFrameAllocator
  bytes :: "u64 \<Rightarrow> u8"

definition zero_frame :: "usize \<Rightarrow> (u64 \<Rightarrow> u8) \<Rightarrow> u64 \<Rightarrow> u8" where
  "zero_frame start mem = (\<lambda>a. if unat start \<le> unat a \<and> unat a < unat start + 4096 then 0 else mem a)"

section \<open>Data\<close>

record UserHeap =
  heap_base :: UserVirtualAddress
  heap_current_break :: UserVirtualAddress
  heap_mapped_end :: UserPageStart

datatype UserHeapBreakRequest = Break_Current | Break_Set UserVirtualAddress

definition UserHeapBreakRequest_from_syscall_argument :: "u64 \<Rightarrow> UserHeapBreakRequest option" where
  "UserHeapBreakRequest_from_syscall_argument requested_break =
     (if requested_break = 0 then Some Break_Current
      else map_option Break_Set (UserVirtualAddress_new (VirtAddr requested_break)))"

fun UserHeapBreakRequest_as_u64 :: "UserHeapBreakRequest \<Rightarrow> u64" where
  "UserHeapBreakRequest_as_u64 Break_Current = 0"
| "UserHeapBreakRequest_as_u64 (Break_Set address) = UserVirtualAddress_as_u64 address"

definition UserHeap_new :: "UserVirtualAddress \<Rightarrow> UserHeap run" where
  "UserHeap_new initial_break =
     bind_run (expect (UserPageStart_new initial_break)) (\<lambda>mapped_end.
     bind_run (assert_run (UserVirtualAddress_as_u64 initial_break < USER_HEAP_END)) (\<lambda>_.
       Done \<lparr>heap_base = initial_break, heap_current_break = initial_break, heap_mapped_end = mapped_end\<rparr>))"

definition heap_mapped_pages :: "UserHeap \<Rightarrow> u64 run" where
  "heap_mapped_pages self =
     bind_run (expect (checked_sub (UserPageStart_as_u64 (heap_mapped_end self))
       (UserVirtualAddress_as_u64 (heap_base self)))) (\<lambda>n. Done (n div PAGE_SIZE))"

section \<open>Growing and shrinking\<close>

abbreviation heap_page_flags :: PageTableFlags where
  "heap_page_flags \<equiv> {PRESENT} \<union> {WRITABLE} \<union> {USER_ACCESSIBLE} \<union> {NO_EXECUTE}"

function map_new_pages_loop ::
    "'m mapper \<Rightarrow> UserAddressSpace \<Rightarrow> UserPageStart \<Rightarrow> UserHeap \<Rightarrow> 'm memory \<Rightarrow> UserPageStart
       \<Rightarrow> ((UserHeap \<times> 'm memory) \<times> bool) run" where
  "map_new_pages_loop mp space mapped_end self st page_start =
     (if UserPageStart_as_u64 page_start < UserPageStart_as_u64 mapped_end
      then bind_run (allocate_frame_for (allocator st) UserHeap) (\<lambda>(fa, r).
        case r of
          None \<Rightarrow> Done ((self, st\<lparr>allocator := fa\<rparr>), False)
        | Some physical_address \<Rightarrow>
            bind_run (PhysicalFrameStart_as_usize physical_address) (\<lambda>page_pointer.
            bind_run (map_user_page mp space (tables st) fa page_start physical_address heap_page_flags) (\<lambda>(m, fa).
            bind_run (expect (UserPageStart_checked_add page_start PAGE_SIZE)) (\<lambda>next_start.
              map_new_pages_loop mp space mapped_end (self\<lparr>heap_mapped_end := next_start\<rparr>)
                (st\<lparr>tables := m, allocator := fa, bytes := zero_frame page_pointer (bytes st)\<rparr>) next_start))))
      else Done ((self, st), True))"
  by pat_completeness auto
termination
proof (relation "measure (\<lambda>(mp, space, me, self, st, page). unat USER_SPACE_END - unat (UserPageStart_as_u64 page))", goal_cases)
  case (2 mp space me self st page _ _ _ _ _ _ _ _ q)
  then have "UserPageStart_checked_add page PAGE_SIZE = Some q" by (simp add: expect_Done_iff)
  from UserPageStart_checked_add_increases [OF this] show ?case by simp
qed simp

definition map_new_pages ::
    "'m mapper \<Rightarrow> UserAddressSpace \<Rightarrow> UserHeap \<Rightarrow> 'm memory \<Rightarrow> UserPageStart
       \<Rightarrow> ((UserHeap \<times> 'm memory) \<times> bool) run" where
  "map_new_pages mp space self st mapped_end =
     map_new_pages_loop mp space mapped_end self st (heap_mapped_end self)"

lemma UserPageStart_checked_sub_decreases:
  assumes "UserPageStart_checked_sub p PAGE_SIZE = Some q"
  shows "unat (UserPageStart_as_u64 q) + 4096 = unat (UserPageStart_as_u64 p)"
  using assms by (auto simp: UserPageStart_checked_sub_Some_iff)

function unmap_old_pages_loop ::
    "'m mapper \<Rightarrow> UserAddressSpace \<Rightarrow> UserPageStart \<Rightarrow> UserHeap \<Rightarrow> 'm memory \<Rightarrow> UserPageStart
       \<Rightarrow> (UserHeap \<times> 'm memory) run" where
  "unmap_old_pages_loop mp space mapped_end self st page_start =
     (if UserPageStart_as_u64 mapped_end < UserPageStart_as_u64 page_start
      then bind_run (expect (UserPageStart_checked_sub page_start PAGE_SIZE)) (\<lambda>page_start.
           bind_run (unmap_user_page_for mp space (tables st) (allocator st) page_start UserHeap) (\<lambda>((m, fa), unmapped).
           bind_run (assert_run unmapped) (\<lambda>_.
             unmap_old_pages_loop mp space mapped_end (self\<lparr>heap_mapped_end := page_start\<rparr>)
               (st\<lparr>tables := m, allocator := fa\<rparr>) page_start)))
      else Done (self, st))"
  by pat_completeness auto
termination
proof (relation "measure (\<lambda>(mp, space, me, self, st, page). unat (UserPageStart_as_u64 page))", goal_cases)
  case 2
  then show ?case by (auto simp: expect_Done_iff dest!: UserPageStart_checked_sub_decreases)
qed simp

declare map_new_pages_loop.simps [simp del] unmap_old_pages_loop.simps [simp del]

definition unmap_old_pages ::
    "'m mapper \<Rightarrow> UserAddressSpace \<Rightarrow> UserHeap \<Rightarrow> 'm memory \<Rightarrow> UserPageStart \<Rightarrow> (UserHeap \<times> 'm memory) run" where
  "unmap_old_pages mp space self st mapped_end =
     unmap_old_pages_loop mp space mapped_end self st (heap_mapped_end self)"

definition process_break ::
    "'m mapper \<Rightarrow> UserAddressSpace \<Rightarrow> UserHeap \<Rightarrow> 'm memory \<Rightarrow> UserHeapBreakRequest
       \<Rightarrow> ((UserHeap \<times> 'm memory) \<times> UserVirtualAddress) run" where
  "process_break mp space self st request =
     (case request of
        Break_Current \<Rightarrow> Done ((self, st), heap_current_break self)
      | Break_Set requested_break \<Rightarrow>
          if UserVirtualAddress_as_u64 requested_break < UserVirtualAddress_as_u64 (heap_base self)
             \<or> USER_HEAP_END \<le> UserVirtualAddress_as_u64 requested_break
          then Done ((self, st), heap_current_break self)
          else case UserVirtualAddress_align_up_to_page requested_break of
            None \<Rightarrow> Done ((self, st), heap_current_break self)
          | Some mapped_end \<Rightarrow>
              bind_run (if UserPageStart_as_u64 (heap_mapped_end self) < UserPageStart_as_u64 mapped_end
                        then map_new_pages mp space self st mapped_end else Done ((self, st), True))
                (\<lambda>((self, st), grown).
                  if \<not> grown then Done ((self, st), heap_current_break self)
                  else bind_run (if UserPageStart_as_u64 mapped_end < UserPageStart_as_u64 (heap_mapped_end self)
                                 then unmap_old_pages mp space self st mapped_end else Done (self, st))
                    (\<lambda>(self, st).
                      Done ((self\<lparr>heap_current_break := requested_break\<rparr>, st), requested_break))))"

section \<open>What growing does\<close>

definition page_in :: "nat \<Rightarrow> nat \<Rightarrow> u64 \<Rightarrow> bool" where
  "page_in lo hi p \<longleftrightarrow> 4096 dvd unat p \<and> lo \<le> unat p \<and> unat p < hi"

definition zeroed :: "(u64 \<Rightarrow> u8) \<Rightarrow> u64 \<Rightarrow> bool" where
  "zeroed mem f \<longleftrightarrow> (\<forall>a. unat f \<le> unat a \<and> unat a < unat f + 4096 \<longrightarrow> mem a = 0)"

definition pages_added :: "nat \<Rightarrow> nat \<Rightarrow> (u64 \<Rightarrow> u8) \<Rightarrow> (u64 \<Rightarrow> (u64 \<times> PageTableFlags) option)
    \<Rightarrow> (u64 \<Rightarrow> (u64 \<times> PageTableFlags) option) \<Rightarrow> bool" where
  "pages_added lo hi mem v v' \<longleftrightarrow> (\<forall>p. if page_in lo hi p
     then v p = None \<and> (\<exists>f. v' p = Some (f, heap_page_flags) \<and> zeroed mem f) else v' p = v p)"

definition pages_removed :: "nat \<Rightarrow> nat \<Rightarrow> (u64 \<Rightarrow> (u64 \<times> PageTableFlags) option)
    \<Rightarrow> (u64 \<Rightarrow> (u64 \<times> PageTableFlags) option) \<Rightarrow> bool" where
  "pages_removed lo hi v v' \<longleftrightarrow> (\<forall>p. if page_in lo hi p then v p \<noteq> None \<and> v' p = None else v' p = v p)"

lemma zeroed_zero_frame [simp]: "zeroed (zero_frame f mem) f"
  by (simp add: zeroed_def zero_frame_def)

lemma zero_frame_zeroed: "zeroed mem g \<Longrightarrow> zeroed (zero_frame f mem) g"
  by (simp add: zeroed_def zero_frame_def)

lemma page_in_step:
  assumes "user_page_ok p" "page_nat p < hi"
  shows "page_in (page_nat p) hi q \<longleftrightarrow> q = UserPageStart_as_u64 p \<or> page_in (page_nat p + 4096) hi q"
proof (cases "4096 dvd unat q \<and> page_nat p < unat q")
  case True
  then have "page_nat p + 4096 \<le> unat q"
    using assms(1) page_multiples_le [of "page_nat p + 4096" "unat q"] by (auto simp: user_page_ok_unat)
  with True show ?thesis by (auto simp: page_in_def)
next
  case False
  then show ?thesis using assms by (auto simp: page_in_def user_page_ok_unat word_unat_eq_iff)
qed

lemma page_in_last:
  assumes "user_page_ok p" "lo \<le> page_nat p"
  shows "page_in lo (page_nat p + 4096) q \<longleftrightarrow> q = UserPageStart_as_u64 p \<or> page_in lo (page_nat p) q"
proof (cases "4096 dvd unat q \<and> unat q < page_nat p + 4096")
  case True
  then have "unat q \<le> page_nat p"
    using assms(1) page_multiples_le [of "unat q" "page_nat p"] by (auto simp: user_page_ok_unat)
  with True show ?thesis using assms by (auto simp: page_in_def word_unat_eq_iff user_page_ok_unat)
next
  case False
  then show ?thesis using assms by (auto simp: page_in_def user_page_ok_unat)
qed

lemma page_in_start [simp]: "\<not> page_in (unat p + 4096) hi p" "\<not> page_in lo (unat p) p"
  by (simp_all add: page_in_def)

lemma page_in_empty [simp]: "\<not> page_in lo lo p"
  by (simp add: page_in_def)

lemma frame_usize: "PhysicalFrameStart_as_usize f = Done (PhysicalFrameStart_as_u64 f)"
  by (simp add: PhysicalFrameStart_as_usize_def PhysAddr_as_usize_def PhysicalFrameStart_as_u64_def
      PhysicalFrameStart_as_address_def usize_try_from_def address_defs)

lemma frame_as_usize: "PhysicalFrameStart_as_usize f = Done u \<Longrightarrow> u = PhysicalFrameStart_as_u64 f"
  by (auto simp: PhysicalFrameStart_as_usize_def PhysAddr_as_usize_def PhysicalFrameStart_as_u64_def
      PhysicalFrameStart_as_address_def usize_try_from_def run_iffs address_defs split: sum.splits if_splits)

text \<open>
  \<open>grew view root h st h' st'\<close>: the heap was extended, by no page or by some, with fresh zeroed
  pages from its old mapped end on; nothing else was mapped or unmapped.
\<close>

definition grew :: "'m page_view \<Rightarrow> u64 \<Rightarrow> UserHeap \<Rightarrow> 'm memory \<Rightarrow> UserHeap \<Rightarrow> 'm memory \<Rightarrow> bool" where
  "grew view root h st h' st' \<longleftrightarrow>
     (let lo = page_nat (heap_mapped_end h); hi = page_nat (heap_mapped_end h') in
      user_page_ok (heap_mapped_end h') \<and> lo \<le> hi \<and> h' = h\<lparr>heap_mapped_end := heap_mapped_end h'\<rparr>
      \<and> pages_added lo hi (bytes st') (view (tables st) root) (view (tables st') root)
      \<and> (\<forall>other. other \<noteq> root \<longrightarrow> view (tables st') other = view (tables st) other)
      \<and> (\<forall>f. zeroed (bytes st) f \<longrightarrow> zeroed (bytes st') f))"

lemma grew_refl: "user_page_ok (heap_mapped_end h) \<Longrightarrow> tables st' = tables st \<Longrightarrow> bytes st' = bytes st \<Longrightarrow> grew view root h st h st'"
  by (simp add: grew_def pages_added_def)

lemma grew_step:
  assumes v: "view (tables st) root (UserPageStart_as_u64 page) = None"
    and v': "view m' root = (view (tables st) root)(UserPageStart_as_u64 page \<mapsto> (u, heap_page_flags))"
    and oth: "\<forall>other. other \<noteq> root \<longrightarrow> view m' other = view (tables st) other"
    and h: "heap_mapped_end h = page" "user_page_ok page" "page_nat n = page_nat page + 4096"
    and rest: "grew view root (h\<lparr>heap_mapped_end := n\<rparr>) (st\<lparr>tables := m', allocator := fa', bytes := zero_frame u (bytes st)\<rparr>) h' st'"
  shows "grew view root h st h' st'"
proof -
  let ?e = "page_nat (heap_mapped_end h')" and ?p = "UserPageStart_as_u64 page"
  have r: "user_page_ok (heap_mapped_end h')" "page_nat page + 4096 \<le> ?e" "h' = h\<lparr>heap_mapped_end := heap_mapped_end h'\<rparr>"
    "pages_added (page_nat page + 4096) ?e (bytes st') (view m' root) (view (tables st') root)"
    "\<forall>other. other \<noteq> root \<longrightarrow> view (tables st') other = view m' other"
    and z: "\<And>f. zeroed (zero_frame u (bytes st)) f \<Longrightarrow> zeroed (bytes st') f"
    using rest h(3) by (auto simp: grew_def Let_def)
  have "pages_added (page_nat page) ?e (bytes st') (view (tables st) root) (view (tables st') root)"
    unfolding pages_added_def
  proof
    fix q
    have in_q: "page_in (page_nat page) ?e q \<longleftrightarrow> q = ?p \<or> page_in (page_nat page + 4096) ?e q"
      using page_in_step [OF h(2)] r(2) by simp
    show "if page_in (page_nat page) ?e q then view (tables st) root q = None \<and>
          (\<exists>f. view (tables st') root q = Some (f, heap_page_flags) \<and> zeroed (bytes st') f)
        else view (tables st') root q = view (tables st) root q"
      using r(4) [unfolded pages_added_def, rule_format, of q] in_q v v' z [OF zeroed_zero_frame]
      by (cases "q = ?p") (auto split: if_splits)
  qed
  then show ?thesis
    using r oth h z zero_frame_zeroed unfolding grew_def Let_def by auto
qed

lemma map_new_pages_ensures:
  fixes mp :: "'m mapper"
  assumes mp: "mapper_ok mp view" and "user_page_ok page" "user_page_ok target"
    and "page_nat page \<le> page_nat target" "heap_mapped_end h = page"
  shows "ensures (map_new_pages_loop mp space target h st page) (\<lambda>((h', st'), grown).
     grew view (root_of space) h st h' st' \<and> page_nat (heap_mapped_end h') \<le> page_nat target
     \<and> (grown \<longleftrightarrow> heap_mapped_end h' = target))"
  using assms(2-)
proof (induction "page_nat target - page_nat page" arbitrary: page h st rule: less_induct)
  case less
  show ?case
  proof (cases "page_nat page < page_nat target")
    case False
    with less(4) have "page = target" using page_nat_inj by (metis le_neq_implies_less)
    with less(2,5) show ?thesis by (subst map_new_pages_loop.simps) (simp add: grew_refl)
  next
    case True
    have step: "page_nat page + 4096 \<le> page_nat target"
      using True less(2,3) page_multiples_le [of "page_nat page + 4096" "page_nat target"] by (auto simp: user_page_ok_unat)
    then obtain n where n: "UserPageStart_checked_add page PAGE_SIZE = Some n" "user_page_ok n" "page_nat n = page_nat page + 4096"
      using next_user_page [OF less(2)] less(3) by (auto simp: user_page_ok_unat)
    have ne: "page \<noteq> target" using True by auto
    note IH = less(1) [of n, OF _ n(2) less(3)]
    show ?thesis
      apply (subst map_new_pages_loop.simps)
      apply (simp add: word_less_nat_alt True)
      apply (rule ensures_conseq [of _ "\<lambda>_. True"])
       apply (simp add: ensures_def)
      apply (clarsimp split: option.splits, intro conjI impI allI)
      subgoal using less(2,5) by (simp add: grew_refl)
      subgoal using less(4,5) by simp
      subgoal using less(5) ne by simp
      subgoal
        apply (subst ensures_def, intro allI impI, drule frame_as_usize)
        apply (rule ensures_conseq [OF map_user_page_ensures [OF mp]])
        apply (clarsimp simp: n(1))
        apply (rule ensures_conseq [OF IH])
        using n(3) step less(2,5) by (auto intro: grew_step)
      done
  qed
qed

section \<open>What shrinking does\<close>

text \<open>
  Every page of \<open>[lo, hi)\<close> is backed by a frame of its own that the allocator records as used by
  \<open>ow\<close>; \<open>backing\<close> is the set of those frames.
\<close>

definition backing :: "(u64 \<Rightarrow> (u64 \<times> PageTableFlags) option) \<Rightarrow> nat \<Rightarrow> nat \<Rightarrow> nat set" where
  "backing v lo hi = {unat f div 4096 |p f fl. page_in lo hi p \<and> v p = Some (f, fl)}"

definition backed :: "(u64 \<Rightarrow> (u64 \<times> PageTableFlags) option) \<Rightarrow> PhysicalFrameAllocator \<Rightarrow> FrameRangeOwner \<Rightarrow> nat \<Rightarrow> nat \<Rightarrow> bool" where
  "backed v fa ow lo hi \<longleftrightarrow>
     (\<forall>p. page_in lo hi p \<longrightarrow> (\<exists>f fl. v p = Some (f, fl) \<and> frame_address_ok f \<and> unat f div 4096 \<in> fa_frames fa State_Used ow))
   \<and> (\<forall>p q f g fl gl. page_in lo hi p \<and> page_in lo hi q \<and> v p = Some (f, fl) \<and> v q = Some (g, gl)
        \<and> unat f div 4096 = unat g div 4096 \<longrightarrow> p = q)"

lemma previous_user_page:
  assumes "user_page_ok p" "4096 < page_nat p"
  shows "\<exists>q. UserPageStart_checked_sub p PAGE_SIZE = Some q \<and> user_page_ok q \<and> page_nat q + 4096 = page_nat p"
proof -
  have "4096 dvd page_nat p - 4096" "page_nat p - 4096 < 0x800000000000" "0 < page_nat p - 4096"
    using assms by (auto simp: user_page_ok_unat dvd_diff_nat)
  then obtain q where q: "user_page_ok q" "page_nat q = page_nat p - 4096"
    using user_page_exists [of "page_nat p - 4096"] by auto
  then have "UserPageStart_checked_sub p PAGE_SIZE = Some q"
    using UserPageStart_checked_sub_Some_iff assms by (simp add: user_page_ok_def)
  with q assms show ?thesis by auto
qed

lemma backed_last:
  assumes "backed v fa ow lo (page_nat q + 4096)" "user_page_ok q" "lo \<le> page_nat q"
    and "v (UserPageStart_as_u64 q) = Some (f, fl)"
    and "moved {unat f div 4096} (State_Used, ow) (State_Free, Owner_Free) fa fa'"
  shows "backed (v(UserPageStart_as_u64 q := None)) fa' ow lo (page_nat q)"
proof -
  have inq: "page_in lo (page_nat q + 4096) p" "p \<noteq> UserPageStart_as_u64 q" if "page_in lo (page_nat q) p" for p
    using that page_in_last [OF assms(2,3)] by auto
  have qin: "page_in lo (page_nat q + 4096) (UserPageStart_as_u64 q)"
    using page_in_last [OF assms(2,3)] by simp
  have used: "fa_frames fa' State_Used ow = fa_frames fa State_Used ow - {unat f div 4096}"
    using assms(5) by (simp add: moved_def)
  have ex: "\<exists>g gl. v p = Some (g, gl) \<and> frame_address_ok g \<and> unat g div 4096 \<in> fa_frames fa' State_Used ow"
    if p: "page_in lo (page_nat q) p" for p
  proof -
    obtain g gl where g: "v p = Some (g, gl)" "frame_address_ok g" "unat g div 4096 \<in> fa_frames fa State_Used ow"
      using assms(1) inq(1) [OF p] unfolding backed_def by blast
    moreover have "unat g div 4096 \<noteq> unat f div 4096"
      using assms(1) inq [OF p] qin g(1) assms(4) unfolding backed_def by metis
    ultimately show ?thesis using used by auto
  qed
  show ?thesis
    unfolding backed_def
  proof (intro conjI allI impI, goal_cases)
    case (1 p)
    then show ?case using ex [OF 1] inq(2) [OF 1] by auto
  next
    case (2 p r g h gl hl)
    then show ?case using assms(1) inq unfolding backed_def by (metis fun_upd_apply)
  qed
qed

lemma backing_last:
  assumes "user_page_ok q" "lo \<le> page_nat q" "v (UserPageStart_as_u64 q) = Some (f, fl)"
  shows "backing v lo (page_nat q + 4096) = {unat f div 4096} \<union> backing (v(UserPageStart_as_u64 q := None)) lo (page_nat q)"
  using assms(3) page_in_last [OF assms(1,2)] by (auto simp: backing_def) (use page_in_start in metis)

lemma pages_removed_last:
  assumes "user_page_ok q" "lo \<le> page_nat q" "v (UserPageStart_as_u64 q) = Some (f, fl)"
    and "pages_removed lo (page_nat q) (v(UserPageStart_as_u64 q := None)) v'"
  shows "pages_removed lo (page_nat q + 4096) v v'"
  using assms(3,4) page_in_last [OF assms(1,2)] unfolding pages_removed_def
  by (metis fun_upd_apply option.discI page_in_start(2))

text \<open>
  \<open>shrank view root target h st h' st'\<close>: exactly the pages from \<open>target\<close> to the old mapped end
  were unmapped and their frames, and no others, went from the heap back to the free pool.
\<close>

definition shrank :: "'m page_view \<Rightarrow> u64 \<Rightarrow> UserPageStart \<Rightarrow> UserHeap \<Rightarrow> 'm memory \<Rightarrow> UserHeap \<Rightarrow> 'm memory \<Rightarrow> bool" where
  "shrank view root target h st h' st' \<longleftrightarrow>
     (let lo = page_nat target; hi = page_nat (heap_mapped_end h) in
      h' = h\<lparr>heap_mapped_end := target\<rparr> \<and> bytes st' = bytes st
      \<and> pages_removed lo hi (view (tables st) root) (view (tables st') root)
      \<and> (\<forall>other. other \<noteq> root \<longrightarrow> view (tables st') other = view (tables st) other)
      \<and> fa_canon (allocator st')
      \<and> moved (backing (view (tables st) root) lo hi) (State_Used, FrameRangeOwner.UserHeap) (State_Free, Owner_Free)
          (allocator st) (allocator st'))"

lemma runs_ensures_conj: "runs m P \<Longrightarrow> ensures m Q \<Longrightarrow> runs m (\<lambda>x. P x \<and> Q x)"
  by (cases m) auto

lemma page_in_first: "user_page_ok q \<Longrightarrow> lo \<le> page_nat q \<Longrightarrow> page_nat q < hi \<Longrightarrow> page_in lo hi (UserPageStart_as_u64 q)"
  by (simp add: page_in_def user_page_ok_unat)

lemma unmap_old_pages_runs:
  fixes mp :: "'m mapper"
  assumes mp: "mapper_ok mp view" and "user_page_ok page" "user_page_ok target"
    and "page_nat target \<le> page_nat page" "heap_mapped_end h = page" "fa_canon (allocator st)"
    and "tracked_count (allocator st) + 2 * ((page_nat page - page_nat target) div 4096) \<le> MAX_TRACKED_RANGES"
    and "backed (view (tables st) (root_of space)) (allocator st) FrameRangeOwner.UserHeap (page_nat target) (page_nat page)"
  shows "runs (unmap_old_pages_loop mp space target h st page) (\<lambda>(h', st').
     shrank view (root_of space) target h st h' st')"
  using assms(2-)
proof (induction "page_nat page - page_nat target" arbitrary: page h st rule: less_induct)
  case less
  let ?root = "root_of space"
  show ?case
  proof (cases "page_nat target < page_nat page")
    case False
    with less(4) have "page = target" using page_nat_inj by (metis le_neq_implies_less)
    with less(2,5,6) show ?thesis
      by (subst unmap_old_pages_loop.simps) (simp add: shrank_def pages_removed_def backing_def)
  next
    case True
    have step: "page_nat target + 4096 \<le> page_nat page" "4096 < page_nat page"
      using True less(2,3) page_multiples_le [of "page_nat target + 4096" "page_nat page"] by (auto simp: user_page_ok_unat)
    then obtain q where q: "UserPageStart_checked_sub page PAGE_SIZE = Some q" "user_page_ok q" "page_nat page = page_nat q + 4096"
      using previous_user_page [OF less(2)] by metis
    have le: "page_nat target \<le> page_nat q" using step q by simp
    have cnt: "(page_nat page - page_nat target) div 4096 = Suc ((page_nat q - page_nat target) div 4096)"
    proof -
      have "page_nat page - page_nat target = page_nat q - page_nat target + 4096" using le q(3) by simp
      then show ?thesis by simp
    qed
    have inq: "page_in (page_nat target) (page_nat page) (UserPageStart_as_u64 q)"
      using q(3) by (intro page_in_first [OF q(2) le]) simp
    obtain f fl where f: "view (tables st) ?root (UserPageStart_as_u64 q) = Some (f, fl)" "frame_address_ok f"
      "unat f div 4096 \<in> fa_frames (allocator st) State_Used FrameRangeOwner.UserHeap"
      using less(8) inq unfolding backed_def by metis
    have room: "table_room (allocator st)" using less(7) cnt by simp
    have one: "runs (unmap_user_page_for mp space (tables st) (allocator st) q FrameRangeOwner.UserHeap) (\<lambda>((m', fa'), b). b
       \<and> view m' ?root = (view (tables st) ?root)(UserPageStart_as_u64 q := None)
       \<and> (\<forall>other. other \<noteq> ?root \<longrightarrow> view m' other = view (tables st) other)
       \<and> fa_canon fa' \<and> tracked_count fa' \<le> tracked_count (allocator st) + 2
       \<and> moved {unat f div 4096} (State_Used, FrameRangeOwner.UserHeap) (State_Free, Owner_Free) (allocator st) fa')"
      by (rule runs_conseq [OF runs_ensures_conj [OF
            unmap_user_page_runs [OF mp less(6) room _ f] unmap_user_page_ensures [OF mp]]]) auto
    have rest: "shrank view ?root target h st h' st'"
      if s: "view m' ?root = (view (tables st) ?root)(UserPageStart_as_u64 q := None)"
        "\<forall>other. other \<noteq> ?root \<longrightarrow> view m' other = view (tables st) other"
        "moved {unat f div 4096} (State_Used, FrameRangeOwner.UserHeap) (State_Free, Owner_Free) (allocator st) fa'"
        and sh: "shrank view ?root target (h\<lparr>heap_mapped_end := q\<rparr>) (st\<lparr>tables := m', allocator := fa'\<rparr>) h' st'"
      for m' fa' h' st'
      using sh s(1,2) moved_trans [OF s(3)] pages_removed_last [where v = "view (tables st) ?root", OF q(2) le f(1)] less(5) q(3)
      unfolding shrank_def Let_def by (simp add: backing_last [where v = "view (tables st) ?root", OF q(2) le f(1)])
    show ?thesis
      apply (subst unmap_old_pages_loop.simps)
      apply (simp add: word_less_nat_alt True q(1))
      apply (rule runs_conseq [OF one])
      apply clarsimp
      subgoal for m' fa'
        using less(7) cnt q(3) step backed_last [where v = "view (tables st) ?root", OF less(8) [unfolded q(3)] q(2) le f(1)]
        by (intro runs_conseq [OF less(1)]) (auto simp: q(2) less(3) le intro: rest)
      done
  qed
qed

section \<open>Growing never fails when frames are left\<close>

lemma backed_grow:
  assumes b: "backed v fa ow lo (page_nat p)" and p: "user_page_ok p" "lo \<le> page_nat p"
    and f: "frame_address_ok f" "unat f div 4096 \<in> free_frames fa" "fa_canon fa"
    and mv: "moved {unat f div 4096} (State_Free, Owner_Free) (State_Used, ow) fa fa1" "tables_taken T fa1 fa2"
    and ow: "ow \<noteq> PageTable"
  shows "backed (v(UserPageStart_as_u64 p \<mapsto> (f, fl))) fa2 ow lo (page_nat p + 4096)"
proof -
  have used: "fa_frames fa2 State_Used ow = fa_frames fa State_Used ow \<union> {unat f div 4096}"
    using tables_taken_used [OF mv(2) ow] mv(1) by (simp add: moved_def)
  have new: "unat f div 4096 \<notin> fa_frames fa State_Used ow"
    using free_used_disjoint [OF fa_canon_inv [OF f(3)]] f(2) by blast
  note split = page_in_last [OF p]
  show ?thesis
    unfolding backed_def
  proof (intro conjI allI impI, goal_cases)
    case (1 q)
    then show ?case using b split [of q] used f(1) unfolding backed_def by (cases "q = UserPageStart_as_u64 p") auto
  next
    case (2 q r g h gl hl)
    have other: "unat k div 4096 \<in> fa_frames fa State_Used ow"
      if "page_in lo (page_nat p) x" "v x = Some (k, kl)" for x k kl
      using b that unfolding backed_def by fastforce
    show ?case
    proof (cases "q = UserPageStart_as_u64 p \<or> r = UserPageStart_as_u64 p")
      case True
      then show ?thesis using 2 other [of r h hl] other [of q g gl] new split by (auto split: if_splits)
    next
      case False
      then have "page_in lo (page_nat p) q" "page_in lo (page_nat p) r" "v q = Some (g, gl)" "v r = Some (h, hl)"
        using 2 split by auto
      with 2 b show ?thesis unfolding backed_def by blast
    qed
  qed
qed

lemma map_new_pages_runs:
  fixes mp :: "'m mapper"
  assumes mp: "mapper_ok mp view" and "user_page_ok page" "user_page_ok target"
    and "page_nat page \<le> page_nat target" "heap_mapped_end h = page" "fa_canon (allocator st)"
    and "tracked_count (allocator st) + 4 * ((page_nat target - page_nat page) div 4096) \<le> MAX_TRACKED_RANGES"
    and "4 * ((page_nat target - page_nat page) div 4096) \<le> card (free_frames (allocator st))"
    and "\<forall>p. page_in (page_nat page) (page_nat target) p \<longrightarrow> view (tables st) (root_of space) p = None"
    and "backed (view (tables st) (root_of space)) (allocator st) FrameRangeOwner.UserHeap lo (page_nat page)" "lo \<le> page_nat page"
  shows "runs (map_new_pages_loop mp space target h st page) (\<lambda>((h', st'), grown). grown
     \<and> fa_canon (allocator st')
     \<and> backed (view (tables st') (root_of space)) (allocator st') FrameRangeOwner.UserHeap lo (page_nat target))"
  using assms(2-)
proof (induction "page_nat target - page_nat page" arbitrary: page h st rule: less_induct)
  case less
  let ?root = "root_of space"
  show ?case
  proof (cases "page_nat page < page_nat target")
    case False
    with less(4) have "page = target" using page_nat_inj by (metis le_neq_implies_less)
    with less show ?thesis by (subst map_new_pages_loop.simps) simp
  next
    case True
    have step: "page_nat page + 4096 \<le> page_nat target"
      using True less(2,3) page_multiples_le [of "page_nat page + 4096" "page_nat target"] by (auto simp: user_page_ok_unat)
    then obtain n where n: "UserPageStart_checked_add page PAGE_SIZE = Some n" "user_page_ok n" "page_nat n = page_nat page + 4096"
      using next_user_page [OF less(2)] less(3) by (auto simp: user_page_ok_unat)
    have cnt: "(page_nat target - page_nat page) div 4096 = Suc ((page_nat target - page_nat n) div 4096)"
    proof -
      have "page_nat target - page_nat page = page_nat target - page_nat n + 4096" using step n(3) by simp
      then show ?thesis by simp
    qed
    have lt: "page_nat target - page_nat n < page_nat target - page_nat page" using step n(3) by simp
    have here: "view (tables st) ?root (UserPageStart_as_u64 page) = None"
      using less(9) page_in_first [OF less(2) _ True] by simp
    have room: "tracked_count (allocator st) < MAX_TRACKED_RANGES" using less(7) cnt by simp
    have cont: "runs (map_new_pages_loop mp space target h' st' n) (\<lambda>((h', st'), grown). grown
         \<and> fa_canon (allocator st')
         \<and> backed (view (tables st') ?root) (allocator st') FrameRangeOwner.UserHeap lo (page_nat target))"
      if "heap_mapped_end h' = n" "fa_canon (allocator st')" "tracked_count (allocator st') \<le> tracked_count (allocator st) + 4"
        "card (free_frames (allocator st)) \<le> card (free_frames (allocator st')) + 4"
        "view (tables st') ?root = (view (tables st) ?root)(UserPageStart_as_u64 page \<mapsto> x)"
        "backed (view (tables st') ?root) (allocator st') FrameRangeOwner.UserHeap lo (page_nat n)" for h' st' x
    proof (rule less(1) [OF lt n(2) less(3) _ that(1,2)])
      show "\<forall>p. page_in (page_nat n) (page_nat target) p \<longrightarrow> view (tables st') ?root p = None"
        using less(9) page_in_step [OF less(2) True] that(5) n(3) by auto
    qed (use n(3) step that less(7,8,11) cnt in auto)
    have c4: "4 \<le> card (free_frames (allocator st))" using less(8) cnt by simp
    have f_ne: "free_frames (allocator st) \<noteq> {}" using less(8) cnt by auto
    have one: "runs (map_user_page mp space (tables st) fa page f heap_page_flags) (\<lambda>(m', fa').
        runs (map_new_pages_loop mp space target (h\<lparr>heap_mapped_end := n\<rparr>)
            (st\<lparr>tables := m', allocator := fa', bytes := zero_frame u (bytes st)\<rparr>) n)
          (\<lambda>((h', st'), grown). grown \<and> fa_canon (allocator st')
             \<and> backed (view (tables st') ?root) (allocator st') FrameRangeOwner.UserHeap lo (page_nat target)))"
      if fa: "fa_canon fa" "tracked_count fa \<le> Suc (tracked_count (allocator st))"
        and f: "frame_address_ok (PhysicalFrameStart_as_u64 f)"
          "unat (PhysicalFrameStart_as_u64 f) div 4096 \<in> free_frames (allocator st)"
          "moved {unat (PhysicalFrameStart_as_u64 f) div 4096} (State_Free, Owner_Free) (State_Used, FrameRangeOwner.UserHeap) (allocator st) fa"
      for fa f u
    proof -
      have card: "card (free_frames fa) = card (free_frames (allocator st)) - 1"
        using moved_taken(1) [OF f(3)] f(2) by simp
      have tc: "tracked_count fa + 3 \<le> MAX_TRACKED_RANGES" "3 \<le> card (free_frames fa)"
        using fa(2) less(7) cnt card c4 by simp_all
      show ?thesis
      proof (rule runs_conseq [OF map_user_page_runs [OF mp fa(1) tc less(2) here]], clarify)
        fix m' fa' T
        assume T: "card T \<le> 3" "tables_taken T fa fa'"
          and v: "view m' ?root = (view (tables st) ?root)(UserPageStart_as_u64 page \<mapsto> (PhysicalFrameStart_as_u64 f, heap_page_flags))"
          and fa': "fa_canon fa'" "tracked_count fa' \<le> tracked_count fa + 3"
        have "card (free_frames (allocator st)) \<le> card (free_frames fa') + 4"
          using tables_taken_card [OF T(2)] T(1) card by simp
        moreover have "backed (view m' ?root) fa' FrameRangeOwner.UserHeap lo (page_nat n)"
          unfolding v n(3) using less(2,6,10,11) f T(2) by (intro backed_grow) auto
        ultimately show "runs (map_new_pages_loop mp space target (h\<lparr>heap_mapped_end := n\<rparr>)
            (st\<lparr>tables := m', allocator := fa', bytes := zero_frame u (bytes st)\<rparr>) n)
          (\<lambda>((h', st'), grown). grown \<and> fa_canon (allocator st')
             \<and> backed (view (tables st') ?root) (allocator st') FrameRangeOwner.UserHeap lo (page_nat target))"
          using fa fa' v by (intro cont) auto
      qed
    qed
    show ?thesis
      apply (subst map_new_pages_loop.simps)
      apply (simp add: word_less_nat_alt True)
      apply (rule runs_conseq [OF allocate_frame_runs [OF less(6) room, of FrameRangeOwner.UserHeap]])
       apply simp
      apply (clarsimp split: option.splits simp: f_ne frame_usize n(1))
      subgoal for fa f
        using one [of fa f "PhysicalFrameStart_as_u64 f"] by (auto simp: insert_commute elim!: runs_conseq)
      done
  qed
qed

end
