(* ===== verification/Heap_Properties.thy ===== *)
theory Heap_Properties
  imports User_Heap
begin

text \<open>
  The user heap: its invariant, the exact effect of a \<open>brk\<close> request when frames are left, and
  what a request leaves behind when they run out.
\<close>

section \<open>The invariant\<close>

definition heap_ok :: "UserHeap \<Rightarrow> bool" where
  "heap_ok h \<longleftrightarrow> 4096 dvd user_nat (heap_base h) \<and> 0 < user_nat (heap_base h)
     \<and> user_nat (heap_base h) \<le> user_nat (heap_current_break h)
     \<and> user_nat (heap_current_break h) \<le> page_nat (heap_mapped_end h)
     \<and> user_page_ok (heap_mapped_end h) \<and> page_nat (heap_mapped_end h) \<le> unat USER_HEAP_END"

text \<open>
  The heap's pages are backed by frames of its own, and nothing is mapped above them up to the
  end of the heap area.
\<close>

definition heap_inv :: "'m page_view \<Rightarrow> UserAddressSpace \<Rightarrow> UserHeap \<Rightarrow> 'm memory \<Rightarrow> bool" where
  "heap_inv view space h st \<longleftrightarrow> heap_ok h \<and> fa_canon (allocator st)
     \<and> backed (view (tables st) (root_of space)) (allocator st) FrameRangeOwner.UserHeap
         (user_nat (heap_base h)) (page_nat (heap_mapped_end h))
     \<and> (\<forall>p. page_in (page_nat (heap_mapped_end h)) (unat USER_HEAP_END) p \<longrightarrow> view (tables st) (root_of space) p = None)"

text \<open>The break and the mapped end that a request asks for; an invalid one asks for no change.\<close>

definition brk_valid :: "UserHeap \<Rightarrow> UserHeapBreakRequest \<Rightarrow> bool" where
  "brk_valid h req = (case req of Break_Current \<Rightarrow> False
     | Break_Set b \<Rightarrow> user_nat (heap_base h) \<le> user_nat b \<and> user_nat b < unat USER_HEAP_END)"

definition brk_break :: "UserHeap \<Rightarrow> UserHeapBreakRequest \<Rightarrow> UserVirtualAddress" where
  "brk_break h req = (case req of Break_Set b \<Rightarrow> if brk_valid h req then b else heap_current_break h
     | Break_Current \<Rightarrow> heap_current_break h)"

definition brk_end :: "UserHeap \<Rightarrow> UserHeapBreakRequest \<Rightarrow> nat" where
  "brk_end h req = (if brk_valid h req then (user_nat (brk_break h req) + 4095) div 4096 * 4096
     else page_nat (heap_mapped_end h))"

lemma align_up_in_heap:
  assumes "0 < user_nat b" "user_nat b < unat USER_HEAP_END"
  shows "\<exists>p. UserVirtualAddress_align_up_to_page b = Some p \<and> user_page_ok p
     \<and> page_nat p = (user_nat b + 4095) div 4096 * 4096 \<and> page_nat p \<le> unat USER_HEAP_END"
proof -
  let ?n = "(user_nat b + 4095) div 4096 * 4096"
  have "?n \<le> 0x600000000000" "0 < ?n" using assms by simp_all
  then obtain p where p: "user_page_ok p" "page_nat p = ?n"
    using user_page_exists [of ?n] by auto
  then have "UserVirtualAddress_align_up_to_page b = Some p"
    unfolding align_up_Some_iff using assms by simp
  with p \<open>?n \<le> 0x600000000000\<close> show ?thesis by auto
qed

lemma page_in_mono: "page_in lo hi p \<Longrightarrow> lo' \<le> lo \<Longrightarrow> hi \<le> hi' \<Longrightarrow> page_in lo' hi' p"
  by (auto simp: page_in_def)

lemma backed_mono: "backed v fa ow lo hi \<Longrightarrow> lo \<le> lo' \<Longrightarrow> hi' \<le> hi \<Longrightarrow> backed v fa ow lo' hi'"
  unfolding backed_def by (meson page_in_mono)

lemma heap_ok_grown:
  assumes "heap_ok h" "user_page_ok p" "page_nat (heap_mapped_end h) \<le> page_nat p" "page_nat p \<le> unat USER_HEAP_END"
  shows "heap_ok (h\<lparr>heap_mapped_end := p\<rparr>)"
  using assms by (simp add: heap_ok_def)

lemma backed_shrunk:
  assumes b: "backed v fa ow lo hi" and rm: "pages_removed mid hi v v'"
    and mv: "moved (backing v mid hi) (State_Used, ow) (State_Free, Owner_Free) fa fa'" and le: "mid \<le> hi"
  shows "backed v' fa' ow lo mid"
proof -
  have keep: "v' p = v p" if "page_in lo mid p" for p
    using rm that by (auto simp: pages_removed_def page_in_def)
  have sub: "page_in lo hi p" if "page_in lo mid p" for p using that le by (rule_tac page_in_mono) auto
  have "unat f div 4096 \<in> fa_frames fa' State_Used ow"
    if p: "page_in lo mid p" "v p = Some (f, fl)" "unat f div 4096 \<in> fa_frames fa State_Used ow" for p f fl
  proof -
    have "unat f div 4096 \<notin> backing v mid hi"
    proof
      assume "unat f div 4096 \<in> backing v mid hi"
      then obtain q g gl where q: "page_in mid hi q" "v q = Some (g, gl)" "unat f div 4096 = unat g div 4096"
        by (auto simp: backing_def)
      have "lo \<le> mid" using p(1) by (simp add: page_in_def)
      then have "page_in lo hi q" using q(1) by (rule_tac page_in_mono) auto
      then have "p = q" using b sub [OF p(1)] p(2) q(2,3) unfolding backed_def by blast
      with p(1) q(1) show False by (simp add: page_in_def)
    qed
    with p(3) mv show ?thesis by (simp add: moved_def)
  qed
  then show ?thesis
    using b sub keep unfolding backed_def by (metis (no_types, lifting))
qed

section \<open>Requests\<close>

lemma process_break_invalid:
  assumes "\<not> brk_valid h req"
  shows "process_break mp space h st req = Done ((h, st), heap_current_break h)"
  using assms by (cases req) (auto simp: process_break_def brk_valid_def word_less_nat_alt word_le_nat_alt not_less)

lemma process_break_valid:
  assumes "brk_valid h req" "0 < user_nat (heap_base h)"
  obtains p where "user_page_ok p" "page_nat p = brk_end h req" "page_nat p \<le> unat USER_HEAP_END"
    "user_nat (heap_base h) \<le> user_nat (brk_break h req)" "user_nat (brk_break h req) \<le> page_nat p"
    "process_break mp space h st req =
       bind_run (if page_nat (heap_mapped_end h) < page_nat p then map_new_pages mp space h st p else Done ((h, st), True))
         (\<lambda>((h', st'), grown). if \<not> grown then Done ((h', st'), heap_current_break h')
            else bind_run (if UserPageStart_as_u64 p < UserPageStart_as_u64 (heap_mapped_end h') then unmap_old_pages mp space h' st' p else Done (h', st'))
              (\<lambda>(h', st'). Done ((h'\<lparr>heap_current_break := brk_break h req\<rparr>, st'), brk_break h req)))"
proof -
  obtain b where req: "req = Break_Set b" using assms(1) by (cases req) (auto simp: brk_valid_def)
  then have b: "user_nat (heap_base h) \<le> user_nat b" "user_nat b < unat USER_HEAP_END" "0 < user_nat b" "brk_break h req = b"
    using assms by (auto simp: brk_valid_def brk_break_def)
  obtain p where p: "UserVirtualAddress_align_up_to_page b = Some p" "user_page_ok p"
    "page_nat p = (user_nat b + 4095) div 4096 * 4096" "page_nat p \<le> unat USER_HEAP_END"
    using align_up_in_heap [OF b(3,2)] by blast
  have "user_nat b \<le> page_nat p" unfolding p(3) by simp
  have ge: "\<not> UserVirtualAddress_as_u64 b < UserVirtualAddress_as_u64 (heap_base h)" "\<not> USER_HEAP_END \<le> UserVirtualAddress_as_u64 b"
    using b by (simp_all add: word_less_nat_alt word_le_nat_alt not_less)
  show thesis
  proof (rule that [OF p(2)])
    show "page_nat p = brk_end h req" using p(3) assms(1) b(4) by (simp add: brk_end_def)
    show "process_break mp space h st req =
       bind_run (if page_nat (heap_mapped_end h) < page_nat p then map_new_pages mp space h st p else Done ((h, st), True))
         (\<lambda>((h', st'), grown). if \<not> grown then Done ((h', st'), heap_current_break h')
            else bind_run (if UserPageStart_as_u64 p < UserPageStart_as_u64 (heap_mapped_end h') then unmap_old_pages mp space h' st' p else Done (h', st'))
              (\<lambda>(h', st'). Done ((h'\<lparr>heap_current_break := brk_break h req\<rparr>, st'), brk_break h req)))"
      unfolding b(4) unfolding req process_break_def using ge p(1) by (simp add: word_less_nat_alt)
  qed (use p b req \<open>user_nat b \<le> page_nat p\<close> in auto)
qed

lemma brk_grows:
  fixes mp :: "'m mapper"
  assumes mp: "mapper_ok mp view" and inv: "heap_inv view space h st" and p: "user_page_ok p" "page_nat p \<le> unat USER_HEAP_END"
    and lt: "page_nat (heap_mapped_end h) \<le> page_nat p"
    and room: "tracked_count (allocator st) + 4 * ((page_nat p - page_nat (heap_mapped_end h)) div 4096) \<le> MAX_TRACKED_RANGES"
      "4 * ((page_nat p - page_nat (heap_mapped_end h)) div 4096) \<le> card (free_frames (allocator st))"
  shows "runs (map_new_pages mp space h st p) (\<lambda>((h', st'), grown). grown \<and> heap_inv view space h' st'
     \<and> h' = h\<lparr>heap_mapped_end := p\<rparr>
     \<and> pages_added (page_nat (heap_mapped_end h)) (page_nat p) (bytes st')
         (view (tables st) (root_of space)) (view (tables st') (root_of space)))"
proof -
  let ?v = "view (tables st) (root_of space)" and ?e = "heap_mapped_end h"
  have h: "heap_ok h" "fa_canon (allocator st)" "user_page_ok ?e" "user_nat (heap_base h) \<le> page_nat ?e"
    "backed ?v (allocator st) FrameRangeOwner.UserHeap (user_nat (heap_base h)) (page_nat ?e)"
    and none: "\<And>q. page_in (page_nat ?e) (unat USER_HEAP_END) q \<Longrightarrow> ?v q = None"
    using inv by (auto simp: heap_inv_def heap_ok_def)
  have fresh: "\<forall>q. page_in (page_nat ?e) (page_nat p) q \<longrightarrow> ?v q = None"
    using none p(2) page_in_mono by blast
  show ?thesis
    unfolding map_new_pages_def
  proof (rule runs_conseq [OF runs_ensures_conj [OF
        map_new_pages_runs [OF mp h(3) p(1) lt refl h(2) room fresh h(5,4)]
        map_new_pages_ensures [OF mp h(3) p(1) lt refl]]], goal_cases)
    case (1 x)
    obtain h' st' where x: "x = ((h', st'), True)" using 1 by (cases x) auto
    then have g: "fa_canon (allocator st')" "grew view (root_of space) h st h' st'"
      and b: "backed (view (tables st') (root_of space)) (allocator st') FrameRangeOwner.UserHeap (user_nat (heap_base h)) (page_nat p)"
      and e: "heap_mapped_end h' = p"
      using 1 by auto
    have h': "h' = h\<lparr>heap_mapped_end := p\<rparr>"
      and add: "pages_added (page_nat ?e) (page_nat p) (bytes st') ?v (view (tables st') (root_of space))"
      using g(2) e by (auto simp: grew_def Let_def)
    have "view (tables st') (root_of space) q = None" if q: "page_in (page_nat p) (unat USER_HEAP_END) q" for q
    proof -
      have "\<not> page_in (page_nat ?e) (page_nat p) q" using q by (simp add: page_in_def)
      then show ?thesis using add none page_in_mono [OF q lt order_refl] by (simp add: pages_added_def)
    qed
    then have "heap_inv view space h' st'"
      using g(1) b h' heap_ok_grown [OF h(1) p(1) lt p(2)] by (simp add: heap_inv_def)
    with h' add x show ?case by simp
  qed
qed

lemma brk_shrinks:
  fixes mp :: "'m mapper"
  assumes mp: "mapper_ok mp view" and inv: "heap_inv view space h st" and p: "user_page_ok p" "user_nat (heap_base h) \<le> page_nat p"
    and lt: "page_nat p \<le> page_nat (heap_mapped_end h)"
    and room: "tracked_count (allocator st) + 2 * ((page_nat (heap_mapped_end h) - page_nat p) div 4096) \<le> MAX_TRACKED_RANGES"
    and b: "user_nat (heap_base h) \<le> user_nat b" "user_nat b \<le> page_nat p"
  shows "runs (unmap_old_pages mp space h st p) (\<lambda>(h', st'). h' = h\<lparr>heap_mapped_end := p\<rparr>
     \<and> heap_inv view space (h'\<lparr>heap_current_break := b\<rparr>) st'
     \<and> pages_removed (page_nat p) (page_nat (heap_mapped_end h)) (view (tables st) (root_of space)) (view (tables st') (root_of space))
     \<and> moved (backing (view (tables st) (root_of space)) (page_nat p) (page_nat (heap_mapped_end h)))
         (State_Used, FrameRangeOwner.UserHeap) (State_Free, Owner_Free) (allocator st) (allocator st'))"
proof -
  let ?v = "view (tables st) (root_of space)" and ?e = "heap_mapped_end h"
  have h: "heap_ok h" "fa_canon (allocator st)" "user_page_ok ?e"
    "backed ?v (allocator st) FrameRangeOwner.UserHeap (user_nat (heap_base h)) (page_nat ?e)"
    and none: "\<And>q. page_in (page_nat ?e) (unat USER_HEAP_END) q \<Longrightarrow> ?v q = None"
    using inv by (auto simp: heap_inv_def heap_ok_def)
  show ?thesis
    unfolding unmap_old_pages_def
  proof (rule runs_conseq [OF unmap_old_pages_runs [OF mp h(3) p(1) lt refl h(2) room backed_mono [OF h(4) p(2) order_refl]]], goal_cases)
    case (1 x)
    obtain h' st' where x: "x = (h', st')" by (cases x)
    have s: "h' = h\<lparr>heap_mapped_end := p\<rparr>" "pages_removed (page_nat p) (page_nat ?e) ?v (view (tables st') (root_of space))"
      "fa_canon (allocator st')" "moved (backing ?v (page_nat p) (page_nat ?e))
         (State_Used, FrameRangeOwner.UserHeap) (State_Free, Owner_Free) (allocator st) (allocator st')"
      using 1 x by (simp_all add: shrank_def Let_def)
    have "view (tables st') (root_of space) q = None" if q: "page_in (page_nat p) (unat USER_HEAP_END) q" for q
      using s(2) none [of q] q by (cases "unat q < page_nat ?e") (auto simp: pages_removed_def page_in_def)
    moreover have "heap_ok (h'\<lparr>heap_current_break := b\<rparr>)"
      using h(1) p b lt s(1) by (simp add: heap_ok_def)
    ultimately have "heap_inv view space (h'\<lparr>heap_current_break := b\<rparr>) st'"
      using s backed_shrunk [OF h(4) s(2,4) lt] by (simp add: heap_inv_def)
    with s x show ?case by simp
  qed
qed


section \<open>A concrete heap\<close>

definition sample_heap :: UserHeap where
  "sample_heap = \<lparr>heap_base = UserVirtualAddress (VirtAddr 0x400000),
     heap_current_break = UserVirtualAddress (VirtAddr 0x400000),
     heap_mapped_end = UserPageStart (UserVirtualAddress (VirtAddr 0x400000))\<rparr>"

definition sample_memory :: "PhysicalFrameAllocator \<Rightarrow> flat_tables memory" where
  "sample_memory s = \<lparr>tables = (\<lambda>_ _. None), allocator = s, bytes = (\<lambda>_. 1)\<rparr>"

abbreviation sample_space :: UserAddressSpace where
  "sample_space \<equiv> \<lparr>level_4_frame = PhysicalFrameStart (PhysAddr 0x100000)\<rparr>"

abbreviation sample_request :: UserHeapBreakRequest where
  "sample_request \<equiv> Break_Set (UserVirtualAddress (VirtAddr 0x400010))"

lemma sample_heap_facts:
  "UserHeap_new (UserVirtualAddress (VirtAddr 0x400000)) = Done sample_heap"
  "heap_inv (\<lambda>m. m) sample_space sample_heap (sample_memory s) \<longleftrightarrow> fa_canon s"
  "brk_end sample_heap sample_request = 0x401000" "page_nat (heap_mapped_end sample_heap) = 0x400000"
proof -
  show "UserHeap_new (UserVirtualAddress (VirtAddr 0x400000)) = Done sample_heap"
    by (simp add: UserHeap_new_def sample_heap_def UserPageStart_new_def UserVirtualAddress_as_u64_def is_multiple_of_def)
  show "heap_inv (\<lambda>m. m) sample_space sample_heap (sample_memory s) \<longleftrightarrow> fa_canon s"
    by (auto simp: heap_inv_def heap_ok_def sample_heap_def sample_memory_def UserVirtualAddress_as_u64_def
        UserPageStart_as_u64_def user_page_ok_unat backed_def page_in_def)
  show "brk_end sample_heap sample_request = 0x401000" "page_nat (heap_mapped_end sample_heap) = 0x400000"
    by (simp_all add: brk_end_def brk_valid_def brk_break_def sample_heap_def UserVirtualAddress_as_u64_def UserPageStart_as_u64_def)
qed



lemma new_allocator_canon: "fa_canon frame_allocator_new" "free_frames frame_allocator_new = {}" "tracked_count frame_allocator_new = 0"
proof -
  show "fa_canon frame_allocator_new"
    by (rule fa_canonI [OF repr_new]) (simp add: canon_def table_ok_def ordered_def)
  show "free_frames frame_allocator_new = {}" "tracked_count frame_allocator_new = 0"
    using repr_live [OF repr_new] repr_count [OF repr_new] by (simp_all add: fa_frames_def cover_def)
qed


end
