(* ===== verification/User_Mapping.thy ===== *)
theory User_Mapping
  imports User_Heap
begin

text \<open>
  Private user mappings (\<open>kernel/memory/user_mapping.rs\<close>): the record table of one user task,
  the placement of new ranges, and the operations behind \<open>mmap\<close> and \<open>munmap\<close>.
\<close>

section \<open>Data\<close>

abbreviation MAX_USER_MAPPINGS :: nat where "MAX_USER_MAPPINGS \<equiv> 32"

record UserMappingAllocation =
  uma_start :: UserVirtualAddress
  uma_page_count :: PageCount
  uma_replaced_page_count :: u64

datatype UserMappingSource = Anonymous | FilePrivate

fun UserMappingSource_as_str :: "UserMappingSource \<Rightarrow> string" where
  "UserMappingSource_as_str Anonymous = ''anonymous''"
| "UserMappingSource_as_str FilePrivate = ''file_private''"

record UserMapping =
  um_start :: UserPageStart
  um_page_count :: PageCount
  um_source :: UserMappingSource

record UserMappingRange =
  umr_start :: UserPageStart
  umr_end_exclusive :: UserPageStart
  umr_page_count :: PageCount

datatype UserMappingError = InvalidRequest | AddressInUse | OutOfMemory | InitializationFailed

section \<open>Ranges\<close>

definition UserMappingRange_new :: "UserPageStart \<Rightarrow> PageCount \<Rightarrow> UserMappingRange option" where
  "UserMappingRange_new start page_count =
     (case UserPageStart_checked_add start (PageCount_byte_len page_count) of
        None \<Rightarrow> None
      | Some end_exclusive \<Rightarrow>
          if UserPageStart_as_u64 start < USER_MAPPING_BASE \<or> USER_MAPPING_END < UserPageStart_as_u64 end_exclusive
          then None
          else Some \<lparr>umr_start = start, umr_end_exclusive = end_exclusive, umr_page_count = page_count\<rparr>)"

definition UserMapping_range :: "UserMapping \<Rightarrow> UserMappingRange option" where
  "UserMapping_range self = UserMappingRange_new (um_start self) (um_page_count self)"

definition UserMappingRange_from_byte_len :: "UserPageStart \<Rightarrow> u64 \<Rightarrow> UserMappingRange option" where
  "UserMappingRange_from_byte_len start byte_len =
     (if byte_len = 0 \<or> \<not> is_multiple_of byte_len PAGE_SIZE then None
      else case PageCount_new (byte_len div PAGE_SIZE) of
        None \<Rightarrow> None
      | Some page_count \<Rightarrow> UserMappingRange_new start page_count)"

abbreviation start_address :: "UserMappingRange \<Rightarrow> u64" where
  "start_address r \<equiv> UserPageStart_as_u64 (umr_start r)"

abbreviation end_address :: "UserMappingRange \<Rightarrow> u64" where
  "end_address r \<equiv> UserPageStart_as_u64 (umr_end_exclusive r)"

definition range_overlaps :: "UserMappingRange \<Rightarrow> UserMappingRange \<Rightarrow> bool" where
  "range_overlaps self other \<longleftrightarrow> start_address self < end_address other \<and> start_address other < end_address self"

definition range_contains :: "UserMappingRange \<Rightarrow> UserMappingRange \<Rightarrow> bool" where
  "range_contains self other \<longleftrightarrow> start_address self \<le> start_address other \<and> end_address other \<le> end_address self"

section \<open>Requests\<close>

definition page_count_for_length :: "u64 \<Rightarrow> PageCount option" where
  "page_count_for_length len =
     (if len = 0 then None
      else case checked_add len (PAGE_SIZE - 1) of
        None \<Rightarrow> None
      | Some n \<Rightarrow> PageCount_new ((n AND NOT (PAGE_SIZE - 1)) div PAGE_SIZE))"

record UserMappingLength =
  uml_byte_len :: u64
  uml_page_count :: PageCount

definition UserMappingLength_from_syscall_argument :: "u64 \<Rightarrow> UserMappingLength option" where
  "UserMappingLength_from_syscall_argument byte_len =
     map_option (\<lambda>page_count. \<lparr>uml_byte_len = byte_len, uml_page_count = page_count\<rparr>) (page_count_for_length byte_len)"

datatype UserMappingPlacement = Placement_Any | FixedNoReplace UserPageStart | FixedReplace UserPageStart

fun UserMappingPlacement_as_str :: "UserMappingPlacement \<Rightarrow> string" where
  "UserMappingPlacement_as_str Placement_Any = ''any''"
| "UserMappingPlacement_as_str (FixedNoReplace _) = ''fixed_noreplace''"
| "UserMappingPlacement_as_str (FixedReplace _) = ''fixed_replace''"

fun uses_fixed_address :: "UserMappingPlacement \<Rightarrow> bool" where
  "uses_fixed_address Placement_Any = False"
| "uses_fixed_address (FixedNoReplace _) = True"
| "uses_fixed_address (FixedReplace _) = True"

record UserMappingPlan =
  ump_placement :: UserMappingPlacement
  ump_length :: UserMappingLength
  ump_writable :: bool
  ump_source :: UserMappingSource

definition user_page_start_from_raw :: "u64 \<Rightarrow> UserPageStart option" where
  "user_page_start_from_raw address =
     (case UserVirtualAddress_new (VirtAddr address) of None \<Rightarrow> None | Some a \<Rightarrow> UserPageStart_new a)"

record UserMappingUnmapRequest =
  umu_start :: UserPageStart
  umu_length :: UserMappingLength

definition UserMappingUnmapRequest_from_syscall_arguments :: "u64 \<Rightarrow> u64 \<Rightarrow> UserMappingUnmapRequest option" where
  "UserMappingUnmapRequest_from_syscall_arguments raw_start len =
     (case user_page_start_from_raw raw_start of
        None \<Rightarrow> None
      | Some start \<Rightarrow>
          map_option (\<lambda>len. \<lparr>umu_start = start, umu_length = len\<rparr>) (UserMappingLength_from_syscall_argument len))"

section \<open>The record table\<close>

record UserMappings =
  next_start :: UserPageStart
  records :: "UserMapping option list"

definition UserMappings_new :: "UserMappings run" where
  "UserMappings_new =
     bind_run (expect (UserVirtualAddress_new (VirtAddr USER_MAPPING_BASE))) (\<lambda>base.
     bind_run (expect (UserPageStart_new base)) (\<lambda>start.
       Done \<lparr>next_start = start, records = replicate MAX_USER_MAPPINGS None\<rparr>))"

definition active_pages :: "UserMappings \<Rightarrow> u64" where
  "active_pages self = fold (\<lambda>n acc. saturating_add acc n)
     (List.map_filter (map_option (\<lambda>mapping. PageCount_as_u64 (um_page_count mapping))) (records self)) 0"

definition active_records :: "UserMappings \<Rightarrow> u64" where
  "active_records self = of_nat (length (filter (\<lambda>r. r \<noteq> None) (records self)))"

definition active_file_private_records :: "UserMappings \<Rightarrow> u64" where
  "active_file_private_records self =
     of_nat (length (filter (\<lambda>r. is_some_and r (\<lambda>mapping. um_source mapping = FilePrivate)) (records self)))"

definition next_empty_record_index :: "UserMappings \<Rightarrow> nat option" where
  "next_empty_record_index self = find_index (\<lambda>r. r = None) (records self)"

text \<open>\<open>max_by_key\<close> returns the last element with the greatest key.\<close>

definition max_page :: "UserPageStart list \<Rightarrow> UserPageStart option" where
  "max_page ps = fold (\<lambda>p best. case best of
       None \<Rightarrow> Some p
     | Some b \<Rightarrow> if UserPageStart_as_u64 b \<le> UserPageStart_as_u64 p then Some p else Some b) ps None"

definition overlapping_record_end :: "UserMappings \<Rightarrow> UserMappingRange \<Rightarrow> UserPageStart option" where
  "overlapping_record_end self requested_range = max_page (List.map_filter (\<lambda>r.
     case r of
       None \<Rightarrow> None
     | Some mapping \<Rightarrow>
         (case UserMapping_range mapping of
            None \<Rightarrow> None
          | Some mapping_range \<Rightarrow>
              if range_overlaps requested_range mapping_range then Some (umr_end_exclusive mapping_range) else None))
     (records self))"

definition find_containing_record_index :: "UserMappings \<Rightarrow> UserMappingRange \<Rightarrow> nat option" where
  "find_containing_record_index self requested_range = find_index (\<lambda>r.
     case r of
       None \<Rightarrow> False
     | Some mapping \<Rightarrow>
         (case UserMapping_range mapping of
            None \<Rightarrow> False
          | Some mapping_range \<Rightarrow> range_contains mapping_range requested_range)) (records self)"

section \<open>Placement\<close>

lemma max_page_in: "max_page ps = Some p \<Longrightarrow> p \<in> set ps"
proof -
  have "fold (\<lambda>p best. case best of
       None \<Rightarrow> Some p
     | Some b \<Rightarrow> if UserPageStart_as_u64 b \<le> UserPageStart_as_u64 p then Some p else Some b) ps b0 = Some p
     \<Longrightarrow> p \<in> set ps \<or> b0 = Some p" for b0
    by (induction ps arbitrary: b0) (force split: option.splits if_splits)+
  then show "max_page ps = Some p \<Longrightarrow> p \<in> set ps" by (auto simp: max_page_def)
qed

lemma map_filter_set: "set (List.map_filter f xs) = {y. \<exists>x\<in>set xs. f x = Some y}"
  by (force simp: List.map_filter_def)

lemma UserMappingRange_new_fields:
  "UserMappingRange_new s n = Some r \<Longrightarrow> umr_start r = s \<and> umr_page_count r = n"
  by (auto simp: UserMappingRange_new_def split: option.splits if_splits)

lemma UserMappingRange_from_byte_len_start: "UserMappingRange_from_byte_len s n = Some r \<Longrightarrow> umr_start r = s"
  using UserMappingRange_new_fields
  by (fastforce simp: UserMappingRange_from_byte_len_def split: option.splits if_splits)

lemma overlapping_record_end_above:
  "overlapping_record_end self r = Some e \<Longrightarrow> start_address r < UserPageStart_as_u64 e"
  by (drule max_page_in [OF trans [OF overlapping_record_end_def [symmetric]]])
    (auto simp: map_filter_set range_overlaps_def option_iffs)

function next_available_start :: "UserMappings \<Rightarrow> UserPageStart \<Rightarrow> u64 \<Rightarrow> UserPageStart option" where
  "next_available_start self candidate byte_len =
     (case UserMappingRange_from_byte_len candidate byte_len of
        None \<Rightarrow> None
      | Some candidate_range \<Rightarrow>
          (case overlapping_record_end self candidate_range of
             None \<Rightarrow> Some candidate
           | Some overlap_end \<Rightarrow> next_available_start self overlap_end byte_len))"
  by pat_completeness auto
termination
proof (relation "measure (\<lambda>(self, p, n). 2 ^ 64 - unat (UserPageStart_as_u64 p))", goal_cases)
  case (2 self candidate byte_len r e)
  then have "page_nat candidate < page_nat e"
    using overlapping_record_end_above UserMappingRange_from_byte_len_start by (fastforce simp: word_less_nat_alt)
  then show ?case using unat_u64_bound [of "UserPageStart_as_u64 e"] by simp
qed simp

declare next_available_start.simps [simp del]

definition fixed_start_address :: "UserPageStart \<Rightarrow> u64 \<Rightarrow> UserMappingError + UserPageStart" where
  "fixed_start_address start byte_len =
     (case UserPageStart_checked_add start byte_len of
        None \<Rightarrow> Inl InvalidRequest
      | Some end_exclusive \<Rightarrow>
          if UserPageStart_as_u64 start < USER_MAPPING_BASE \<or> USER_MAPPING_END < UserPageStart_as_u64 end_exclusive
          then Inl InvalidRequest else Inr start)"

definition start_address_for_placement ::
    "UserMappings \<Rightarrow> UserMappingPlacement \<Rightarrow> u64 \<Rightarrow> UserMappingError + UserPageStart" where
  "start_address_for_placement self placement byte_len =
     (case placement of
        Placement_Any \<Rightarrow>
          (case next_available_start self (next_start self) byte_len of None \<Rightarrow> Inl OutOfMemory | Some p \<Rightarrow> Inr p)
      | FixedReplace start \<Rightarrow> fixed_start_address start byte_len
      | FixedNoReplace start \<Rightarrow>
          (case fixed_start_address start byte_len of
             Inl e \<Rightarrow> Inl e
           | Inr start \<Rightarrow>
               (case UserMappingRange_from_byte_len start byte_len of
                  None \<Rightarrow> Inl InvalidRequest
                | Some requested_range \<Rightarrow>
                    if overlapping_record_end self requested_range \<noteq> None then Inl AddressInUse else Inr start)))"

section \<open>Records\<close>

definition mapping_page_count :: "u64 \<Rightarrow> PageCount run" where
  "mapping_page_count count = expect (PageCount_new count)"

definition user_page_start :: "UserPageStart \<Rightarrow> u64 \<Rightarrow> UserPageStart option" where
  "user_page_start start page_index =
     (case checked_mul page_index PAGE_SIZE of None \<Rightarrow> None | Some offset \<Rightarrow> UserPageStart_checked_add start offset)"

definition set_record :: "UserMappings \<Rightarrow> nat \<Rightarrow> UserMapping option \<Rightarrow> UserMappings run" where
  "set_record self i r = bind_run (array_set (records self) i r) (\<lambda>rs. Done (self\<lparr>records := rs\<rparr>))"

definition apply_record_unmap ::
    "UserMappings \<Rightarrow> nat \<Rightarrow> nat option \<Rightarrow> UserMapping \<Rightarrow> u64 \<Rightarrow> u64 \<Rightarrow> UserPageStart \<Rightarrow> UserMappings run" where
  "apply_record_unmap self record_index split_record_index record left_pages right_pages right_start =
     (if left_pages = 0 \<and> right_pages = 0 then set_record self record_index None
      else if right_pages = 0 then
        bind_run (mapping_page_count left_pages) (\<lambda>left.
          set_record self record_index (Some \<lparr>um_start = um_start record, um_page_count = left, um_source = um_source record\<rparr>))
      else if left_pages = 0 then
        bind_run (mapping_page_count right_pages) (\<lambda>right.
          set_record self record_index (Some \<lparr>um_start = right_start, um_page_count = right, um_source = um_source record\<rparr>))
      else
        bind_run (expect split_record_index) (\<lambda>split_record_index.
        bind_run (mapping_page_count left_pages) (\<lambda>left.
        bind_run (set_record self record_index
            (Some \<lparr>um_start = um_start record, um_page_count = left, um_source = um_source record\<rparr>)) (\<lambda>self.
        bind_run (mapping_page_count right_pages) (\<lambda>right.
          set_record self split_record_index
            (Some \<lparr>um_start = right_start, um_page_count = right, um_source = um_source record\<rparr>))))))"

text \<open>One step of the preflight loop over the active records, on the running record count.\<close>

definition replace_capacity_step :: "UserMappingRange \<Rightarrow> nat \<Rightarrow> UserMapping \<Rightarrow> (UserMappingError + nat) run" where
  "replace_capacity_step requested_range record_count mapping =
     (case UserMapping_range mapping of
        None \<Rightarrow> Done (Inl InvalidRequest)
      | Some mapping_range \<Rightarrow>
          if \<not> range_overlaps requested_range mapping_range then Done (Inr record_count)
          else bind_run (assert_run (0 < record_count)) (\<lambda>_. Done (Inr (record_count - 1
            + (if start_address mapping_range < start_address requested_range then 1 else 0)
            + (if end_address requested_range < end_address mapping_range then 1 else 0)))))"

fun replace_capacity_loop :: "UserMappingRange \<Rightarrow> nat \<Rightarrow> UserMapping option list \<Rightarrow> (UserMappingError + nat) run" where
  "replace_capacity_loop requested_range record_count [] = Done (Inr record_count)"
| "replace_capacity_loop requested_range record_count (None # rs) = replace_capacity_loop requested_range record_count rs"
| "replace_capacity_loop requested_range record_count (Some mapping # rs) =
     bind_run (replace_capacity_step requested_range record_count mapping) (\<lambda>r.
       case r of Inl e \<Rightarrow> Done (Inl e) | Inr record_count \<Rightarrow> replace_capacity_loop requested_range record_count rs)"

definition ensure_replace_record_capacity :: "UserMappings \<Rightarrow> UserMappingRange \<Rightarrow> (UserMappingError + unit) run" where
  "ensure_replace_record_capacity self requested_range =
     bind_run (replace_capacity_loop requested_range (unat (active_records self)) (records self)) (\<lambda>r.
       case r of
         Inl e \<Rightarrow> Done (Inl e)
       | Inr record_count \<Rightarrow> Done (if record_count < MAX_USER_MAPPINGS then Inr () else Inl OutOfMemory))"

section \<open>Pages\<close>

definition user_page_flags :: "bool \<Rightarrow> PageTableFlags" where
  "user_page_flags writable =
     (let flags = {PRESENT} \<union> {USER_ACCESSIBLE} \<union> {NO_EXECUTE} in if writable then flags \<union> {WRITABLE} else flags)"

definition page_initialize_length :: "u64 \<Rightarrow> u64 \<Rightarrow> usize option" where
  "page_initialize_length len page_index =
     (case checked_mul page_index PAGE_SIZE of
        None \<Rightarrow> None
      | Some page_start_offset \<Rightarrow> usize_try_from (min (saturating_sub len page_start_offset) PAGE_SIZE))"

text \<open>
  The slice of physical memory that the page initializer gets, and the memory after it wrote
  the slice. The initializer is the caller's closure: a function of its captured state, the page
  index and the slice. \<open>Inl\<close> is its error.
\<close>

definition read_slice :: "(u64 \<Rightarrow> u8) \<Rightarrow> usize \<Rightarrow> usize \<Rightarrow> u8 list" where
  "read_slice mem start n = map (\<lambda>i. mem (start + of_nat i)) [0..<unat n]"

definition write_slice :: "usize \<Rightarrow> u8 list \<Rightarrow> (u64 \<Rightarrow> u8) \<Rightarrow> u64 \<Rightarrow> u8" where
  "write_slice start xs mem = (\<lambda>a. if unat start \<le> unat a \<and> unat a < unat start + length xs
     then xs ! (unat a - unat start) else mem a)"

type_synonym 'c initializer = "'c \<Rightarrow> u64 \<Rightarrow> u8 list \<Rightarrow> ('c \<times> u8 list) \<times> (UserMappingError + unit)"

fun unmap_pages_from ::
    "'m mapper \<Rightarrow> UserAddressSpace \<Rightarrow> UserPageStart \<Rightarrow> 'm memory \<Rightarrow> nat \<Rightarrow> u64 \<Rightarrow> 'm memory run" where
  "unmap_pages_from mp space start st 0 page_index = Done st"
| "unmap_pages_from mp space start st (Suc n) page_index =
     bind_run (expect (user_page_start start page_index)) (\<lambda>page_start.
     bind_run (unmap_user_page_for mp space (tables st) (allocator st) page_start FrameRangeOwner.UserMapping) (\<lambda>((m, fa), unmapped).
     bind_run (assert_run unmapped) (\<lambda>_.
       unmap_pages_from mp space start (st\<lparr>tables := m, allocator := fa\<rparr>) n (page_index + 1))))"

definition unmap_pages ::
    "'m mapper \<Rightarrow> UserAddressSpace \<Rightarrow> 'm memory \<Rightarrow> UserPageStart \<Rightarrow> PageCount \<Rightarrow> 'm memory run" where
  "unmap_pages mp space st start page_count =
     unmap_pages_from mp space start st (unat (PageCount_as_u64 page_count)) 0"

definition unmap_prefix ::
    "'m mapper \<Rightarrow> UserAddressSpace \<Rightarrow> 'm memory \<Rightarrow> UserPageStart \<Rightarrow> u64 \<Rightarrow> 'm memory run" where
  "unmap_prefix mp space st start page_count = unmap_pages_from mp space start st (unat page_count) 0"

definition free_unmapped_page :: "PhysicalFrameAllocator \<Rightarrow> PhysicalFrameStart \<Rightarrow> PhysicalFrameAllocator run" where
  "free_unmapped_page fa physical_address =
     bind_run single_frame_count (\<lambda>one.
     bind_run (expect (PhysicalFrameRange_new physical_address one)) (\<lambda>physical_range.
     bind_run (free_frames_for fa physical_range FrameRangeOwner.UserMapping) (\<lambda>(fa, freed).
     bind_run (assert_run freed) (\<lambda>_. Done fa))))"

text \<open>What \<open>map_pages\<close> does to one fresh frame: zero it, then run the initializer on its head.\<close>

definition initialize_frame ::
    "'c initializer \<Rightarrow> 'c \<Rightarrow> u64 \<Rightarrow> usize \<Rightarrow> usize \<Rightarrow> (u64 \<Rightarrow> u8) \<Rightarrow> ('c \<times> (u64 \<Rightarrow> u8)) \<times> (UserMappingError + unit)" where
  "initialize_frame initialize_page c mapped_pages page_pointer page_length mem =
     (if 0 < page_length
      then case initialize_page c mapped_pages (read_slice mem page_pointer page_length) of
             ((c, xs), r) \<Rightarrow> ((c, write_slice page_pointer xs mem), r)
      else ((c, mem), Inr ()))"

function map_pages_loop ::
    "'m mapper \<Rightarrow> UserAddressSpace \<Rightarrow> 'c initializer \<Rightarrow> UserPageStart \<Rightarrow> u64 \<Rightarrow> u64 \<Rightarrow> PageTableFlags
       \<Rightarrow> 'c \<Rightarrow> 'm memory \<Rightarrow> u64 \<Rightarrow> (('c \<times> 'm memory) \<times> (UserMappingError + unit)) run" where
  "map_pages_loop mp space initialize_page start len page_count flags c st mapped_pages =
     (if mapped_pages < page_count
      then case user_page_start start mapped_pages of
             None \<Rightarrow> bind_run (unmap_prefix mp space st start mapped_pages) (\<lambda>st. Done ((c, st), Inl InvalidRequest))
           | Some page_start \<Rightarrow>
               bind_run (allocate_frame_for (allocator st) FrameRangeOwner.UserMapping) (\<lambda>(fa, r).
                 case r of
                   None \<Rightarrow> bind_run (unmap_prefix mp space (st\<lparr>allocator := fa\<rparr>) start mapped_pages) (\<lambda>st. Done ((c, st), Inl OutOfMemory))
                 | Some physical_address \<Rightarrow>
                     bind_run (PhysicalFrameStart_as_usize physical_address) (\<lambda>page_pointer.
                       let mem = zero_frame page_pointer (bytes st) in
                       case page_initialize_length len mapped_pages of
                         None \<Rightarrow> Done ((c, st\<lparr>allocator := fa, bytes := mem\<rparr>), Inl InvalidRequest)
                       | Some page_length \<Rightarrow>
                           (case initialize_frame initialize_page c mapped_pages page_pointer page_length mem of
                              ((c, mem), Inl error) \<Rightarrow>
                                bind_run (free_unmapped_page fa physical_address) (\<lambda>fa.
                                bind_run (unmap_prefix mp space (st\<lparr>allocator := fa, bytes := mem\<rparr>) start mapped_pages) (\<lambda>st.
                                  Done ((c, st), Inl error)))
                            | ((c, mem), Inr _) \<Rightarrow>
                                bind_run (map_user_page mp space (tables st) fa page_start physical_address flags) (\<lambda>(m, fa).
                                  map_pages_loop mp space initialize_page start len page_count flags c
                                    (st\<lparr>tables := m, allocator := fa, bytes := mem\<rparr>) (saturating_add mapped_pages 1)))))
      else Done ((c, st), Inr ()))"
  by pat_completeness auto
termination
proof (relation "measure (\<lambda>(mp, space, init, start, len, n, flags, c, st, i). unat n - unat i)", goal_cases)
  case (2 mp space init start len n flags c st i)
  then have "unat i < unat n" by (simp add: word_less_nat_alt)
  moreover from this have "unat (saturating_add i 1) = unat i + 1"
    using unat_u64_bound [of n] by (simp add: unat_saturating_add)
  ultimately show ?case by simp
qed simp

declare map_pages_loop.simps [simp del]

definition map_pages ::
    "'m mapper \<Rightarrow> UserAddressSpace \<Rightarrow> 'c initializer \<Rightarrow> 'c \<Rightarrow> 'm memory \<Rightarrow> UserPageStart \<Rightarrow> u64 \<Rightarrow> PageCount \<Rightarrow> bool
       \<Rightarrow> (('c \<times> 'm memory) \<times> (UserMappingError + unit)) run" where
  "map_pages mp space initialize_page c st start len page_count writable =
     map_pages_loop mp space initialize_page start len (PageCount_as_u64 page_count) (user_page_flags writable) c st 0"

section \<open>Replacing, mapping and unmapping\<close>

definition replace_record ::
    "'m mapper \<Rightarrow> UserAddressSpace \<Rightarrow> UserMappingRange \<Rightarrow> UserMappings \<Rightarrow> 'm memory \<Rightarrow> nat \<Rightarrow> u64
       \<Rightarrow> ((UserMappings \<times> 'm memory) \<times> u64) run" where
  "replace_record mp space requested_range self st record_index replaced_pages =
     bind_run (array_get (records self) record_index) (\<lambda>r.
       case r of
         None \<Rightarrow> Done ((self, st), replaced_pages)
       | Some record \<Rightarrow>
           bind_run (expect (UserMapping_range record)) (\<lambda>record_range.
           if \<not> range_overlaps requested_range record_range then Done ((self, st), replaced_pages)
           else
             let record_start = start_address record_range; record_end = end_address record_range;
                 overlap_start_address = max record_start (start_address requested_range);
                 overlap_end_address = min record_end (end_address requested_range) in
             bind_run (expect (checked_sub overlap_end_address overlap_start_address)) (\<lambda>overlap_bytes.
             bind_run (expect (user_page_start_from_raw overlap_start_address)) (\<lambda>overlap_start.
             bind_run (mapping_page_count (overlap_bytes div PAGE_SIZE)) (\<lambda>overlap_pages.
             bind_run (expect (UserMappingRange_new overlap_start overlap_pages)) (\<lambda>overlap_range.
             bind_run (unmap_pages mp space st (umr_start overlap_range) (umr_page_count overlap_range)) (\<lambda>st.
             bind_run (expect (checked_sub (start_address overlap_range) record_start)) (\<lambda>left_bytes.
             bind_run (expect (checked_sub record_end (end_address overlap_range))) (\<lambda>right_bytes.
               let replaced_pages = saturating_add replaced_pages (PageCount_as_u64 (umr_page_count overlap_range));
                   left_pages = left_bytes div PAGE_SIZE; right_pages = right_bytes div PAGE_SIZE;
                   right_start = umr_end_exclusive overlap_range in
               bind_run (if 0 < left_pages \<and> 0 < right_pages
                         then map_run Some (expect (next_empty_record_index self)) else Done None) (\<lambda>split_record_index.
               bind_run (apply_record_unmap self record_index split_record_index record left_pages right_pages right_start)
                 (\<lambda>self. Done ((self, st), replaced_pages))))))))))))"

fun replace_overlapping_from ::
    "'m mapper \<Rightarrow> UserAddressSpace \<Rightarrow> UserMappingRange \<Rightarrow> UserMappings \<Rightarrow> 'm memory \<Rightarrow> nat list \<Rightarrow> u64
       \<Rightarrow> ((UserMappings \<times> 'm memory) \<times> u64) run" where
  "replace_overlapping_from mp space requested_range self st [] replaced_pages = Done ((self, st), replaced_pages)"
| "replace_overlapping_from mp space requested_range self st (record_index # indices) replaced_pages =
     bind_run (replace_record mp space requested_range self st record_index replaced_pages)
       (\<lambda>((self, st), replaced_pages). replace_overlapping_from mp space requested_range self st indices replaced_pages)"

definition replace_overlapping_pages ::
    "'m mapper \<Rightarrow> UserAddressSpace \<Rightarrow> UserMappings \<Rightarrow> 'm memory \<Rightarrow> UserMappingRange
       \<Rightarrow> ((UserMappings \<times> 'm memory) \<times> u64) run" where
  "replace_overlapping_pages mp space self st requested_range =
     replace_overlapping_from mp space requested_range self st [0..<length (records self)] 0"

text \<open>The replacement phase of \<open>map_private\<close>, for every placement.\<close>

definition prepare_replacement ::
    "'m mapper \<Rightarrow> UserAddressSpace \<Rightarrow> UserMappings \<Rightarrow> 'm memory \<Rightarrow> UserMappingPlacement \<Rightarrow> UserMappingRange
       \<Rightarrow> ((UserMappings \<times> 'm memory) \<times> (UserMappingError + u64)) run" where
  "prepare_replacement mp space self st placement requested_range =
     (case placement of
        FixedReplace _ \<Rightarrow>
          bind_run (ensure_replace_record_capacity self requested_range) (\<lambda>r.
            case r of
              Inl e \<Rightarrow> Done ((self, st), Inl e)
            | Inr _ \<Rightarrow>
                bind_run (replace_overlapping_pages mp space self st requested_range) (\<lambda>((self, st), replaced).
                  Done ((self, st), Inr replaced)))
      | _ \<Rightarrow> Done ((self, st), Inr 0))"

text \<open>The last phase of \<open>map_private\<close>: find a record, map the pages, enter the record.\<close>

definition install_mapping ::
    "'m mapper \<Rightarrow> UserAddressSpace \<Rightarrow> 'c initializer \<Rightarrow> 'c \<Rightarrow> UserMappings \<Rightarrow> 'm memory \<Rightarrow> UserMappingPlan
       \<Rightarrow> UserMappingRange \<Rightarrow> u64
       \<Rightarrow> (('c \<times> UserMappings \<times> 'm memory) \<times> (UserMappingError + UserMappingAllocation)) run" where
  "install_mapping mp space initialize_page c self st plan requested_range replaced_page_count =
     (let start = umr_start requested_range; page_count = uml_page_count (ump_length plan) in
      case next_empty_record_index self of
        None \<Rightarrow> Done ((c, self, st), Inl OutOfMemory)
      | Some record_index \<Rightarrow>
          bind_run (map_pages mp space initialize_page c st start (uml_byte_len (ump_length plan)) page_count (ump_writable plan))
            (\<lambda>((c, st), r). case r of
               Inl e \<Rightarrow> Done ((c, self, st), Inl e)
             | Inr _ \<Rightarrow>
                 bind_run (set_record self record_index
                     (Some \<lparr>um_start = start, um_page_count = page_count, um_source = ump_source plan\<rparr>)) (\<lambda>self.
                   Done ((c, (if ump_placement plan = Placement_Any
                               then self\<lparr>next_start := umr_end_exclusive requested_range\<rparr> else self), st),
                     Inr \<lparr>uma_start = UserPageStart_as_address (umr_start requested_range),
                          uma_page_count = umr_page_count requested_range,
                          uma_replaced_page_count = replaced_page_count\<rparr>))))"

definition map_private ::
    "'m mapper \<Rightarrow> UserAddressSpace \<Rightarrow> 'c initializer \<Rightarrow> 'c \<Rightarrow> UserMappings \<Rightarrow> 'm memory \<Rightarrow> UserMappingPlan
       \<Rightarrow> (('c \<times> UserMappings \<times> 'm memory) \<times> (UserMappingError + UserMappingAllocation)) run" where
  "map_private mp space initialize_page c self st plan =
     (let page_count = uml_page_count (ump_length plan) in
      case start_address_for_placement self (ump_placement plan) (PageCount_byte_len page_count) of
        Inl e \<Rightarrow> Done ((c, self, st), Inl e)
      | Inr start \<Rightarrow>
          (case UserMappingRange_new start page_count of
             None \<Rightarrow> Done ((c, self, st), Inl InvalidRequest)
           | Some requested_range \<Rightarrow>
               bind_run (prepare_replacement mp space self st (ump_placement plan) requested_range) (\<lambda>((self, st), r).
                 case r of
                   Inl e \<Rightarrow> Done ((c, self, st), Inl e)
                 | Inr replaced_page_count \<Rightarrow>
                     install_mapping mp space initialize_page c self st plan requested_range replaced_page_count)))"

definition unmap_range ::
    "'m mapper \<Rightarrow> UserAddressSpace \<Rightarrow> UserMappings \<Rightarrow> 'm memory \<Rightarrow> UserMappingUnmapRequest
       \<Rightarrow> ((UserMappings \<times> 'm memory) \<times> PageCount option) run" where
  "unmap_range mp space self st request =
     (let start = umu_start request; page_count = uml_page_count (umu_length request) in
      case UserMappingRange_new start page_count of
        None \<Rightarrow> Done ((self, st), None)
      | Some requested_range \<Rightarrow>
          (case find_containing_record_index self requested_range of
             None \<Rightarrow> Done ((self, st), None)
           | Some record_index \<Rightarrow>
               bind_run (bind_run (array_get (records self) record_index) expect) (\<lambda>record.
               bind_run (expect (UserMapping_range record)) (\<lambda>record_range.
               bind_run (expect (checked_sub (start_address requested_range) (start_address record_range))) (\<lambda>left_bytes.
               bind_run (expect (checked_sub (end_address record_range) (end_address requested_range))) (\<lambda>right_bytes.
                 let left_pages = left_bytes div PAGE_SIZE; right_pages = right_bytes div PAGE_SIZE;
                     unmap = (\<lambda>split_record_index.
                       bind_run (unmap_pages mp space st start page_count) (\<lambda>st.
                       bind_run (apply_record_unmap self record_index split_record_index record left_pages right_pages
                           (umr_end_exclusive requested_range)) (\<lambda>self. Done ((self, st), Some page_count)))) in
                 if 0 < left_pages \<and> 0 < right_pages
                 then case next_empty_record_index self of
                        None \<Rightarrow> Done ((self, st), None)
                      | Some i \<Rightarrow> unmap (Some i)
                 else unmap None))))))"

end
