(* ===== verification/User_Mapping_Proofs.thy ===== *)
theory User_Mapping_Proofs
  imports User_Mapping Heap_Properties
begin

text \<open>
  The record table as a set of pages, and what the page loops of \<open>user_mapping.rs\<close> do to the
  page tables and to the frame allocator.
\<close>

section \<open>Sets of backed pages\<close>

definition backed_on :: "(u64 \<Rightarrow> (u64 \<times> PageTableFlags) option) \<Rightarrow> PhysicalFrameAllocator \<Rightarrow> FrameRangeOwner \<Rightarrow> u64 set \<Rightarrow> bool" where
  "backed_on v fa ow P \<longleftrightarrow>
     (\<forall>p\<in>P. \<exists>f fl. v p = Some (f, fl) \<and> frame_address_ok f \<and> unat f div 4096 \<in> fa_frames fa State_Used ow)
   \<and> (\<forall>p\<in>P. \<forall>q\<in>P. \<forall>f g fl gl. v p = Some (f, fl) \<and> v q = Some (g, gl) \<and> unat f div 4096 = unat g div 4096 \<longrightarrow> p = q)"

definition frames_on :: "(u64 \<Rightarrow> (u64 \<times> PageTableFlags) option) \<Rightarrow> u64 set \<Rightarrow> nat set" where
  "frames_on v P = (\<Union>p\<in>P. case v p of None \<Rightarrow> {} | Some (f, fl) \<Rightarrow> {unat f div 4096})"

lemma frames_on_cong: "(\<And>p. p \<in> P \<Longrightarrow> v p = w p) \<Longrightarrow> frames_on v P = frames_on w P"
  unfolding frames_on_def by (intro SUP_cong) simp_all

lemma frames_on_Un: "frames_on v (A \<union> B) = frames_on v A \<union> frames_on v B"
  by (auto simp: frames_on_def)

lemma in_frames_on: "x \<in> frames_on v P \<longleftrightarrow> (\<exists>p\<in>P. \<exists>f fl. v p = Some (f, fl) \<and> x = unat f div 4096)"
  by (fastforce simp: frames_on_def split: option.splits)

definition pages_between :: "nat \<Rightarrow> nat \<Rightarrow> u64 set" where
  "pages_between lo hi = {p. page_in lo hi p}"

lemma backed_onD:
  assumes "backed_on v fa ow P" "p \<in> P"
  obtains f fl where "v p = Some (f, fl)" "frame_address_ok f" "unat f div 4096 \<in> fa_frames fa State_Used ow"
  using assms unfolding backed_on_def by blast

lemma backed_on_inj:
  "backed_on v fa ow P \<Longrightarrow> p \<in> P \<Longrightarrow> q \<in> P \<Longrightarrow> v p = Some (f, fl) \<Longrightarrow> v q = Some (g, gl)
    \<Longrightarrow> unat f div 4096 = unat g div 4096 \<Longrightarrow> p = q"
  unfolding backed_on_def by blast

lemma backed_on_subset: "backed_on v fa ow P \<Longrightarrow> Q \<subseteq> P \<Longrightarrow> backed_on v fa ow Q"
  unfolding backed_on_def by blast

lemma backed_on_unmap:
  assumes b: "backed_on v fa ow P" and p: "p \<in> P" "v p = Some (f, fl)"
    and mv: "moved {unat f div 4096} (State_Used, ow) (State_Free, Owner_Free) fa fa'"
  shows "backed_on (v(p := None)) fa' ow (P - {p})"
proof -
  have used: "fa_frames fa' State_Used ow = fa_frames fa State_Used ow - {unat f div 4096}"
    using mv by (simp add: moved_def)
  have "\<exists>g gl. v q = Some (g, gl) \<and> frame_address_ok g \<and> unat g div 4096 \<in> fa_frames fa' State_Used ow"
    if q: "q \<in> P" "q \<noteq> p" for q
  proof -
    obtain g gl where g: "v q = Some (g, gl)" "frame_address_ok g" "unat g div 4096 \<in> fa_frames fa State_Used ow"
      by (rule backed_onD [OF b q(1)])
    moreover have "unat g div 4096 \<noteq> unat f div 4096" using backed_on_inj [OF b q(1) p(1) g(1) p(2)] q(2) by auto
    ultimately show ?thesis using used by auto
  qed
  then show ?thesis using backed_on_inj [OF b] unfolding backed_on_def by auto
qed

lemma backed_on_map:
  assumes b: "backed_on v fa ow P" and p: "p \<notin> P"
    and f: "frame_address_ok f" "unat f div 4096 \<in> free_frames fa" "fa_canon fa"
    and mv: "moved {unat f div 4096} (State_Free, Owner_Free) (State_Used, ow) fa fa1" "tables_taken T fa1 fa2"
    and ow: "ow \<noteq> PageTable"
  shows "backed_on (v(p \<mapsto> (f, fl))) fa2 ow (insert p P)"
proof -
  have used: "fa_frames fa2 State_Used ow = fa_frames fa State_Used ow \<union> {unat f div 4096}"
    using tables_taken_used [OF mv(2) ow] mv(1) by (simp add: moved_def)
  have new: "unat f div 4096 \<notin> fa_frames fa State_Used ow"
    using free_used_disjoint [OF fa_canon_inv [OF f(3)]] f(2) by blast
  have old: "unat g div 4096 \<noteq> unat f div 4096" if "q \<in> P" "v q = Some (g, gl)" for q g gl
    using b that new unfolding backed_on_def by fastforce
  have ne: "q \<noteq> p" if "q \<in> P" for q using that p by blast
  have one: "\<exists>g gl. (v(p \<mapsto> (f, fl))) q = Some (g, gl) \<and> frame_address_ok g \<and> unat g div 4096 \<in> fa_frames fa2 State_Used ow"
    if q: "q \<in> insert p P" for q
  proof (cases "q = p")
    case False
    then have "q \<in> P" using q by simp
    then obtain g gl where "v q = Some (g, gl)" "frame_address_ok g" "unat g div 4096 \<in> fa_frames fa State_Used ow"
      by (rule backed_onD [OF b])
    with False used show ?thesis by simp
  qed (use f(1) used in simp)
  moreover have "q = r"
    if "q \<in> insert p P" "r \<in> insert p P" "(v(p \<mapsto> (f, fl))) q = Some (g, gl)" "(v(p \<mapsto> (f, fl))) r = Some (h, hl)"
      "unat g div 4096 = unat h div 4096" for q r g h gl hl
  proof (cases "q = p"; cases "r = p")
    assume "q \<noteq> p" "r \<noteq> p"
    with that show ?thesis using backed_on_inj [OF b] by auto
  qed (use that old ne in auto)
  ultimately show ?thesis unfolding backed_on_def by blast
qed

lemma frames_on_unmap:
  assumes "p \<in> S" "v p = Some (f, fl)"
  shows "frames_on v S = {unat f div 4096} \<union> frames_on (v(p := None)) (S - {p})"
proof -
  have "frames_on v S = frames_on v {p} \<union> frames_on v (S - {p})"
    using assms(1) frames_on_Un [of v "{p}" "S - {p}"] by (simp add: insert_absorb)
  moreover have "frames_on v (S - {p}) = frames_on (v(p := None)) (S - {p})" by (rule frames_on_cong) simp
  ultimately show ?thesis using assms(2) by (simp add: frames_on_def)
qed

lemma pages_between_step:
  assumes "user_page_ok p" "page_nat p < hi"
  shows "pages_between (page_nat p) hi = insert (UserPageStart_as_u64 p) (pages_between (page_nat p + 4096) hi)"
  using page_in_step [OF assms] by (auto simp: pages_between_def)

lemma not_in_later: "p \<notin> pages_between (unat p + 4096) hi"
  by (simp add: pages_between_def page_in_def)

lemma pages_between_empty [simp]: "pages_between lo lo = {}"
  by (simp add: pages_between_def)

section \<open>Unmapping a run of pages\<close>

lemma user_page_start_Some:
  assumes "user_page_ok start" "page_nat start + 4096 * unat i < 0x800000000000"
  shows "\<exists>p. user_page_start start i = Some p \<and> user_page_ok p \<and> page_nat p = page_nat start + 4096 * unat i"
proof -
  have mul: "checked_mul i PAGE_SIZE = Some (i * PAGE_SIZE)" "unat (i * PAGE_SIZE) = 4096 * unat i"
    using assms(2) by (simp_all add: checked_mul_Some_iff unat_word_ariths)
  obtain p where p: "user_page_ok p" "page_nat p = page_nat start + 4096 * unat i"
    using user_page_exists [of "page_nat start + 4096 * unat i"] assms by (auto simp: user_page_ok_unat)
  then have "UserPageStart_checked_add start (i * PAGE_SIZE) = Some p"
    using mul(2) by (simp add: UserPageStart_checked_add_Some_iff)
  with mul p show ?thesis by (auto simp: user_page_start_def)
qed

text \<open>
  \<open>unmapped view root S P st st'\<close>: the pages \<open>S\<close> were unmapped and their frames freed; the
  remaining pages of \<open>P\<close> are still backed.
\<close>

definition unmapped :: "'m page_view \<Rightarrow> u64 \<Rightarrow> u64 set \<Rightarrow> u64 set \<Rightarrow> 'm memory \<Rightarrow> 'm memory \<Rightarrow> bool" where
  "unmapped view root S P st st' \<longleftrightarrow> bytes st' = bytes st
     \<and> view (tables st') root = (\<lambda>p. if p \<in> S then None else view (tables st) root p)
     \<and> (\<forall>other. other \<noteq> root \<longrightarrow> view (tables st') other = view (tables st) other)
     \<and> fa_canon (allocator st')
     \<and> moved (frames_on (view (tables st) root) S) (State_Used, FrameRangeOwner.UserMapping) (State_Free, Owner_Free)
         (allocator st) (allocator st')
     \<and> backed_on (view (tables st') root) (allocator st') FrameRangeOwner.UserMapping (P - S)"

lemma unmap_pages_from_runs:
  fixes mp :: "'m mapper"
  assumes mp: "mapper_ok mp view" and start: "user_page_ok start" "page_nat start + 4096 * (unat i + n) \<le> 0x700000000000"
    and "backed_on (view (tables st) (root_of space)) (allocator st) FrameRangeOwner.UserMapping P"
    and "pages_between (page_nat start + 4096 * unat i) (page_nat start + 4096 * (unat i + n)) \<subseteq> P"
    and "fa_canon (allocator st)" "tracked_count (allocator st) + 2 * n \<le> MAX_TRACKED_RANGES"
  shows "runs (unmap_pages_from mp space start st n i) (\<lambda>st'.
     unmapped view (root_of space) (pages_between (page_nat start + 4096 * unat i) (page_nat start + 4096 * (unat i + n))) P st st'
     \<and> tracked_count (allocator st') \<le> tracked_count (allocator st) + 2 * n)"
  using assms(3-)
proof (induction n arbitrary: st i P)
  case 0
  then show ?case by (simp add: unmapped_def frames_on_def)
next
  case (Suc n)
  let ?root = "root_of space" and ?v = "view (tables st) (root_of space)"
  let ?lo = "page_nat start + 4096 * unat i" and ?hi = "page_nat start + 4096 * (unat i + Suc n)"
  have bound: "?lo < 0x800000000000" using Suc.prems(1) by simp
  obtain p where p: "user_page_start start i = Some p" "user_page_ok p" "page_nat p = ?lo"
    using user_page_start_Some [OF start(1) bound] by blast
  have i1: "unat (i + 1) = unat i + 1"
  proof -
    have "unat i + 1 < 2 ^ 64" using bound by simp
    then show ?thesis by (simp add: unat_word_ariths)
  qed
  let ?rest = "pages_between (?lo + 4096) ?hi"
  have split: "pages_between ?lo ?hi = insert (UserPageStart_as_u64 p) ?rest"
    using pages_between_step [OF p(2), of ?hi] p(3) by simp
  have rest: "?rest = pages_between (page_nat start + 4096 * unat (i + 1)) (page_nat start + 4096 * (unat (i + 1) + n))"
    unfolding i1 by (simp add: algebra_simps)
  have fresh: "UserPageStart_as_u64 p \<notin> ?rest" using not_in_later [of "UserPageStart_as_u64 p"] p(3) by simp
  have pP: "UserPageStart_as_u64 p \<in> P" using Suc.prems(3) split by blast
  obtain f fl where f: "?v (UserPageStart_as_u64 p) = Some (f, fl)" "frame_address_ok f"
    "unat f div 4096 \<in> fa_frames (allocator st) State_Used FrameRangeOwner.UserMapping"
    by (rule backed_onD [OF Suc.prems(2) pP])
  have room: "table_room (allocator st)" using Suc.prems(5) by simp
  have one: "runs (unmap_user_page_for mp space (tables st) (allocator st) p FrameRangeOwner.UserMapping) (\<lambda>((m', fa'), b). b
     \<and> view m' ?root = ?v(UserPageStart_as_u64 p := None)
     \<and> (\<forall>other. other \<noteq> ?root \<longrightarrow> view m' other = view (tables st) other)
     \<and> fa_canon fa' \<and> tracked_count fa' \<le> tracked_count (allocator st) + 2
     \<and> moved {unat f div 4096} (State_Used, FrameRangeOwner.UserMapping) (State_Free, Owner_Free) (allocator st) fa')"
    by (rule runs_conseq [OF runs_ensures_conj [OF
          unmap_user_page_runs [OF mp Suc.prems(4) room _ f] unmap_user_page_ensures [OF mp]]]) auto
  have step: "runs (unmap_pages_from mp space start (st\<lparr>tables := m', allocator := fa'\<rparr>) n (i + 1)) (\<lambda>st'.
       unmapped view ?root (pages_between ?lo ?hi) P st st'
       \<and> tracked_count (allocator st') \<le> tracked_count (allocator st) + 2 * Suc n)"
    if v: "view m' ?root = ?v(UserPageStart_as_u64 p := None)"
      and oth: "\<forall>other. other \<noteq> ?root \<longrightarrow> view m' other = view (tables st) other"
      and fa: "fa_canon fa'" "tracked_count fa' \<le> tracked_count (allocator st) + 2"
      and mv: "moved {unat f div 4096} (State_Used, FrameRangeOwner.UserMapping) (State_Free, Owner_Free) (allocator st) fa'"
    for m' fa'
  proof -
    let ?st = "st\<lparr>tables := m', allocator := fa'\<rparr>"
    have b: "backed_on (view (tables ?st) ?root) (allocator ?st) FrameRangeOwner.UserMapping (P - {UserPageStart_as_u64 p})"
      using backed_on_unmap [OF Suc.prems(2) pP f(1) mv] v by simp
    have sub: "?rest \<subseteq> P - {UserPageStart_as_u64 p}" using Suc.prems(3) split fresh by blast
    have "runs (unmap_pages_from mp space start ?st n (i + 1)) (\<lambda>st'.
        unmapped view ?root ?rest (P - {UserPageStart_as_u64 p}) ?st st'
        \<and> tracked_count (allocator st') \<le> tracked_count (allocator ?st) + 2 * n)"
      unfolding rest
    proof (rule Suc.IH)
      show "page_nat start + 4096 * (unat (i + 1) + n) \<le> 0x700000000000" using Suc.prems(1) by (simp add: i1)
      show "pages_between (page_nat start + 4096 * unat (i + 1)) (page_nat start + 4096 * (unat (i + 1) + n))
          \<subseteq> P - {UserPageStart_as_u64 p}" using sub unfolding rest .
    qed (use b fa Suc.prems(5) in auto)
    then show ?thesis
    proof (rule runs_conseq, elim conjE)
      fix st' assume u: "unmapped view ?root ?rest (P - {UserPageStart_as_u64 p}) ?st st'"
        and t: "tracked_count (allocator st') \<le> tracked_count (allocator ?st) + 2 * n"
      have umv: "moved (frames_on (view (tables ?st) ?root) ?rest) (State_Used, FrameRangeOwner.UserMapping) (State_Free, Owner_Free)
          (allocator ?st) (allocator st')"
        using u unfolding unmapped_def by blast
      have fr: "frames_on ?v (pages_between ?lo ?hi) = {unat f div 4096} \<union> frames_on (view (tables ?st) ?root) ?rest"
        using frames_on_unmap [of "UserPageStart_as_u64 p" "pages_between ?lo ?hi" ?v f fl] f(1) fresh split v by simp
      have "moved (frames_on ?v (pages_between ?lo ?hi)) (State_Used, FrameRangeOwner.UserMapping) (State_Free, Owner_Free)
          (allocator st) (allocator st')"
        unfolding fr by (rule moved_trans [OF mv]) (use umv in simp_all)
      moreover have "P - {UserPageStart_as_u64 p} - ?rest = P - pages_between ?lo ?hi" unfolding split by blast
      moreover have "view (tables st') ?root = (\<lambda>q. if q \<in> pages_between ?lo ?hi then None else ?v q)"
        using u v unfolding split unmapped_def by auto
      ultimately have "unmapped view ?root (pages_between ?lo ?hi) P st st'"
        using u oth unfolding unmapped_def by auto
      with t fa(2) show "unmapped view ?root (pages_between ?lo ?hi) P st st'
          \<and> tracked_count (allocator st') \<le> tracked_count (allocator st) + 2 * Suc n" by simp
    qed
  qed
  show ?case
    unfolding unmap_pages_from.simps p(1) expect_simps
    by (simp only: bind_run.simps runs_bind, rule runs_conseq [OF one]) (clarsimp simp only: prod.case runs_bind assert_run_simps bind_run.simps runs.simps, rule step)
qed

end
