(* ===== verification/User_Mapping_Table.thy ===== *)
theory User_Mapping_Table
  imports User_Mapping_Proofs
begin

text \<open>
  The record table of \<open>user_mapping.rs\<close>: its invariant, the pages it covers, where a new range is
  placed, and what removing a range does to the records.
\<close>

section \<open>The record table\<close>

abbreviation um_lo :: "UserMapping \<Rightarrow> nat" where
  "um_lo r \<equiv> page_nat (um_start r)"

abbreviation um_hi :: "UserMapping \<Rightarrow> nat" where
  "um_hi r \<equiv> page_nat (um_start r) + 4096 * unat (PageCount_as_u64 (um_page_count r))"

definition in_region :: "UserPageStart \<Rightarrow> PageCount \<Rightarrow> bool" where
  "in_region s n \<longleftrightarrow> user_page_ok s \<and> page_count_ok n \<and> 0x600000000000 \<le> page_nat s
     \<and> page_nat s + 4096 * unat (PageCount_as_u64 n) \<le> 0x700000000000"

abbreviation mapping_ok :: "UserMapping \<Rightarrow> bool" where
  "mapping_ok r \<equiv> in_region (um_start r) (um_page_count r)"

definition range_at :: "UserMappingRange \<Rightarrow> UserPageStart \<Rightarrow> PageCount \<Rightarrow> bool" where
  "range_at r s n \<longleftrightarrow> umr_start r = s \<and> umr_page_count r = n \<and> user_page_ok (umr_end_exclusive r)
     \<and> unat (end_address r) = page_nat s + 4096 * unat (PageCount_as_u64 n)"

lemma range_new_Some_iff:
  assumes "user_page_ok s" "page_count_ok n"
  shows "UserMappingRange_new s n = Some r \<longleftrightarrow> in_region s n \<and> range_at r s n"
proof -
  have "page_nat s + unat (PageCount_byte_len n) = page_nat s + 4096 * unat (PageCount_as_u64 n)"
    using PageCount_byte_len_unat [OF assms(2)] by simp
  then show ?thesis
    using assms
    by (cases r) (auto simp: UserMappingRange_new_def option_iffs UserPageStart_checked_add_Some_iff in_region_def range_at_def
        word_less_nat_alt)
qed

lemma range_new_region:
  assumes "in_region s n"
  obtains r where "UserMappingRange_new s n = Some r" "range_at r s n"
proof -
  let ?e = "page_nat s + 4096 * unat (PageCount_as_u64 n)"
  have "user_page_ok s" "page_count_ok n" "?e < 0x800000000000" "4096 dvd ?e" "0 < ?e"
    using assms by (auto simp: in_region_def user_page_ok_unat)
  then obtain e where e: "user_page_ok e" "page_nat e = ?e" using user_page_exists [of ?e] by auto
  let ?r = "\<lparr>umr_start = s, umr_end_exclusive = e, umr_page_count = n\<rparr>"
  have "range_at ?r s n" using e by (simp add: range_at_def)
  moreover from this have "UserMappingRange_new s n = Some ?r"
    using assms range_new_Some_iff [of s n ?r] by (simp add: in_region_def)
  ultimately show thesis using that by blast
qed

lemma range_new_None:
  assumes "user_page_ok s" "page_count_ok n" "\<not> in_region s n"
  shows "UserMappingRange_new s n = None"
  using range_new_Some_iff [OF assms(1,2)] assms(3) by (cases "UserMappingRange_new s n") auto

lemma range_from_byte_len:
  assumes "page_count_ok n"
  shows "UserMappingRange_from_byte_len s (PageCount_byte_len n) = UserMappingRange_new s n"
proof -
  have u: "unat (PageCount_byte_len n) = unat (PageCount_as_u64 n) * 4096" by (rule PageCount_byte_len_unat [OF assms])
  have ne: "PageCount_byte_len n \<noteq> 0" using u assms by (auto simp: page_count_ok_def word_unat_eq_iff)
  have "PageCount_byte_len n div PAGE_SIZE = PageCount_as_u64 n"
    using u by (simp add: word_unat_eq_iff unat_div)
  moreover have "PageCount_new (PageCount_as_u64 n) = Some n" using assms by (simp add: PageCount_new_Some_iff)
  moreover have "is_multiple_of (PageCount_byte_len n) PAGE_SIZE" using u by (simp add: is_multiple_of_page)
  ultimately show ?thesis using ne by (simp add: UserMappingRange_from_byte_len_def)
qed

lemma range_overlaps_nat:
  assumes "range_at a s n" "range_at b t m"
  shows "range_overlaps a b \<longleftrightarrow> page_nat s < page_nat t + 4096 * unat (PageCount_as_u64 m)
     \<and> page_nat t < page_nat s + 4096 * unat (PageCount_as_u64 n)"
  using assms by (simp add: range_overlaps_def range_at_def word_less_nat_alt)

lemma range_contains_nat:
  assumes "range_at a s n" "range_at b t m"
  shows "range_contains a b \<longleftrightarrow> page_nat s \<le> page_nat t
     \<and> page_nat t + 4096 * unat (PageCount_as_u64 m) \<le> page_nat s + 4096 * unat (PageCount_as_u64 n)"
  using assms by (simp add: range_contains_def range_at_def word_le_nat_alt)

definition apart :: "UserMapping \<Rightarrow> UserMapping \<Rightarrow> bool" where
  "apart r q \<longleftrightarrow> um_hi r \<le> um_lo q \<or> um_hi q \<le> um_lo r"

definition mappings_ok :: "UserMappings \<Rightarrow> bool" where
  "mappings_ok self \<longleftrightarrow> length (records self) = MAX_USER_MAPPINGS
     \<and> (\<forall>r. Some r \<in> set (records self) \<longrightarrow> mapping_ok r)
     \<and> (\<forall>i j r q. i < length (records self) \<longrightarrow> j < length (records self) \<longrightarrow> i \<noteq> j
          \<longrightarrow> records self ! i = Some r \<longrightarrow> records self ! j = Some q \<longrightarrow> apart r q)
     \<and> user_page_ok (next_start self) \<and> 0x600000000000 \<le> page_nat (next_start self) \<and> page_nat (next_start self) \<le> 0x700000000000"

lemma mapping_range:
  assumes "mapping_ok r"
  obtains m where "UserMapping_range r = Some m" "range_at m (um_start r) (um_page_count r)"
  using range_new_region [OF assms] by (auto simp: UserMapping_range_def)

text \<open>The pages that the records with a given source cover.\<close>

definition source_pages :: "UserMapping option list \<Rightarrow> UserMappingSource \<Rightarrow> u64 set" where
  "source_pages rs src = (\<Union>r\<in>{r. Some r \<in> set rs \<and> um_source r = src}. pages_between (um_lo r) (um_hi r))"

definition table_pages :: "UserMapping option list \<Rightarrow> u64 set" where
  "table_pages rs = (\<Union>r\<in>{r. Some r \<in> set rs}. pages_between (um_lo r) (um_hi r))"

lemma table_pages_sources: "table_pages rs = (\<Union>src. source_pages rs src)"
  by (auto simp: table_pages_def source_pages_def)

section \<open>Placement\<close>

definition free_at :: "UserMappings \<Rightarrow> PageCount \<Rightarrow> UserPageStart \<Rightarrow> bool" where
  "free_at self n s \<longleftrightarrow> in_region s n \<and> (\<forall>r. Some r \<in> set (records self) \<longrightarrow>
     um_hi r \<le> page_nat s \<or> page_nat s + 4096 * unat (PageCount_as_u64 n) \<le> um_lo r)"

lemma max_page_None [simp]: "max_page ps = None \<longleftrightarrow> ps = []"
proof -
  have "fold (\<lambda>p best. case best of
       None \<Rightarrow> Some p
     | Some b \<Rightarrow> if UserPageStart_as_u64 b \<le> UserPageStart_as_u64 p then Some p else Some b) qs (Some b) \<noteq> None" for qs b
    by (induction qs arbitrary: b) auto
  then show ?thesis by (cases ps) (auto simp: max_page_def)
qed

lemma map_filter_Nil: "List.map_filter f xs = [] \<longleftrightarrow> (\<forall>x\<in>set xs. f x = None)"
  by (induction xs) (auto simp: List.map_filter_simps split: option.splits)

lemma overlapping_end:
  assumes ok: "mappings_ok self" and s: "range_at a s n" "in_region s n"
  shows "overlapping_record_end self a = None \<longleftrightarrow> free_at self n s"
    and "overlapping_record_end self a = Some e \<Longrightarrow> \<exists>r. Some r \<in> set (records self) \<and> page_nat e = um_hi r \<and> user_page_ok e
        \<and> page_nat s < um_hi r \<and> um_lo r < page_nat s + 4096 * unat (PageCount_as_u64 n)"
proof -
  let ?f = "\<lambda>r. case r of None \<Rightarrow> None | Some mapping \<Rightarrow> (case UserMapping_range mapping of None \<Rightarrow> None
     | Some m \<Rightarrow> if range_overlaps a m then Some (umr_end_exclusive m) else None)"
  have f: "?f (Some r) = None \<longleftrightarrow> um_hi r \<le> page_nat s \<or> page_nat s + 4096 * unat (PageCount_as_u64 n) \<le> um_lo r"
    "?f (Some r) = Some e \<Longrightarrow> page_nat e = um_hi r \<and> user_page_ok e \<and> page_nat s < um_hi r
      \<and> um_lo r < page_nat s + 4096 * unat (PageCount_as_u64 n)" if r: "Some r \<in> set (records self)" for r e
  proof -
    have "mapping_ok r" using ok r by (simp add: mappings_ok_def)
    then obtain m where m: "UserMapping_range r = Some m" "range_at m (um_start r) (um_page_count r)" by (rule mapping_range)
    note o = range_overlaps_nat [OF s(1) m(2)]
    show "?f (Some r) = None \<longleftrightarrow> um_hi r \<le> page_nat s \<or> page_nat s + 4096 * unat (PageCount_as_u64 n) \<le> um_lo r"
      using m(1) o by auto
    show "?f (Some r) = Some e \<Longrightarrow> page_nat e = um_hi r \<and> user_page_ok e \<and> page_nat s < um_hi r
      \<and> um_lo r < page_nat s + 4096 * unat (PageCount_as_u64 n)"
      using m o by (auto simp: range_at_def split: if_splits)
  qed
  have "overlapping_record_end self a = None \<longleftrightarrow> (\<forall>r. Some r \<in> set (records self) \<longrightarrow> ?f (Some r) = None)"
    unfolding overlapping_record_end_def max_page_None map_filter_Nil
    by (rule iffI) (blast, metis (no_types, lifting) not_None_eq option.simps(4))
  then show "overlapping_record_end self a = None \<longleftrightarrow> free_at self n s"
    using f(1) s(2) unfolding free_at_def by blast
  assume "overlapping_record_end self a = Some e"
  then obtain x where x: "x \<in> set (records self)" "?f x = Some e"
    unfolding overlapping_record_end_def by (auto dest!: max_page_in simp only: map_filter_set)
  have "x \<noteq> None" using x(2) by (cases x) simp_all
  then obtain r where r: "x = Some r" by blast
  from f(2) [OF x(1) [unfolded r] x(2) [unfolded r]] x(1) r show "\<exists>r. Some r \<in> set (records self) \<and> page_nat e = um_hi r \<and> user_page_ok e
        \<and> page_nat s < um_hi r \<and> um_lo r < page_nat s + 4096 * unat (PageCount_as_u64 n)" by blast
qed

lemma next_available_start_exact:
  assumes ok: "mappings_ok self" and n: "page_count_ok n" and "user_page_ok c" "0x600000000000 \<le> page_nat c"
  shows "case next_available_start self c (PageCount_byte_len n) of
       None \<Rightarrow> \<forall>s. page_nat c \<le> page_nat s \<longrightarrow> \<not> free_at self n s
     | Some s \<Rightarrow> page_nat c \<le> page_nat s \<and> free_at self n s
         \<and> (\<forall>t. page_nat c \<le> page_nat t \<longrightarrow> free_at self n t \<longrightarrow> page_nat s \<le> page_nat t)"
  using assms(3,4)
proof (induction "0x700000000000 - page_nat c" arbitrary: c rule: less_induct)
  case less
  show ?case
  proof (cases "in_region c n")
    case False
    then have "\<not> in_region s n" if "page_nat c \<le> page_nat s" for s
      using that n less.prems by (auto simp: in_region_def)
    moreover have "next_available_start self c (PageCount_byte_len n) = None"
      using range_new_None [OF less.prems(1) n False] range_from_byte_len [OF n]
      by (subst next_available_start.simps) simp
    ultimately show ?thesis by (simp add: free_at_def)
  next
    case True
    then obtain a where a: "UserMappingRange_new c n = Some a" "range_at a c n" by (rule range_new_region)
    have run: "next_available_start self c (PageCount_byte_len n) =
        (case overlapping_record_end self a of None \<Rightarrow> Some c | Some e \<Rightarrow> next_available_start self e (PageCount_byte_len n))"
      using a(1) range_from_byte_len [OF n] by (subst next_available_start.simps) simp
    show ?thesis
    proof (cases "overlapping_record_end self a")
      case None
      then have "free_at self n c" using overlapping_end(1) [OF ok a(2) True] by simp
      with None run show ?thesis by simp
    next
      case (Some e)
      from overlapping_end(2) [OF ok a(2) True Some] obtain r where r: "Some r \<in> set (records self)" "page_nat e = um_hi r"
        "user_page_ok e" "page_nat c < um_hi r" "um_lo r < page_nat c + 4096 * unat (PageCount_as_u64 n)"
        by blast
      have "mapping_ok r" using ok r(1) by (simp add: mappings_ok_def)
      then have le: "page_nat e \<le> 0x700000000000" using r(2) by (simp add: in_region_def)
      have "case next_available_start self e (PageCount_byte_len n) of
           None \<Rightarrow> \<forall>s. page_nat e \<le> page_nat s \<longrightarrow> \<not> free_at self n s
         | Some s \<Rightarrow> page_nat e \<le> page_nat s \<and> free_at self n s
             \<and> (\<forall>t. page_nat e \<le> page_nat t \<longrightarrow> free_at self n t \<longrightarrow> page_nat s \<le> page_nat t)"
        using le r(2-4) less.prems(2) by (intro less.hyps) auto
      moreover have "\<not> free_at self n t" if "page_nat c \<le> page_nat t" "page_nat t < page_nat e" for t
        using that r by (auto simp: free_at_def)
      ultimately show ?thesis
        using run Some r(2,4) by (fastforce split: option.splits simp: not_le)
    qed
  qed
qed

section \<open>Removing a range from the records\<close>

lemma in_source_pages:
  "p \<in> source_pages rs src \<longleftrightarrow> (\<exists>i r. i < length rs \<and> rs ! i = Some r \<and> um_source r = src \<and> p \<in> pages_between (um_lo r) (um_hi r))"
  by (auto simp: source_pages_def in_set_conv_nth)

lemma find_record:
  assumes ok: "mappings_ok self" and b: "range_at b s n"
  shows "find_containing_record_index self b = None \<Longrightarrow>
      \<not> (\<exists>r. Some r \<in> set (records self) \<and> um_lo r \<le> page_nat s \<and> page_nat s + 4096 * unat (PageCount_as_u64 n) \<le> um_hi r)"
    and "find_containing_record_index self b = Some i \<Longrightarrow> \<exists>r. i < length (records self) \<and> records self ! i = Some r
      \<and> um_lo r \<le> page_nat s \<and> page_nat s + 4096 * unat (PageCount_as_u64 n) \<le> um_hi r"
proof -
  let ?f = "\<lambda>r. case r of None \<Rightarrow> False | Some mapping \<Rightarrow> (case UserMapping_range mapping of None \<Rightarrow> False
     | Some m \<Rightarrow> range_contains m b)"
  have f: "?f (Some r) \<longleftrightarrow> um_lo r \<le> page_nat s \<and> page_nat s + 4096 * unat (PageCount_as_u64 n) \<le> um_hi r"
    if r: "Some r \<in> set (records self)" for r
  proof -
    have "mapping_ok r" using ok r by (simp add: mappings_ok_def)
    then obtain m where m: "UserMapping_range r = Some m" "range_at m (um_start r) (um_page_count r)" by (rule mapping_range)
    show ?thesis using m(1) range_contains_nat [OF m(2) b] by simp
  qed
  show "\<not> (\<exists>r. Some r \<in> set (records self) \<and> um_lo r \<le> page_nat s \<and> page_nat s + 4096 * unat (PageCount_as_u64 n) \<le> um_hi r)"
    if none: "find_containing_record_index self b = None"
  proof
    assume "\<exists>r. Some r \<in> set (records self) \<and> um_lo r \<le> page_nat s \<and> page_nat s + 4096 * unat (PageCount_as_u64 n) \<le> um_hi r"
    then obtain r where r: "Some r \<in> set (records self)" "?f (Some r)" using f by blast
    have "\<forall>x\<in>set (records self). \<not> ?f x"
      using none unfolding find_containing_record_index_def find_index_None_iff .
    with r show False by blast
  qed
  show "\<exists>r. i < length (records self) \<and> records self ! i = Some r
      \<and> um_lo r \<le> page_nat s \<and> page_nat s + 4096 * unat (PageCount_as_u64 n) \<le> um_hi r"
    if some: "find_containing_record_index self b = Some i"
  proof -
    have i: "i < length (records self)" "?f (records self ! i)"
      using find_index_SomeD [OF some [unfolded find_containing_record_index_def]] by auto
    then obtain r where r: "records self ! i = Some r" by (cases "records self ! i") auto
    have "Some r \<in> set (records self)" using i(1) r nth_mem by metis
    from f [OF this] i r show ?thesis by auto
  qed
qed

text \<open>
  \<open>carved rs i j r rs'\<close>: record \<open>r\<close> at index \<open>i\<close> was replaced by pieces of itself at \<open>i\<close> and at
  the formerly empty index \<open>j\<close>; \<open>i = j\<close> when there is no second piece.
\<close>

definition carved :: "UserMapping option list \<Rightarrow> nat \<Rightarrow> nat \<Rightarrow> UserMapping \<Rightarrow> UserMapping option list \<Rightarrow> bool" where
  "carved rs i j r rs' \<longleftrightarrow> i < length rs \<and> j < length rs \<and> rs ! i = Some r \<and> length rs' = length rs
     \<and> (\<forall>k<length rs. k \<noteq> i \<and> k \<noteq> j \<longrightarrow> rs' ! k = rs ! k) \<and> (i \<noteq> j \<longrightarrow> rs ! j = None)
     \<and> (\<forall>k q. (k = i \<or> k = j) \<and> rs' ! k = Some q \<longrightarrow>
          mapping_ok q \<and> um_lo r \<le> um_lo q \<and> um_hi q \<le> um_hi r \<and> um_source q = um_source r)
     \<and> (\<forall>q q'. i \<noteq> j \<and> rs' ! i = Some q \<and> rs' ! j = Some q' \<longrightarrow> apart q q')"

lemma apart_sub:
  "apart r q \<Longrightarrow> um_lo r \<le> um_lo r' \<Longrightarrow> um_hi r' \<le> um_hi r \<Longrightarrow> apart r' q \<and> apart q r'"
  by (auto simp: apart_def)

lemma mappings_ok_apart:
  "mappings_ok self \<Longrightarrow> i < length (records self) \<Longrightarrow> j < length (records self) \<Longrightarrow> i \<noteq> j
    \<Longrightarrow> records self ! i = Some r \<Longrightarrow> records self ! j = Some q \<Longrightarrow> apart r q"
  unfolding mappings_ok_def by blast

lemma carved_ok:
  assumes ok: "mappings_ok self" and c: "carved (records self) i j r rs'"
  shows "mappings_ok (self\<lparr>records := rs'\<rparr>)"
proof -
  let ?rs = "records self"
  have ij: "i < length ?rs" "?rs ! i = Some r" and len: "length rs' = length ?rs"
    and keep: "\<And>k. k < length ?rs \<Longrightarrow> k \<noteq> i \<Longrightarrow> k \<noteq> j \<Longrightarrow> rs' ! k = ?rs ! k"
    and piece: "\<And>k q. k = i \<or> k = j \<Longrightarrow> rs' ! k = Some q \<Longrightarrow> mapping_ok q \<and> um_lo r \<le> um_lo q \<and> um_hi q \<le> um_hi r"
    and two: "\<And>q q'. i \<noteq> j \<Longrightarrow> rs' ! i = Some q \<Longrightarrow> rs' ! j = Some q' \<Longrightarrow> apart q q'"
    using c unfolding carved_def by blast+
  have old: "apart r q" if "k < length ?rs" "k \<noteq> i" "k \<noteq> j" "rs' ! k = Some q" for k q
    using mappings_ok_apart [OF ok ij(1) that(1) _ ij(2)] that keep by metis
  have ap: "apart a b"
    if k: "k < length ?rs" "l < length ?rs" "k \<noteq> l" "rs' ! k = Some a" "rs' ! l = Some b" for k l a b
  proof (cases "k = i \<or> k = j"; cases "l = i \<or> l = j")
    assume "k = i \<or> k = j" "l = i \<or> l = j"
    with k two show ?thesis by (auto simp: apart_def)
  next
    assume "k = i \<or> k = j" "\<not> (l = i \<or> l = j)"
    with k piece [of k a] old [of l b] apart_sub show ?thesis by blast
  next
    assume "\<not> (k = i \<or> k = j)" "l = i \<or> l = j"
    with k piece [of l b] old [of k a] apart_sub show ?thesis by blast
  next
    assume "\<not> (k = i \<or> k = j)" "\<not> (l = i \<or> l = j)"
    with k keep mappings_ok_apart [OF ok k(1,2,3)] show ?thesis by metis
  qed
  have all: "mapping_ok q" if q: "Some q \<in> set rs'" for q
  proof -
    obtain k where k: "k < length ?rs" "rs' ! k = Some q" using q len by (metis in_set_conv_nth)
    show ?thesis
    proof (cases "k = i \<or> k = j")
      case True
      then show ?thesis using piece k by blast
    next
      case False
      then have "?rs ! k = Some q" using keep [of k] k by simp
      then have "Some q \<in> set ?rs" using k(1) nth_mem by metis
      then show ?thesis using ok unfolding mappings_ok_def by blast
    qed
  qed
  show ?thesis
    using ok len all ap unfolding mappings_ok_def by simp
qed

lemma carved_pages:
  assumes ok: "mappings_ok self" and c: "carved (records self) i j r rs'"
    and gone: "gone \<subseteq> pages_between (um_lo r) (um_hi r)"
    and rest: "\<And>p. (\<exists>k q. (k = i \<or> k = j) \<and> rs' ! k = Some q \<and> p \<in> pages_between (um_lo q) (um_hi q))
        \<longleftrightarrow> p \<in> pages_between (um_lo r) (um_hi r) \<and> p \<notin> gone"
  shows "source_pages rs' src = source_pages (records self) src - gone"
proof -
  let ?rs = "records self"
  have ij: "i < length ?rs" "j < length ?rs" "?rs ! i = Some r" "i \<noteq> j \<Longrightarrow> ?rs ! j = None" and len: "length rs' = length ?rs"
    and keep: "\<And>k. k < length ?rs \<Longrightarrow> k \<noteq> i \<Longrightarrow> k \<noteq> j \<Longrightarrow> rs' ! k = ?rs ! k"
    and src: "\<And>k q. k = i \<or> k = j \<Longrightarrow> rs' ! k = Some q \<Longrightarrow> um_source q = um_source r"
    using c unfolding carved_def by blast+
  have far: "p \<notin> pages_between (um_lo r) (um_hi r)"
    if k: "k < length ?rs" "k \<noteq> i" "?rs ! k = Some q" "p \<in> pages_between (um_lo q) (um_hi q)" for k q p
  proof -
    have "apart r q" using mappings_ok_apart [OF ok ij(1) k(1) _ ij(3) k(3)] k(2) by blast
    with k(4) show ?thesis by (auto simp: apart_def pages_between_def page_in_def)
  qed
  show ?thesis
  proof (rule set_eqI, rule iffI)
    fix p assume "p \<in> source_pages rs' src"
    then obtain k q where k: "k < length ?rs" "rs' ! k = Some q" "um_source q = src" "p \<in> pages_between (um_lo q) (um_hi q)"
      unfolding in_source_pages len by blast
    show "p \<in> source_pages ?rs src - gone"
    proof (cases "k = i \<or> k = j")
      case True
      then have "p \<in> pages_between (um_lo r) (um_hi r)" "p \<notin> gone" using rest [of p] k by blast+
      moreover have "um_source r = src" using src [OF True k(2)] k(3) by simp
      ultimately show ?thesis using ij(1,3) unfolding in_source_pages Diff_iff by blast
    next
      case False
      then have "?rs ! k = Some q" using keep [of k] k by simp
      then show ?thesis using far [of k q p] k False gone unfolding in_source_pages Diff_iff by blast
    qed
  next
    fix p assume "p \<in> source_pages ?rs src - gone"
    then obtain k q where k: "k < length ?rs" "?rs ! k = Some q" "um_source q = src" "p \<in> pages_between (um_lo q) (um_hi q)" "p \<notin> gone"
      unfolding in_source_pages Diff_iff by blast
    show "p \<in> source_pages rs' src"
    proof (cases "k = i")
      case True
      then have "q = r" using k(2) ij(3) by simp
      then obtain l x where l: "l = i \<or> l = j" "rs' ! l = Some x" "p \<in> pages_between (um_lo x) (um_hi x)"
        using rest [of p] k(4,5) by blast
      then show ?thesis using src [OF l(1,2)] ij(1,2) k(3) \<open>q = r\<close> len unfolding in_source_pages by auto
    next
      case False
      then have "k \<noteq> j" using ij(4) k(2) by (cases "i = j") auto
      then show ?thesis using keep [OF k(1) False] k len unfolding in_source_pages by auto
    qed
  qed
qed

definition record_count :: "UserMapping option list \<Rightarrow> nat" where
  "record_count rs = length (filter (\<lambda>r. r \<noteq> None) rs)"

lemma record_count_update:
  assumes "i < length rs"
  shows "record_count (rs[i := x]) + (if rs ! i = None then 0 else 1) = record_count rs + (if x = None then 0 else 1)"
  using assms
proof (induction rs arbitrary: i)
  case (Cons a rs)
  show ?case
  proof (cases i)
    case 0
    then show ?thesis by (simp add: record_count_def)
  next
    case (Suc k)
    then show ?thesis using Cons.IH [of k] Cons.prems by (cases "a = None") (simp_all add: record_count_def split del: if_split)
  qed
qed simp

text \<open>
  What \<open>apply_record_unmap\<close> makes of record \<open>r\<close> at \<open>i\<close> when the range from \<open>lo\<close> to \<open>hi\<close> leaves it.
\<close>

definition carve_result :: "UserMappings \<Rightarrow> nat \<Rightarrow> UserMapping \<Rightarrow> nat \<Rightarrow> nat \<Rightarrow> UserMappings \<Rightarrow> bool" where
  "carve_result self i r lo hi self' \<longleftrightarrow> (\<exists>j rs'. self' = self\<lparr>records := rs'\<rparr> \<and> carved (records self) i j r rs'
     \<and> (\<forall>k q. (k = i \<or> k = j) \<and> rs' ! k = Some q \<longrightarrow> um_hi q \<le> lo \<or> hi \<le> um_lo q)
     \<and> (\<forall>p. (\<exists>k q. (k = i \<or> k = j) \<and> rs' ! k = Some q \<and> p \<in> pages_between (um_lo q) (um_hi q))
           \<longleftrightarrow> p \<in> pages_between (um_lo r) (um_hi r) \<and> p \<notin> pages_between lo hi)
     \<and> record_count rs' + 1 = record_count (records self) + (if um_lo r < lo then 1 else 0) + (if hi < um_hi r then 1 else 0))"

lemma carve_result_ok:
  assumes ok: "mappings_ok self" and c: "carve_result self i r lo hi self'" and lohi: "um_lo r \<le> lo" "hi \<le> um_hi r"
  shows "mappings_ok self'" "next_start self' = next_start self"
    "source_pages (records self') src = source_pages (records self) src - pages_between lo hi"
proof -
  obtain j rs' where c': "self' = self\<lparr>records := rs'\<rparr>" "carved (records self) i j r rs'"
    "\<forall>p. (\<exists>k q. (k = i \<or> k = j) \<and> rs' ! k = Some q \<and> p \<in> pages_between (um_lo q) (um_hi q))
           \<longleftrightarrow> p \<in> pages_between (um_lo r) (um_hi r) \<and> p \<notin> pages_between lo hi"
    using c unfolding carve_result_def by blast
  show "mappings_ok self'" using carved_ok [OF ok c'(2)] c'(1) by simp
  show "next_start self' = next_start self" using c'(1) by simp
  have "pages_between lo hi \<subseteq> pages_between (um_lo r) (um_hi r)"
    using lohi page_in_mono by (auto simp: pages_between_def)
  from carved_pages [OF ok c'(2) this] c'(1,3)
  show "source_pages (records self') src = source_pages (records self) src - pages_between lo hi" by simp
qed

lemma apply_unmap_runs:
  assumes ok: "mappings_ok self" and i: "i < length (records self)" "records self ! i = Some r"
    and lo: "um_lo r + 4096 * unat left = lo" and hi: "hi + 4096 * unat right = um_hi r" and lt: "lo \<le> hi"
    and rs: "user_page_ok right_start" "page_nat right_start = hi"
    and split: "left \<noteq> 0 \<Longrightarrow> right \<noteq> 0 \<Longrightarrow> \<exists>j. split = Some j \<and> j < length (records self) \<and> records self ! j = None"
  shows "runs (apply_record_unmap self i split r left right right_start) (carve_result self i r lo hi)"
proof -
  let ?rs = "records self"
  let ?L = "\<lparr>um_start = um_start r, um_page_count = PageCount left, um_source = um_source r\<rparr>"
  let ?R = "\<lparr>um_start = right_start, um_page_count = PageCount right, um_source = um_source r\<rparr>"
  have "Some r \<in> set ?rs" using i nth_mem by metis
  then have rok: "mapping_ok r" using ok by (simp add: mappings_ok_def)
  have L: "left \<noteq> 0 \<Longrightarrow> mapping_ok ?L \<and> PageCount_new left = Some (PageCount left)" "um_lo ?L = um_lo r" "um_hi ?L = lo"
    using rok lo lt hi by (auto simp: in_region_def page_count_ok_def PageCount_new_Some_iff)
  have R: "right \<noteq> 0 \<Longrightarrow> mapping_ok ?R \<and> PageCount_new right = Some (PageCount right)" "um_lo ?R = hi" "um_hi ?R = um_hi r"
    using rok lo lt hi rs by (auto simp: in_region_def page_count_ok_def PageCount_new_Some_iff)
  have zero: "left = 0 \<longleftrightarrow> lo = um_lo r" "right = 0 \<longleftrightarrow> hi = um_hi r"
    using lo hi by (auto simp: word_unat_eq_iff)
  have le: "um_lo r \<le> lo" "hi \<le> um_hi r" using lo hi by auto
  have pages: "p \<in> pages_between (um_lo r) (um_hi r) \<and> p \<notin> pages_between lo hi
      \<longleftrightarrow> p \<in> pages_between (um_lo r) lo \<or> p \<in> pages_between hi (um_hi r)" for p
    using le lt by (auto simp: pages_between_def page_in_def)
  note cnt = record_count_update [of i ?rs] i
  consider "left = 0" "right = 0" | "left \<noteq> 0" "right = 0" | "left = 0" "right \<noteq> 0" | "left \<noteq> 0" "right \<noteq> 0" by blast
  then show ?thesis
  proof cases
    case 1
    have "carve_result self i r lo hi (self\<lparr>records := ?rs[i := None]\<rparr>)"
      unfolding carve_result_def
      by (rule exI [of _ i], rule exI [of _ "?rs[i := None]"]) (use 1 zero i cnt pages in \<open>auto simp: carved_def\<close>)
    with 1 i show ?thesis by (simp add: apply_record_unmap_def set_record_def)
  next
    case 2
    have "carve_result self i r lo hi (self\<lparr>records := ?rs[i := Some ?L]\<rparr>)"
      unfolding carve_result_def
      by (rule exI [of _ i], rule exI [of _ "?rs[i := Some ?L]"]) (use 2 zero lt i cnt pages L le in \<open>auto simp: carved_def\<close>)
    with 2 i L show ?thesis by (simp add: apply_record_unmap_def set_record_def mapping_page_count_def)
  next
    case 3
    have "carve_result self i r lo hi (self\<lparr>records := ?rs[i := Some ?R]\<rparr>)"
      unfolding carve_result_def
      by (rule exI [of _ i], rule exI [of _ "?rs[i := Some ?R]"]) (use 3 zero lt i cnt pages R le in \<open>auto simp: carved_def\<close>)
    with 3 i R show ?thesis by (simp add: apply_record_unmap_def set_record_def mapping_page_count_def)
  next
    case 4
    obtain j where j: "split = Some j" "j < length ?rs" "?rs ! j = None" using split 4 by blast
    then have ij: "i \<noteq> j" using i by auto
    let ?rs' = "?rs[i := Some ?L, j := Some ?R]"
    have "apart ?L ?R" using L R lt by (simp add: apart_def)
    then have "carve_result self i r lo hi (self\<lparr>records := ?rs'\<rparr>)"
      unfolding carve_result_def
      using record_count_update [of j "?rs[i := Some ?L]" "Some ?R"]
      by (intro exI [of _ j] exI [of _ ?rs']) (use 4 zero lt i j ij cnt pages L R le in \<open>auto simp: carved_def nth_list_update\<close>)
    with 4 i j L R show ?thesis by (simp add: apply_record_unmap_def set_record_def mapping_page_count_def)
  qed
qed

end
