(* ===== verification/Address_Space_Properties.thy ===== *)
theory Address_Space_Properties
  imports User_Address_Space
begin

text \<open>
  The user address space against the walker's view of its page tables: validation of a
  user range, and mapping followed by unmapping.
\<close>

section \<open>Validation\<close>

text \<open>Page \<open>q\<close> is mapped for user data with at least the flags \<open>fl\<close>.\<close>

definition user_data_page :: "(u64 \<Rightarrow> (u64 \<times> PageTableFlags) option) \<Rightarrow> PageTableFlags \<Rightarrow> UserPageStart \<Rightarrow> bool" where
  "user_data_page v fl q \<longleftrightarrow> (\<exists>f g. v (UserPageStart_as_u64 q) = Some (f, g)
     \<and> fl \<union> {PRESENT, USER_ACCESSIBLE, NO_EXECUTE} \<subseteq> g)"

lemma is_page_mapped_view:
  assumes "translates_leaf mp view" "user_page_ok q"
  shows "is_page_mapped_with_flags mp self m q fl \<longleftrightarrow>
     (\<exists>f g. view m (root_of self) (UserPageStart_as_u64 q) = Some (f, g) \<and> fl \<union> {PRESENT, USER_ACCESSIBLE} \<subseteq> g)"
proof -
  have "VirtAddr_as_u64 (UserVirtualAddress_as_address (UserPageStart_as_address q)) = UserPageStart_as_u64 q"
    by (simp add: UserPageStart_as_u64_def UserVirtualAddress_as_u64_def)
  moreover have "UserPageStart_as_u64 q < USER_SPACE_END \<and> 4096 dvd page_nat q"
    using assms(2) by (simp add: user_page_ok_unat word_less_nat_alt)
  ultimately show ?thesis
    using assms(1) by (auto simp: is_page_mapped_with_flags_def mapping_flags_for_address_def translates_leaf_def
        split: option.splits)
qed


definition stack_tables :: flat_tables where
  "stack_tables = (\<lambda>_ _. None)(0x100000 := [0x5000 \<mapsto> (0x9000, {PRESENT, WRITABLE, USER_ACCESSIBLE, NO_EXECUTE})])"

abbreviation stack_space :: UserAddressSpace where
  "stack_space \<equiv> \<lparr>level_4_frame = PhysicalFrameStart (PhysAddr 0x100000)\<rparr>"

abbreviation stack_range :: "u64 \<Rightarrow> usize \<Rightarrow> UserVirtualRange" where
  "stack_range start n \<equiv> \<lparr>uvr_start = UserVirtualAddress (VirtAddr start), uvr_byte_len = n\<rparr>"


section \<open>Mapping and unmapping\<close>


lemma small_pool_granted:
  assumes "fa_canon s" "repr s [cell State_Free Owner_Free 4096 4]" "ow \<noteq> Owner_Free"
  shows "runs (allocate_frame_for s ow) (\<lambda>(s', r). \<exists>f. r = Some f \<and> fa_canon s' \<and> tracked_count s' \<le> 2
     \<and> card (free_frames s') = 3 \<and> frame_address_ok (PhysicalFrameStart_as_u64 f)
     \<and> unat (PhysicalFrameStart_as_u64 f) div 4096 \<in> fa_frames s' State_Used ow)"
proof -
  note s = small_pool_free [OF assms(2)]
  show ?thesis
    using assms(1,3) s
    by (intro runs_conseq [OF allocate_frame_runs [OF assms(1) _ assms(3)]]) (auto simp: moved_def split: option.splits)
qed


end
