(* ===== verification/User_Mapping_Properties.thy ===== *)
theory User_Mapping_Properties
  imports User_Mapping_Table Address_Space_Properties
begin

text \<open>
  The properties of private user mappings: \<open>munmap\<close>, placement, replacement and \<open>mmap\<close>.
\<close>

section \<open>The invariant\<close>

definition maps_inv :: "'m page_view \<Rightarrow> UserAddressSpace \<Rightarrow> UserMappings \<Rightarrow> 'm memory \<Rightarrow> bool" where
  "maps_inv view space self st \<longleftrightarrow> mappings_ok self \<and> fa_canon (allocator st)
     \<and> backed_on (view (tables st) (root_of space)) (allocator st) FrameRangeOwner.UserMapping (table_pages (records self))
     \<and> (\<forall>p \<in> pages_between 0x600000000000 0x700000000000 - table_pages (records self). view (tables st) (root_of space) p = None)"

lemma next_empty:
  "next_empty_record_index self = None \<longleftrightarrow> record_count (records self) = length (records self)"
  "next_empty_record_index self = Some i \<Longrightarrow> i < length (records self) \<and> records self ! i = None"
proof -
  have "record_count (records self) = length (records self) \<longleftrightarrow> (\<forall>r\<in>set (records self). r \<noteq> None)"
    by (auto simp: record_count_def length_filter_less filter_id_conv le_less dest: length_filter_less
        intro!: arg_cong [of _ _ length])
  then show "next_empty_record_index self = None \<longleftrightarrow> record_count (records self) = length (records self)"
    by (auto simp: next_empty_record_index_def find_index_None_iff)
  show "next_empty_record_index self = Some i \<Longrightarrow> i < length (records self) \<and> records self ! i = None"
    using find_index_SomeD by (fastforce simp: next_empty_record_index_def)
qed

lemma record_count_le: "record_count rs \<le> length rs"
  by (simp add: record_count_def)

lemma table_pages_region:
  assumes "mappings_ok self"
  shows "table_pages (records self) \<subseteq> pages_between 0x600000000000 0x700000000000"
proof
  fix p assume "p \<in> table_pages (records self)"
  then obtain r where r: "Some r \<in> set (records self)" "p \<in> pages_between (um_lo r) (um_hi r)" by (auto simp: table_pages_def)
  then have "mapping_ok r" using assms by (simp add: mappings_ok_def)
  with r(2) show "p \<in> pages_between 0x600000000000 0x700000000000"
    by (auto simp: in_region_def pages_between_def intro: page_in_mono)
qed

lemma table_pages_minus:
  assumes "\<And>src. source_pages rs' src = source_pages rs src - S"
  shows "table_pages rs' = table_pages rs - S"
  unfolding table_pages_sources using assms by auto

section \<open>Unmapping\<close>

definition unmap_allowed :: "UserMappings \<Rightarrow> UserPageStart \<Rightarrow> PageCount \<Rightarrow> bool" where
  "unmap_allowed self s n \<longleftrightarrow> in_region s n \<and> (\<exists>r. Some r \<in> set (records self) \<and> um_lo r \<le> page_nat s
     \<and> page_nat s + 4096 * unat (PageCount_as_u64 n) \<le> um_hi r
     \<and> (um_lo r < page_nat s \<and> page_nat s + 4096 * unat (PageCount_as_u64 n) < um_hi r
          \<longrightarrow> record_count (records self) < MAX_USER_MAPPINGS))"

lemma record_unique:
  assumes "mappings_ok self" "Some r \<in> set (records self)" "Some q \<in> set (records self)"
    "um_lo r \<le> x" "x < um_hi r" "um_lo q \<le> x" "x < um_hi q"
  shows "r = q"
proof -
  obtain i j where ij: "i < length (records self)" "records self ! i = Some r" "j < length (records self)" "records self ! j = Some q"
    using assms(2,3) by (metis in_set_conv_nth)
  have "i = j"
  proof (rule ccontr)
    assume "i \<noteq> j"
    then have "apart r q" using mappings_ok_apart [OF assms(1)] ij by blast
    then show False using assms(4-) by (auto simp: apart_def)
  qed
  with ij show ?thesis by simp
qed

lemma range_sub_pages:
  assumes "unat a = x" "unat b = y" "y \<le> x" "4096 dvd x" "4096 dvd y"
  shows "\<exists>d. checked_sub (a :: u64) b = Some d \<and> y + 4096 * unat (d div PAGE_SIZE) = x"
proof -
  have "4096 dvd x - y" using assms(3-5) by (simp add: dvd_diff_nat)
  moreover have "unat (a - b) = x - y" using assms(1-3) by (simp add: unat_sub word_le_nat_alt)
  ultimately show ?thesis using assms(1-3)
    by (intro exI [of _ "a - b"]) (auto simp: checked_sub_def word_less_nat_alt unat_div)
qed

text \<open>Unmapping pages of the table and removing them from it keeps the invariant.\<close>

lemma maps_inv_unmapped:
  assumes inv: "maps_inv view space self st" and ok: "mappings_ok self'"
    and pg: "\<And>src. source_pages (records self') src = source_pages (records self) src - S"
    and un: "unmapped view (root_of space) S (table_pages (records self)) st st'"
  shows "maps_inv view space self' st'"
proof -
  have t: "table_pages (records self') = table_pages (records self) - S" by (rule table_pages_minus [OF pg])
  have v: "view (tables st') (root_of space) = (\<lambda>p. if p \<in> S then None else view (tables st) (root_of space) p)"
    and b: "backed_on (view (tables st') (root_of space)) (allocator st') FrameRangeOwner.UserMapping (table_pages (records self) - S)"
    and c: "fa_canon (allocator st')"
    using un unfolding unmapped_def by blast+
  have none: "view (tables st) (root_of space) p = None" if "p \<in> pages_between 0x600000000000 0x700000000000" "p \<notin> table_pages (records self)" for p
    using inv that unfolding maps_inv_def by blast
  show ?thesis
    unfolding maps_inv_def t using ok c b
  proof (intro conjI ballI)
    fix p assume "p \<in> pages_between 0x600000000000 0x700000000000 - (table_pages (records self) - S)"
    then show "view (tables st') (root_of space) p = None" unfolding v using none by (cases "p \<in> S") auto
  qed
qed

lemma record_pages_subset: "Some r \<in> set rs \<Longrightarrow> um_lo r \<le> lo \<Longrightarrow> hi \<le> um_hi r \<Longrightarrow> pages_between lo hi \<subseteq> table_pages rs"
  by (auto simp: table_pages_def pages_between_def intro: page_in_mono)

lemma unmap_pages_runs:
  fixes mp :: "'m mapper"
  assumes mp: "mapper_ok mp view" and inv: "maps_inv view space self st" and reg: "in_region s n"
    and sub: "pages_between (page_nat s) (page_nat s + 4096 * unat (PageCount_as_u64 n)) \<subseteq> table_pages (records self)"
    and room: "tracked_count (allocator st) + 2 * unat (PageCount_as_u64 n) \<le> MAX_TRACKED_RANGES"
  shows "runs (unmap_pages mp space st s n) (\<lambda>st'.
     unmapped view (root_of space) (pages_between (page_nat s) (page_nat s + 4096 * unat (PageCount_as_u64 n)))
       (table_pages (records self)) st st'
     \<and> tracked_count (allocator st') \<le> tracked_count (allocator st) + 2 * unat (PageCount_as_u64 n))"
  using unmap_pages_from_runs [where i = 0 and n = "unat (PageCount_as_u64 n)", OF mp, of s st space "table_pages (records self)"]
    inv reg sub room by (simp add: unmap_pages_def maps_inv_def in_region_def)

text \<open>
  \<open>unmap_effect\<close>: the pages \<open>S\<close> were taken out of the records and out of the page tables, and
  their frames were freed.
\<close>

definition unmap_effect :: "'m page_view \<Rightarrow> UserAddressSpace \<Rightarrow> u64 set \<Rightarrow> UserMappings \<Rightarrow> 'm memory \<Rightarrow> UserMappings \<Rightarrow> 'm memory \<Rightarrow> bool" where
  "unmap_effect view space S self st self' st' \<longleftrightarrow> maps_inv view space self' st' \<and> next_start self' = next_start self
     \<and> (\<forall>src. source_pages (records self') src = source_pages (records self) src - S)
     \<and> unmapped view (root_of space) S (table_pages (records self)) st st'"

lemma unmap_contained_runs:
  fixes mp :: "'m mapper"
  assumes mp: "mapper_ok mp view" and inv: "maps_inv view space self st" and reg: "in_region s n" and b: "range_at b s n"
    and room: "tracked_count (allocator st) + 2 * unat (PageCount_as_u64 n) \<le> MAX_TRACKED_RANGES"
    and hi: "hi = page_nat s + 4096 * unat (PageCount_as_u64 n)"
    and r: "i < length (records self)" "records self ! i = Some r" "um_lo r \<le> page_nat s" "hi \<le> um_hi r"
    and d: "um_lo r + 4096 * unat d = page_nat s" and e: "hi + 4096 * unat e = um_hi r"
    and sp: "d \<noteq> 0 \<Longrightarrow> e \<noteq> 0 \<Longrightarrow> \<exists>j. split = Some j \<and> j < length (records self) \<and> records self ! j = None"
  shows "runs (bind_run (unmap_pages mp space st s n) (\<lambda>st.
       bind_run (apply_record_unmap self i split r d e (umr_end_exclusive b)) (\<lambda>self. Done ((self, st), Some n))))
     (\<lambda>((self', st'), x). x = Some n \<and> unmap_effect view space (pages_between (page_nat s) hi) self st self' st')"
proof -
  have ok: "mappings_ok self" using inv by (simp add: maps_inv_def)
  have mem: "Some r \<in> set (records self)" using r(1,2) nth_mem by metis
  have ap: "runs (apply_record_unmap self i split r d e (umr_end_exclusive b)) (carve_result self i r (page_nat s) hi)"
    by (rule apply_unmap_runs [OF ok r(1,2) d e]) (use b sp hi in \<open>auto simp: range_at_def\<close>)
  have pages: "runs (unmap_pages mp space st s n) (\<lambda>st'. unmapped view (root_of space) (pages_between (page_nat s) hi) (table_pages (records self)) st st'
      \<and> tracked_count (allocator st') \<le> tracked_count (allocator st) + 2 * unat (PageCount_as_u64 n))"
    using unmap_pages_runs [OF mp inv reg _ room] record_pages_subset [OF mem r(3,4)] hi by simp
  show ?thesis
    unfolding runs_bind
  proof (rule runs_conseq [OF pages], rule runs_conseq [OF ap], elim conjE)
    fix st' self'
    assume u: "unmapped view (root_of space) (pages_between (page_nat s) hi) (table_pages (records self)) st st'"
      and c: "carve_result self i r (page_nat s) hi self'"
    note c' = carve_result_ok [OF ok c r(3,4)]
    show "runs (Done ((self', st'), Some n)) (\<lambda>((self', st'), x). x = Some n
        \<and> unmap_effect view space (pages_between (page_nat s) hi) self st self' st')"
      using c' u maps_inv_unmapped [OF inv c'(1) c'(3) u] by (simp add: unmap_effect_def)
  qed
qed

text \<open>A request whose range one record contains, with the record's left and right remainders.\<close>

lemma unmap_range_found:
  assumes ok: "mappings_ok self" and b: "UserMappingRange_new s n = Some b" "range_at b s n" and s: "user_page_ok s"
    and i: "find_containing_record_index self b = Some i"
    and req: "umu_start req = s" "uml_page_count (umu_length req) = n"
    and hi: "hi = page_nat s + 4096 * unat (PageCount_as_u64 n)"
  obtains r d e where "i < length (records self)" "records self ! i = Some r" "um_lo r \<le> page_nat s" "hi \<le> um_hi r"
    "um_lo r + 4096 * unat d = page_nat s" "hi + 4096 * unat e = um_hi r"
    "unmap_range mp space self st req = (let go = (\<lambda>split. bind_run (unmap_pages mp space st s n) (\<lambda>st.
         bind_run (apply_record_unmap self i split r d e (umr_end_exclusive b)) (\<lambda>self. Done ((self, st), Some n)))) in
       if um_lo r < page_nat s \<and> hi < um_hi r
       then case next_empty_record_index self of None \<Rightarrow> Done ((self, st), None) | Some j \<Rightarrow> go (Some j)
       else go None)"
proof -
  obtain r where r: "i < length (records self)" "records self ! i = Some r" "um_lo r \<le> page_nat s" "hi \<le> um_hi r"
    using find_record(2) [OF ok b(2) i] hi by blast
  have "Some r \<in> set (records self)" using r nth_mem by metis
  then have rok: "mapping_ok r" using ok by (simp add: mappings_ok_def)
  then obtain m where m: "UserMapping_range r = Some m" "range_at m (um_start r) (um_page_count r)" by (rule mapping_range)
  have al: "4096 dvd um_lo r" "4096 dvd page_nat s" "4096 dvd um_hi r" "4096 dvd hi"
    using rok s hi by (auto simp: in_region_def user_page_ok_unat)
  obtain d where d: "checked_sub (start_address b) (start_address m) = Some d" "um_lo r + 4096 * unat (d div PAGE_SIZE) = page_nat s"
    using range_sub_pages [of "start_address b" "page_nat s" "start_address m" "um_lo r"] b(2) m(2) r(3) al by (auto simp: range_at_def)
  obtain e where e: "checked_sub (end_address m) (end_address b) = Some e" "hi + 4096 * unat (e div PAGE_SIZE) = um_hi r"
    using range_sub_pages [of "end_address m" "um_hi r" "end_address b" hi] b(2) m(2) r(4) al hi by (auto simp: range_at_def)
  have pos: "0 < d div PAGE_SIZE \<longleftrightarrow> um_lo r < page_nat s" "0 < e div PAGE_SIZE \<longleftrightarrow> hi < um_hi r"
    using d(2) e(2) by (auto simp: word_gt_0 word_unat_eq_iff)
  show thesis
    by (rule that [OF r d(2) e(2)]) (use b(1) i r(1,2) m(1) d(1) e(1) req pos in \<open>simp add: unmap_range_def Let_def\<close>)
qed


section \<open>Placement\<close>

lemma fixed_start:
  assumes p: "user_page_ok p" and n: "page_count_ok n"
  shows "fixed_start_address p (PageCount_byte_len n) = (if in_region p n then Inr p else Inl InvalidRequest)"
proof (cases "UserMappingRange_new p n")
  case None
  then have no: "\<not> in_region p n" using range_new_region by (metis option.distinct(1))
  with None show ?thesis
    by (auto simp: fixed_start_address_def UserMappingRange_new_def split: option.splits if_splits)
next
  case (Some r)
  then have "in_region p n" using range_new_Some_iff [OF p n] by blast
  with Some show ?thesis
    by (auto simp: fixed_start_address_def UserMappingRange_new_def split: option.splits if_splits)
qed

lemma placement_cases:
  assumes ok: "mappings_ok self" and n: "page_count_ok n"
    and pl: "\<And>p. pl = FixedNoReplace p \<or> pl = FixedReplace p \<Longrightarrow> user_page_ok p"
  shows "case start_address_for_placement self pl (PageCount_byte_len n) of
       Inr s \<Rightarrow> in_region s n \<and> (case pl of
           Placement_Any \<Rightarrow> page_nat (next_start self) \<le> page_nat s \<and> free_at self n s
             \<and> (\<forall>t. page_nat (next_start self) \<le> page_nat t \<longrightarrow> free_at self n t \<longrightarrow> page_nat s \<le> page_nat t)
         | FixedNoReplace p \<Rightarrow> s = p \<and> free_at self n p
         | FixedReplace p \<Rightarrow> s = p)
     | Inl e \<Rightarrow> (case pl of
           Placement_Any \<Rightarrow> e = OutOfMemory \<and> (\<forall>t. page_nat (next_start self) \<le> page_nat t \<longrightarrow> \<not> free_at self n t)
         | FixedNoReplace p \<Rightarrow> if in_region p n then e = AddressInUse \<and> \<not> free_at self n p else e = InvalidRequest
         | FixedReplace p \<Rightarrow> e = InvalidRequest \<and> \<not> in_region p n)"
proof -
  show ?thesis
  proof (cases pl)
    case Placement_Any
    have "user_page_ok (next_start self)" "0x600000000000 \<le> page_nat (next_start self)" using ok by (simp_all add: mappings_ok_def)
    from next_available_start_exact [OF ok n this] Placement_Any show ?thesis
      by (auto simp: start_address_for_placement_def free_at_def split: option.splits)
  next
    case (FixedNoReplace p)
    then have p: "user_page_ok p" using pl by blast
    show ?thesis
    proof (cases "in_region p n")
      case True
      then obtain a where a: "UserMappingRange_new p n = Some a" "range_at a p n" by (rule range_new_region)
      show ?thesis
        using overlapping_end(1) [OF ok a(2) True] fixed_start [OF p n] True FixedNoReplace a(1) range_from_byte_len [OF n, of p]
        by (simp add: start_address_for_placement_def)
    next
      case False
      then show ?thesis using fixed_start [OF p n] FixedNoReplace by (simp add: start_address_for_placement_def)
    qed
  next
    case (FixedReplace p)
    then have p: "user_page_ok p" using pl by blast
    show ?thesis using fixed_start [OF p n] FixedReplace by (simp add: start_address_for_placement_def)
  qed
qed


definition sample_page :: "u64 \<Rightarrow> UserPageStart" where
  "sample_page a = UserPageStart (UserVirtualAddress (VirtAddr a))"

definition sample_mappings :: UserMappings where
  "sample_mappings = \<lparr>next_start = sample_page 0x600000000000,
     records = Some \<lparr>um_start = sample_page 0x600000000000, um_page_count = PageCount 3, um_source = Anonymous\<rparr> # replicate 31 None\<rparr>"

lemma sample_pages:
  "page_nat (sample_page 0x600000000000) = 0x600000000000" "page_nat (sample_page 0x600000001000) = 0x600000001000"
  "page_nat (sample_page 0x600000003000) = 0x600000003000"
  "user_page_ok (sample_page 0x600000000000)" "user_page_ok (sample_page 0x600000001000)" "user_page_ok (sample_page 0x600000003000)"
  by (simp_all add: sample_page_def UserPageStart_as_u64_def UserVirtualAddress_as_u64_def user_page_ok_unat)

lemma sample_mappings_ok: "mappings_ok sample_mappings"
proof -
  have "mapping_ok \<lparr>um_start = sample_page 0x600000000000, um_page_count = PageCount 3, um_source = Anonymous\<rparr>"
    using sample_pages by (simp add: in_region_def page_count_ok_def)
  then show ?thesis
    using sample_pages unfolding mappings_ok_def
    by (auto simp: sample_mappings_def nth_Cons split: nat.splits)
qed


section \<open>A table with one page\<close>

definition one_mapping :: UserMappings where
  "one_mapping = \<lparr>next_start = sample_page 0x600000001000,
     records = Some \<lparr>um_start = sample_page 0x600000000000, um_page_count = PageCount 1, um_source = Anonymous\<rparr> # replicate 31 None\<rparr>"

definition one_memory :: "PhysicalFrameStart \<Rightarrow> PhysicalFrameAllocator \<Rightarrow> flat_tables memory" where
  "one_memory f s = \<lparr>tables = (\<lambda>_ _. None)(0x100000 := [0x600000000000 \<mapsto> (PhysicalFrameStart_as_u64 f, user_page_flags True)]),
     allocator = s, bytes = (\<lambda>_. 0)\<rparr>"

definition one_request :: UserMappingUnmapRequest where
  "one_request = \<lparr>umu_start = sample_page 0x600000000000, umu_length = \<lparr>uml_byte_len = 4096, uml_page_count = PageCount 1\<rparr>\<rparr>"

lemma one_mapping_pages: "table_pages (records one_mapping) = {0x600000000000}"
proof -
  have "pages_between 0x600000000000 (0x600000000000 + 4096) = {0x600000000000}"
  proof (rule set_eqI)
    fix p :: u64
    have "page_in 0x600000000000 (0x600000000000 + 4096) p \<longleftrightarrow> unat p = 0x600000000000"
      unfolding page_in_def by (auto elim!: dvdE)
    then show "p \<in> pages_between 0x600000000000 (0x600000000000 + 4096) \<longleftrightarrow> p \<in> {0x600000000000}"
      by (simp add: pages_between_def word_unat_eq_iff)
  qed
  then show ?thesis using sample_pages by (simp add: table_pages_def one_mapping_def)
qed

lemma one_mapping_ok: "mappings_ok one_mapping"
proof -
  have "mapping_ok \<lparr>um_start = sample_page 0x600000000000, um_page_count = PageCount 1, um_source = Anonymous\<rparr>"
    using sample_pages by (simp add: in_region_def page_count_ok_def)
  then show ?thesis
    using sample_pages unfolding mappings_ok_def by (auto simp: one_mapping_def nth_Cons split: nat.splits)
qed

lemma one_maps_inv:
  assumes "fa_canon s" "frame_address_ok (PhysicalFrameStart_as_u64 f)"
    "unat (PhysicalFrameStart_as_u64 f) div 4096 \<in> fa_frames s State_Used FrameRangeOwner.UserMapping"
  shows "maps_inv (\<lambda>m. m) sample_space one_mapping (one_memory f s)"
  using assms one_mapping_ok unfolding maps_inv_def one_mapping_pages
  by (auto simp: one_memory_def backed_on_def PhysicalFrameStart_as_u64_def)


end
