(* ===== verification/User_Mapping_Pages.thy ===== *)
theory User_Mapping_Pages
  imports User_Mapping_Properties
begin

text \<open>
  The page loop of \<open>mmap\<close>: what has been mapped after each page, and the rollback when the
  initializer refuses a page.
\<close>

abbreviation um_owner :: FrameRangeOwner where
  "um_owner \<equiv> FrameRangeOwner.UserMapping"

abbreviation first_pages :: "UserPageStart \<Rightarrow> nat \<Rightarrow> u64 set" where
  "first_pages s i \<equiv> pages_between (page_nat s) (page_nat s + 4096 * i)"

text \<open>
  After \<open>i\<close> pages from \<open>s\<close> on: they are mapped with \<open>fl\<close>, everything else is as in \<open>st0\<close>, their
  frames and the table frames \<open>T\<close> are the frames that left the free pool.
\<close>

definition mapped_so_far :: "'m page_view \<Rightarrow> u64 \<Rightarrow> PageTableFlags \<Rightarrow> u64 set \<Rightarrow> UserPageStart \<Rightarrow> 'm memory \<Rightarrow> nat \<Rightarrow> nat set \<Rightarrow> 'm memory \<Rightarrow> bool" where
  "mapped_so_far view root fl P s st0 i T st \<longleftrightarrow>
     (let v = view (tables st) root; F = frames_on v (first_pages s i) in
      (\<forall>p. if p \<in> first_pages s i then \<exists>f. v p = Some (f, fl) else v p = view (tables st0) root p)
      \<and> (\<forall>other. other \<noteq> root \<longrightarrow> view (tables st) other = view (tables st0) other)
      \<and> backed_on v (allocator st) um_owner (P \<union> first_pages s i)
      \<and> fa_canon (allocator st) \<and> tracked_count (allocator st) \<le> tracked_count (allocator st0) + 4 * i
      \<and> F \<subseteq> free_frames (allocator st0) \<and> T \<subseteq> free_frames (allocator st0) \<and> F \<inter> T = {}
      \<and> free_frames (allocator st) = free_frames (allocator st0) - F - T \<and> card T \<le> 3 * i \<and> card F \<le> i)"

lemma first_pages_0 [simp]: "first_pages s 0 = {}"
  by simp

lemma first_pages_Suc:
  assumes "user_page_ok p" "page_nat p = page_nat s + 4096 * i"
  shows "first_pages s (Suc i) = insert (UserPageStart_as_u64 p) (first_pages s i)"
    and "UserPageStart_as_u64 p \<notin> first_pages s i"
proof -
  have "first_pages s (Suc i) = pages_between (page_nat s) (page_nat p + 4096)"
    using assms(2) by (simp add: algebra_simps)
  also have "\<dots> = insert (UserPageStart_as_u64 p) (first_pages s i)"
    using page_in_last [OF assms(1), of "page_nat s"] assms(2) by (auto simp: pages_between_def)
  finally show "first_pages s (Suc i) = insert (UserPageStart_as_u64 p) (first_pages s i)" .
  show "UserPageStart_as_u64 p \<notin> first_pages s i" using assms(2) by (simp add: pages_between_def page_in_def)
qed

lemma mapped_start:
  assumes "fa_canon (allocator st)" "backed_on (view (tables st) root) (allocator st) um_owner P"
  shows "mapped_so_far view root fl P s st 0 {} st"
  using assms by (simp add: mapped_so_far_def Let_def frames_on_def)

lemma mapped_free_card:
  assumes "mapped_so_far view root fl P s st0 i T st"
  shows "card (free_frames (allocator st0)) \<le> card (free_frames (allocator st)) + 4 * i"
proof -
  let ?F = "frames_on (view (tables st) root) (first_pages s i)" and ?A = "free_frames (allocator st0)"
  have a: "?F \<subseteq> ?A" "T \<subseteq> ?A" "free_frames (allocator st) = ?A - ?F - T" "card T \<le> 3 * i" "card ?F \<le> i"
    using assms unfolding mapped_so_far_def Let_def by blast+
  have "card ?A - card (?F \<union> T) \<le> card (free_frames (allocator st))"
    unfolding a(3) Diff_Diff_Int Diff_eq_empty_iff using diff_card_le_card_Diff [of "?F \<union> T" ?A] a(1,2) finite_subset [OF _ finite_frames]
    by (simp add: Diff_Un set_diff_eq)
  moreover have "card (?F \<union> T) \<le> 4 * i" using card_Un_le [of ?F T] a(4,5) by linarith
  ultimately show ?thesis by linarith
qed

lemma mapped_step:
  assumes M: "mapped_so_far view root fl P s st0 i T st" and p: "user_page_ok p" "page_nat p = page_nat s + 4096 * i"
    and pP: "UserPageStart_as_u64 p \<notin> P"
    and f: "frame_address_ok f" "unat f div 4096 \<in> free_frames (allocator st)"
      "moved {unat f div 4096} (State_Free, Owner_Free) (State_Used, um_owner) (allocator st) fa1"
    and T': "tables_taken T' fa1 fa2" "card T' \<le> 3" and fa2: "fa_canon fa2" "tracked_count fa2 \<le> tracked_count (allocator st) + 4"
    and v': "view m' root = (view (tables st) root)(UserPageStart_as_u64 p \<mapsto> (f, fl))"
      "\<forall>other. other \<noteq> root \<longrightarrow> view m' other = view (tables st) other"
  shows "mapped_so_far view root fl P s st0 (Suc i) (T \<union> T') (st\<lparr>tables := m', allocator := fa2, bytes := mem\<rparr>)"
proof -
  let ?v = "view (tables st) root" and ?p = "UserPageStart_as_u64 p" and ?S = "first_pages s i"
  let ?F = "frames_on ?v ?S" and ?A = "free_frames (allocator st0)" and ?f = "unat f div 4096"
  have m: "\<And>q. if q \<in> ?S then \<exists>f. ?v q = Some (f, fl) else ?v q = view (tables st0) root q"
    "\<forall>other. other \<noteq> root \<longrightarrow> view (tables st) other = view (tables st0) other"
    "backed_on ?v (allocator st) um_owner (P \<union> ?S)" "fa_canon (allocator st)"
    "tracked_count (allocator st) \<le> tracked_count (allocator st0) + 4 * i"
    "?F \<subseteq> ?A" "T \<subseteq> ?A" "?F \<inter> T = {}" "free_frames (allocator st) = ?A - ?F - T" "card T \<le> 3 * i" "card ?F \<le> i"
    using M unfolding mapped_so_far_def Let_def by blast+
  note S = first_pages_Suc [OF p]
  have F': "frames_on (view m' root) (first_pages s (Suc i)) = insert ?f ?F"
  proof -
    have "frames_on (view m' root) ?S = ?F" using S(2) v'(1) by (intro frames_on_cong) auto
    moreover have "frames_on (view m' root) {?p} = {?f}" using v'(1) by (simp add: frames_on_def)
    ultimately show ?thesis unfolding S(1) using frames_on_Un [of "view m' root" "{?p}" ?S] by simp
  qed
  have free1: "free_frames fa1 = free_frames (allocator st) - {?f}" using moved_taken(1) [OF f(3)] .
  have T'': "T' \<subseteq> free_frames fa1" using T'(1) by (simp add: tables_taken_def)
  have free2: "free_frames fa2 = free_frames fa1 - T'" using tables_taken_free [OF T'(1)] .
  have "backed_on (view m' root) fa2 um_owner (insert ?p (P \<union> ?S))"
    unfolding v'(1) by (rule backed_on_map [OF m(3) _ f(1,2) m(4) f(3) T'(1)]) (use pP S(2) in auto)
  moreover have "insert ?p (P \<union> ?S) = P \<union> first_pages s (Suc i)" unfolding S(1) by blast
  moreover have "if q \<in> first_pages s (Suc i) then \<exists>f. view m' root q = Some (f, fl) else view m' root q = view (tables st0) root q" for q
    using m(1) [of q] unfolding S(1) v'(1) by auto
  moreover have "insert ?f ?F \<subseteq> ?A" "T \<union> T' \<subseteq> ?A" "insert ?f ?F \<inter> (T \<union> T') = {}" "free_frames fa2 = ?A - insert ?f ?F - (T \<union> T')"
    using m(6-9) f(2) T'' free1 free2 by auto
  moreover have "card (T \<union> T') \<le> 3 * Suc i" using card_Un_le [of T T'] m(10) T'(2) by simp
  moreover have "card (insert ?f ?F) \<le> Suc i" using card_insert_le_m1 [of "Suc i" ?F ?f] m(11) by simp
  ultimately show ?thesis
    using m(2,5) v'(2) fa2 F' unfolding mapped_so_far_def Let_def by simp
qed

lemma rollback_runs:
  fixes mp :: "'m mapper"
  assumes mp: "mapper_ok mp view" and M: "mapped_so_far view (root_of space) fl P s st0 i T st" and i: "unat w = i"
    and s: "user_page_ok s" "page_nat s + 4096 * i \<le> 0x700000000000"
    and v0: "\<forall>p\<in>first_pages s i. view (tables st0) (root_of space) p = None" and dis: "P \<inter> first_pages s i = {}"
    and room: "tracked_count fa + 2 * i \<le> MAX_TRACKED_RANGES"
    and fa: "fa_canon fa" "free_frames fa = free_frames (allocator st)"
      "fa_frames fa State_Used um_owner = fa_frames (allocator st) State_Used um_owner"
  shows "runs (unmap_prefix mp space (st\<lparr>allocator := fa, bytes := mem\<rparr>) s w) (\<lambda>st'. bytes st' = mem
     \<and> view (tables st') (root_of space) = view (tables st0) (root_of space)
     \<and> (\<forall>other. other \<noteq> root_of space \<longrightarrow> view (tables st') other = view (tables st0) other)
     \<and> fa_canon (allocator st') \<and> free_frames (allocator st') = free_frames (allocator st0) - T
     \<and> backed_on (view (tables st') (root_of space)) (allocator st') um_owner P)"
proof -
  let ?root = "root_of space" and ?S = "first_pages s i" and ?st = "st\<lparr>allocator := fa, bytes := mem\<rparr>"
  let ?v = "view (tables st) ?root"
  let ?F = "frames_on ?v ?S" and ?A = "free_frames (allocator st0)"
  have m: "\<And>q. if q \<in> ?S then \<exists>f. ?v q = Some (f, fl) else ?v q = view (tables st0) ?root q"
    "\<forall>other. other \<noteq> ?root \<longrightarrow> view (tables st) other = view (tables st0) other"
    "backed_on ?v (allocator st) um_owner (P \<union> ?S)"
    "?F \<subseteq> ?A" "T \<subseteq> ?A" "?F \<inter> T = {}" "free_frames (allocator st) = ?A - ?F - T"
    using M unfolding mapped_so_far_def Let_def by blast+
  have b: "backed_on ?v fa um_owner (P \<union> ?S)" using m(3) unfolding backed_on_def fa(3) .
  have "runs (unmap_pages_from mp space s ?st i 0) (\<lambda>st'. unmapped view ?root ?S (P \<union> ?S) ?st st'
     \<and> tracked_count (allocator st') \<le> tracked_count (allocator ?st) + 2 * i)"
    using unmap_pages_from_runs [where i = 0 and n = i, OF mp s(1), of ?st space "P \<union> ?S"] s(2) b room fa(1) by simp
  then show ?thesis
    unfolding unmap_prefix_def i
  proof (rule runs_conseq, elim conjE)
    fix st' assume "unmapped view ?root ?S (P \<union> ?S) ?st st'"
    then have u: "bytes st' = bytes ?st" "view (tables st') ?root = (\<lambda>q. if q \<in> ?S then None else view (tables ?st) ?root q)"
      "\<forall>other. other \<noteq> ?root \<longrightarrow> view (tables st') other = view (tables ?st) other" "fa_canon (allocator st')"
      "moved (frames_on (view (tables ?st) ?root) ?S) (State_Used, um_owner) (State_Free, Owner_Free) (allocator ?st) (allocator st')"
      "backed_on (view (tables st') ?root) (allocator st') um_owner (P \<union> ?S - ?S)"
      unfolding unmapped_def by blast+
    have "P \<union> ?S - ?S = P" using dis by blast
    moreover have "view (tables st') ?root = view (tables st0) ?root"
    proof
      fix q show "view (tables st') ?root q = view (tables st0) ?root q"
        using u(2) m(1) [of q] v0 by (cases "q \<in> ?S") auto
    qed
    moreover have "free_frames (allocator st') = ?A - T"
      using moved_taken(2) [OF u(5)] fa(2) m(4-7) by auto
    ultimately show "bytes st' = mem \<and> view (tables st') ?root = view (tables st0) ?root
       \<and> (\<forall>other. other \<noteq> ?root \<longrightarrow> view (tables st') other = view (tables st0) other)
       \<and> fa_canon (allocator st') \<and> free_frames (allocator st') = ?A - T
       \<and> backed_on (view (tables st') ?root) (allocator st') um_owner P"
      using u m(2) by simp
  qed
qed

lemma free_unmapped_page_runs:
  assumes "fa_canon fa" "table_room fa" "frame_address_ok (PhysicalFrameStart_as_u64 f)"
    "unat (PhysicalFrameStart_as_u64 f) div 4096 \<in> fa_frames fa State_Used um_owner"
  shows "runs (free_unmapped_page fa f) (\<lambda>fa'. fa_canon fa' \<and> tracked_count fa' \<le> tracked_count fa + 2
     \<and> moved {unat (PhysicalFrameStart_as_u64 f) div 4096} (State_Used, um_owner) (State_Free, Owner_Free) fa fa')"
proof -
  let ?rng = "\<lparr>pfr_start = f, pfr_frame_count = FrameCount 1\<rparr>"
  have new: "PhysicalFrameRange_new f (FrameCount 1) = Some ?rng"
    using assms(3) by (simp add: PhysicalFrameRange_new_def FrameCount_byte_len_def checked_add_def frame_address_ok_def)
  have ok: "frame_range_ok ?rng" "range_frames ?rng = {unat (PhysicalFrameStart_as_u64 f) div 4096}"
    using assms(3) by (simp_all add: frame_range_ok_def frame_start_ok_def frame_count_ok_def range_frames_def frame_address_ok_def)
  have "runs (free_frames_for fa ?rng um_owner) (\<lambda>(fa', b). b \<and> fa_canon fa' \<and> tracked_count fa' \<le> tracked_count fa + 2
      \<and> moved {unat (PhysicalFrameStart_as_u64 f) div 4096} (State_Used, um_owner) (State_Free, Owner_Free) fa fa')"
    by (rule runs_conseq [OF free_runs [OF fa_canon_inv [OF assms(1)] ok(1) _ assms(2)]]) (use assms ok(2) in auto)
  then show ?thesis unfolding free_unmapped_page_def single_frame by (auto simp: new elim!: runs_conseq)
qed

text \<open>The outcome of the page loop: all pages mapped, or everything but the table frames undone.\<close>

definition pages_outcome ::
    "'m page_view \<Rightarrow> u64 \<Rightarrow> PageTableFlags \<Rightarrow> u64 set \<Rightarrow> 'c initializer \<Rightarrow> UserPageStart \<Rightarrow> nat \<Rightarrow> 'm memory
       \<Rightarrow> 'm memory \<Rightarrow> (UserMappingError + unit) \<Rightarrow> bool" where
  "pages_outcome view root fl P init s n st0 st' r \<longleftrightarrow> (\<exists>T. T \<subseteq> free_frames (allocator st0) \<and> card T \<le> 3 * n \<and>
     (case r of
        Inr _ \<Rightarrow> mapped_so_far view root fl P s st0 n T st'
      | Inl e \<Rightarrow> (\<exists>c k xs. snd (init c k xs) = Inl e)
          \<and> (\<forall>other. view (tables st') other = view (tables st0) other)
          \<and> fa_canon (allocator st') \<and> free_frames (allocator st') = free_frames (allocator st0) - T
          \<and> backed_on (view (tables st') root) (allocator st') um_owner P))"

lemma page_initialize_length_Some:
  assumes "unat w < 2 ^ 52"
  shows "\<exists>l. page_initialize_length len w = Some l"
  using assms by (auto simp: page_initialize_length_def usize_try_from_def checked_mul_def unat_word_ariths)

lemma map_pages_loop_runs:
  fixes mp :: "'m mapper"
  assumes mp: "mapper_ok mp view" and s: "in_region s n"
    and v0: "\<forall>p\<in>first_pages s (unat (PageCount_as_u64 n)). view (tables st0) (root_of space) p = None"
    and dis: "P \<inter> first_pages s (unat (PageCount_as_u64 n)) = {}"
    and res: "4 * unat (PageCount_as_u64 n) \<le> card (free_frames (allocator st0))"
      "tracked_count (allocator st0) + 6 * unat (PageCount_as_u64 n) + 3 \<le> MAX_TRACKED_RANGES"
    and "mapped_so_far view (root_of space) fl P s st0 (unat w) T st" "unat w \<le> unat (PageCount_as_u64 n)"
  shows "runs (map_pages_loop mp space init s len (PageCount_as_u64 n) fl c st w) (\<lambda>((c', st'), r).
     pages_outcome view (root_of space) fl P init s (unat (PageCount_as_u64 n)) st0 st' r)"
  using assms(7-)
proof (induction "unat (PageCount_as_u64 n) - unat w" arbitrary: w c T st rule: less_induct)
  case less
  let ?root = "root_of space" and ?n = "unat (PageCount_as_u64 n)"
  let ?A = "free_frames (allocator st0)"
  have st: "fa_canon (allocator st)" "tracked_count (allocator st) \<le> tracked_count (allocator st0) + 4 * unat w"
    "T \<subseteq> ?A" "card T \<le> 3 * unat w"
    "\<And>q. if q \<in> first_pages s (unat w) then \<exists>f. view (tables st) ?root q = Some (f, fl) else view (tables st) ?root q = view (tables st0) ?root q"
    using less.prems(1) unfolding mapped_so_far_def Let_def by blast+
  have sub: "first_pages s (unat w) \<subseteq> first_pages s ?n"
    using less.prems(2) by (auto simp: pages_between_def intro: page_in_mono)
  show ?case
  proof (cases "unat w < ?n")
    case False
    then have "unat w = ?n" using less.prems(2) by simp
    then show ?thesis
      using less.prems(1) st(3,4) False by (subst map_pages_loop.simps) (auto simp: word_less_nat_alt pages_outcome_def)
  next
    case True
    have sok: "user_page_ok s" "page_nat s + 4096 * ?n \<le> 0x700000000000" "?n < 2 ^ 52"
      using s by (simp_all add: in_region_def page_count_ok_def)
    obtain p where p: "user_page_start s w = Some p" "user_page_ok p" "page_nat p = page_nat s + 4096 * unat w"
      using user_page_start_Some [OF sok(1), of w] sok(2) True by auto
    obtain l where l: "page_initialize_length len w = Some l" using page_initialize_length_Some [of w len] True sok(3) by auto
    have w1: "unat (saturating_add w 1) = Suc (unat w)" using True sok(3) by (simp add: unat_saturating_add)
    have pin: "UserPageStart_as_u64 p \<in> first_pages s ?n"
      using p(2,3) True by (simp add: pages_between_def page_in_def user_page_ok_unat)
    have here: "view (tables st) ?root (UserPageStart_as_u64 p) = None"
      using st(5) [of "UserPageStart_as_u64 p"] first_pages_Suc(2) [OF p(2,3)] v0 pin by simp
    have pP: "UserPageStart_as_u64 p \<notin> P" using dis pin by blast
    have card: "card ?A \<le> card (free_frames (allocator st)) + 4 * unat w" by (rule mapped_free_card [OF less.prems(1)])
    then have c4: "4 \<le> card (free_frames (allocator st))" using res(1) True by simp
    have ne: "free_frames (allocator st) \<noteq> {}" using c4 by auto
    have room: "tracked_count (allocator st) < MAX_TRACKED_RANGES" using st(2) res(2) True by simp
    have next_ok: "runs (map_user_page mp space (tables st) fa p f fl) (\<lambda>(m, fa).
        runs (map_pages_loop mp space init s len (PageCount_as_u64 n) fl c'
            (st\<lparr>tables := m, allocator := fa, bytes := mem\<rparr>) (saturating_add w 1))
          (\<lambda>((c', st'), r). pages_outcome view ?root fl P init s ?n st0 st' r))"
      if fa: "fa_canon fa" "tracked_count fa \<le> Suc (tracked_count (allocator st))"
        and f: "frame_address_ok (PhysicalFrameStart_as_u64 f)"
          "unat (PhysicalFrameStart_as_u64 f) div 4096 \<in> free_frames (allocator st)"
          "moved {unat (PhysicalFrameStart_as_u64 f) div 4096} (State_Free, Owner_Free) (State_Used, um_owner) (allocator st) fa"
      for fa f c' mem
    proof -
      have "card (free_frames fa) = card (free_frames (allocator st)) - 1" using moved_taken(1) [OF f(3)] f(2) by simp
      then have tc: "tracked_count fa + 3 \<le> MAX_TRACKED_RANGES" "3 \<le> card (free_frames fa)"
        using fa(2) st(2) res(2) True c4 by simp_all
      show ?thesis
      proof (rule runs_conseq [OF map_user_page_runs [OF mp fa(1) tc p(2) here]], clarify)
        fix m' fa' T'
        assume T': "card T' \<le> 3" "tables_taken T' fa fa'"
          and v: "view m' ?root = (view (tables st) ?root)(UserPageStart_as_u64 p \<mapsto> (PhysicalFrameStart_as_u64 f, fl))"
            "\<forall>other. other \<noteq> ?root \<longrightarrow> view m' other = view (tables st) other"
          and fa': "fa_canon fa'" "tracked_count fa' \<le> tracked_count fa + 3"
        have "tracked_count fa' \<le> tracked_count (allocator st) + 4" using fa'(2) fa(2) by simp
        from mapped_step [OF less.prems(1) p(2,3) pP f(1-3) T'(2,1) fa'(1) this v]
        have "mapped_so_far view ?root fl P s st0 (unat (saturating_add w 1)) (T \<union> T') (st\<lparr>tables := m', allocator := fa', bytes := mem\<rparr>)"
          unfolding w1 .
        then show "runs (map_pages_loop mp space init s len (PageCount_as_u64 n) fl c'
            (st\<lparr>tables := m', allocator := fa', bytes := mem\<rparr>) (saturating_add w 1))
          (\<lambda>((c', st'), r). pages_outcome view ?root fl P init s ?n st0 st' r)"
          using True w1 by (intro less.hyps) auto
      qed
    qed
    have undo: "runs (bind_run (free_unmapped_page fa f) (\<lambda>fa.
          bind_run (unmap_prefix mp space (st\<lparr>allocator := fa, bytes := mem\<rparr>) s w) (\<lambda>st. Done ((c', st), Inl e))))
        (\<lambda>((c', st'), r). pages_outcome view ?root fl P init s ?n st0 st' r)"
      if fa: "fa_canon fa" "tracked_count fa \<le> Suc (tracked_count (allocator st))"
        and f: "frame_address_ok (PhysicalFrameStart_as_u64 f)"
          "unat (PhysicalFrameStart_as_u64 f) div 4096 \<in> free_frames (allocator st)"
          "moved {unat (PhysicalFrameStart_as_u64 f) div 4096} (State_Free, Owner_Free) (State_Used, um_owner) (allocator st) fa"
        and e: "snd (init c0 k xs) = Inl e"
      for fa f c' mem c0 k xs and e
    proof -
      let ?f = "unat (PhysicalFrameStart_as_u64 f) div 4096"
      have room: "table_room fa" "?f \<in> fa_frames fa State_Used um_owner"
        using fa(2) st(2) res(2) True f(3) by (simp_all add: moved_def)
      have new: "?f \<notin> fa_frames (allocator st) State_Used um_owner"
        using free_used_disjoint [OF fa_canon_inv [OF st(1)]] f(2) by blast
      show ?thesis
        unfolding runs_bind
      proof (rule runs_conseq [OF free_unmapped_page_runs [OF fa(1) room(1) f(1) room(2)]], elim conjE)
        fix fa2 assume fa2: "fa_canon fa2" "tracked_count fa2 \<le> tracked_count fa + 2"
          and mv: "moved {?f} (State_Used, um_owner) (State_Free, Owner_Free) fa fa2"
        have same: "free_frames fa2 = free_frames (allocator st)"
          "fa_frames fa2 State_Used um_owner = fa_frames (allocator st) State_Used um_owner"
          using mv f(2,3) new by (auto simp: moved_def)
        have le: "page_nat s + 4096 * unat w \<le> 0x700000000000" "tracked_count fa2 + 2 * unat w \<le> MAX_TRACKED_RANGES"
          using sok(2) True fa2(2) fa(2) st(2) res(2) by simp_all
        have v0': "\<forall>q\<in>first_pages s (unat w). view (tables st0) ?root q = None" "P \<inter> first_pages s (unat w) = {}"
          using v0 dis sub by blast+
        show "runs (unmap_prefix mp space (st\<lparr>allocator := fa2, bytes := mem\<rparr>) s w) (\<lambda>st. runs (Done ((c', st), Inl e))
            (\<lambda>((c', st'), r). pages_outcome view ?root fl P init s ?n st0 st' r))"
        proof (rule runs_conseq [OF rollback_runs [OF mp less.prems(1) refl sok(1) le(1) v0' le(2) fa2(1) same]], elim conjE)
          fix st' :: "'m memory" assume v': "view (tables st') ?root = view (tables st0) ?root"
            "\<forall>other. other \<noteq> ?root \<longrightarrow> view (tables st') other = view (tables st0) other"
            and "fa_canon (allocator st')" "free_frames (allocator st') = ?A - T"
            "backed_on (view (tables st') ?root) (allocator st') um_owner P"
          moreover have "\<forall>other. view (tables st') other = view (tables st0) other" using v' by metis
          moreover have "card T \<le> 3 * ?n" using st(4) True by simp
          moreover have "\<exists>c k xs. snd (init c k xs) = Inl e" using e by blast
          ultimately show "runs (Done ((c', st'), Inl e)) (\<lambda>((c', st'), r). pages_outcome view ?root fl P init s ?n st0 st' r)"
            using st(3) unfolding pages_outcome_def by (auto intro!: exI [of _ T])
        qed
      qed
    qed
    show ?thesis
    proof (subst map_pages_loop.simps, simp only: word_less_nat_alt True if_True p(1) option.case runs_bind,
        rule runs_conseq [OF allocate_frame_runs [OF st(1) room, of um_owner]])
      fix x assume x: "case x of (fa', r) \<Rightarrow> fa_canon fa' \<and> tracked_count fa' \<le> Suc (tracked_count (allocator st)) \<and>
         (case r of None \<Rightarrow> fa' = allocator st \<and> free_frames (allocator st) = {}
          | Some f \<Rightarrow> frame_address_ok (PhysicalFrameStart_as_u64 f)
              \<and> unat (PhysicalFrameStart_as_u64 f) div 4096 \<in> free_frames (allocator st)
              \<and> moved {unat (PhysicalFrameStart_as_u64 f) div 4096} (State_Free, Owner_Free) (State_Used, um_owner) (allocator st) fa')"
      obtain fa f where xx: "x = (fa, Some f)" using x ne by (cases x) (auto split: option.splits)
      let ?u = "PhysicalFrameStart_as_u64 f"
      let ?mem = "zero_frame ?u (bytes st)"
      have fa: "fa_canon fa" "tracked_count fa \<le> Suc (tracked_count (allocator st))" "frame_address_ok ?u"
          "unat ?u div 4096 \<in> free_frames (allocator st)"
          "moved {unat ?u div 4096} (State_Free, Owner_Free) (State_Used, um_owner) (allocator st) fa"
        using x xx by auto
      obtain c' mem r where init: "initialize_frame init c w ?u l ?mem = ((c', mem), r)" by (metis prod.exhaust)
      show "runs (case x of (fa, r) \<Rightarrow> case r of
                   None \<Rightarrow> bind_run (unmap_prefix mp space (st\<lparr>allocator := fa\<rparr>) s w) (\<lambda>st. Done ((c, st), Inl OutOfMemory))
                 | Some physical_address \<Rightarrow>
                     bind_run (PhysicalFrameStart_as_usize physical_address) (\<lambda>page_pointer.
                       let mem = zero_frame page_pointer (bytes st) in
                       case page_initialize_length len w of
                         None \<Rightarrow> Done ((c, st\<lparr>allocator := fa, bytes := mem\<rparr>), Inl InvalidRequest)
                       | Some page_length \<Rightarrow>
                           (case initialize_frame init c w page_pointer page_length mem of
                              ((c, mem), Inl error) \<Rightarrow>
                                bind_run (free_unmapped_page fa physical_address) (\<lambda>fa.
                                bind_run (unmap_prefix mp space (st\<lparr>allocator := fa, bytes := mem\<rparr>) s w) (\<lambda>st.
                                  Done ((c, st), Inl error)))
                            | ((c, mem), Inr _) \<Rightarrow>
                                bind_run (map_user_page mp space (tables st) fa p physical_address fl) (\<lambda>(m, fa).
                                  map_pages_loop mp space init s len (PageCount_as_u64 n) fl c
                                    (st\<lparr>tables := m, allocator := fa, bytes := mem\<rparr>) (saturating_add w 1)))))
          (\<lambda>((c', st'), r). pages_outcome view ?root fl P init s ?n st0 st' r)"
      proof (cases r)
        case (Inl e)
        have "\<exists>xs. snd (init c w xs) = Inl e"
          using init Inl by (auto simp: initialize_frame_def split: if_splits prod.splits) (metis snd_conv)
        then obtain xs where "snd (init c w xs) = Inl e" by blast
        from undo [OF fa this, of mem c'] show ?thesis
          using xx init Inl l by (simp add: frame_usize Let_def)
      next
        case (Inr u)
        from next_ok [OF fa, of c' mem] show ?thesis
          using xx init Inr l by (auto simp: frame_usize Let_def elim!: runs_conseq)
      qed
    qed simp
  qed
qed

end
