(* ===== verification/User_Mapping_Install.thy ===== *)
theory User_Mapping_Install
  imports User_Mapping_Pages
begin

text \<open>
  \<open>mmap\<close>: entering a new record after its pages were mapped, and the whole request.
\<close>

lemma free_at_pages:
  assumes "free_at self n s"
  shows "table_pages (records self) \<inter> first_pages s (unat (PageCount_as_u64 n)) = {}"
  using assms by (force simp: free_at_def table_pages_def pages_between_def page_in_def)

lemma enter_record:
  fixes src :: UserMappingSource
  assumes ok: "mappings_ok self" and i: "i < length (records self)" "records self ! i = None"
    and free: "free_at self n s"
  defines "rs' \<equiv> (records self)[i := Some \<lparr>um_start = s, um_page_count = n, um_source = src\<rparr>]"
  shows "mappings_ok (self\<lparr>records := rs'\<rparr>)"
    and "source_pages rs' sr = source_pages (records self) sr \<union> (if sr = src then first_pages s (unat (PageCount_as_u64 n)) else {})"
proof -
  let ?rs = "records self" and ?new = "\<lparr>um_start = s, um_page_count = n, um_source = src\<rparr>"
  have reg: "in_region s n" and far: "\<And>r. Some r \<in> set ?rs \<Longrightarrow> apart r ?new \<and> apart ?new r"
    using free by (auto simp: free_at_def apart_def)
  have nth: "rs' ! k = (if k = i then Some ?new else ?rs ! k)" if "k < length ?rs" for k
    using that i(1) by (simp add: rs'_def nth_list_update)
  have set': "Some q \<in> set rs' \<longleftrightarrow> q = ?new \<or> Some q \<in> set ?rs" for q
  proof -
    have len: "length rs' = length ?rs" by (simp add: rs'_def)
    have "Some q \<in> set ?rs \<Longrightarrow> Some q \<in> set rs'"
      using nth i by (metis in_set_conv_nth len option.distinct(1))
    moreover have "Some q \<in> set rs' \<Longrightarrow> q = ?new \<or> Some q \<in> set ?rs"
      using nth by (metis in_set_conv_nth len option.inject)
    moreover have "Some ?new \<in> set rs'" using nth i(1) len by (metis nth_mem)
    ultimately show ?thesis by blast
  qed
  have ap: "apart a b" if k: "k < length ?rs" "l < length ?rs" "k \<noteq> l" "rs' ! k = Some a" "rs' ! l = Some b" for k l a b
  proof (cases "k = i"; cases "l = i")
    assume "k = i" "l \<noteq> i"
    then have "a = ?new" "Some b \<in> set ?rs" using k nth nth_mem by (metis option.inject, metis)
    then show ?thesis using far by blast
  next
    assume "k \<noteq> i" "l = i"
    then have "b = ?new" "Some a \<in> set ?rs" using k nth nth_mem by (metis option.inject, metis)
    then show ?thesis using far by blast
  next
    assume "k \<noteq> i" "l \<noteq> i"
    then show ?thesis using k nth mappings_ok_apart [OF ok k(1,2,3)] by metis
  qed (use k(3) in simp)
  have "\<forall>r. Some r \<in> set rs' \<longrightarrow> mapping_ok r" using ok reg set' by (auto simp: mappings_ok_def)
  then show "mappings_ok (self\<lparr>records := rs'\<rparr>)"
    using ok ap unfolding mappings_ok_def by (simp add: rs'_def)
  show "source_pages rs' sr = source_pages ?rs sr \<union> (if sr = src then first_pages s (unat (PageCount_as_u64 n)) else {})"
  proof -
    have "{r. Some r \<in> set rs' \<and> um_source r = sr}
        = {r. Some r \<in> set ?rs \<and> um_source r = sr} \<union> (if sr = src then {?new} else {})"
      unfolding set' by auto
    then show ?thesis unfolding source_pages_def by (simp add: Un_commute)
  qed
qed

text \<open>The outcome of entering a mapping of \<open>n\<close> pages at \<open>s\<close>: all of it, or nothing but table frames.\<close>

definition install_outcome ::
    "'m page_view \<Rightarrow> UserAddressSpace \<Rightarrow> UserMappings \<Rightarrow> 'm memory \<Rightarrow> UserMappingPlan \<Rightarrow> UserPageStart \<Rightarrow> u64
       \<Rightarrow> UserMappings \<Rightarrow> 'm memory \<Rightarrow> (UserMappingError + UserMappingAllocation) \<Rightarrow> bool" where
  "install_outcome view space self st plan s replaced self' st' r \<longleftrightarrow>
     (let n = uml_page_count (ump_length plan); S = first_pages s (unat (PageCount_as_u64 n)) in
      maps_inv view space self' st' \<and>
      (case r of
         Inr a \<Rightarrow> a = \<lparr>uma_start = UserPageStart_as_address s, uma_page_count = n, uma_replaced_page_count = replaced\<rparr>
           \<and> (\<forall>src. source_pages (records self') src = source_pages (records self) src \<union> (if src = ump_source plan then S else {}))
           \<and> (\<forall>p. if p \<in> S then \<exists>f. view (tables st') (root_of space) p = Some (f, user_page_flags (ump_writable plan))
                 else view (tables st') (root_of space) p = view (tables st) (root_of space) p)
       | Inl e \<Rightarrow> self' = self \<and> (\<forall>root. view (tables st') root = view (tables st) root)
           \<and> (\<exists>T \<subseteq> free_frames (allocator st). card T \<le> 3 * unat (PageCount_as_u64 n)
                \<and> free_frames (allocator st') = free_frames (allocator st) - T)))"

lemma install_runs:
  fixes mp :: "'m mapper"
  assumes mp: "mapper_ok mp view" and inv: "maps_inv view space self st" and free: "free_at self n s"
    and plan: "uml_page_count (ump_length plan) = n" and b: "range_at b s n"
    and res: "4 * unat (PageCount_as_u64 n) \<le> card (free_frames (allocator st))"
      "tracked_count (allocator st) + 6 * unat (PageCount_as_u64 n) + 3 \<le> MAX_TRACKED_RANGES"
  shows "runs (install_mapping mp space init c self st plan b replaced) (\<lambda>((c', self', st'), r).
     install_outcome view space self st plan s replaced self' st' r
     \<and> (next_empty_record_index self \<noteq> None \<longrightarrow> (\<forall>e. r = Inl e \<longrightarrow> (\<exists>c k xs. snd (init c k xs) = Inl e))))"
proof (cases "next_empty_record_index self")
  case None
  then show ?thesis
    using inv by (auto simp: install_mapping_def install_outcome_def Let_def intro!: exI [of _ "{}"])
next
  case (Some i)
  let ?root = "root_of space" and ?n = "unat (PageCount_as_u64 n)" and ?fl = "user_page_flags (ump_writable plan)"
  let ?S = "first_pages s ?n" and ?P = "table_pages (records self)" and ?v = "view (tables st) (root_of space)"
  have i: "i < length (records self)" "records self ! i = None" using next_empty(2) [OF Some] by simp_all
  have ok: "mappings_ok self" "fa_canon (allocator st)" "backed_on ?v (allocator st) um_owner ?P"
    and none: "\<And>p. p \<in> pages_between 0x600000000000 0x700000000000 \<Longrightarrow> p \<notin> ?P \<Longrightarrow> ?v p = None"
    using inv by (auto simp: maps_inv_def)
  have reg: "in_region s n" using free by (simp add: free_at_def)
  then have Sreg: "?S \<subseteq> pages_between 0x600000000000 0x700000000000"
    by (auto simp: in_region_def pages_between_def intro: page_in_mono)
  have dis: "?P \<inter> ?S = {}" by (rule free_at_pages [OF free])
  have v0: "\<forall>p\<in>?S. ?v p = None" using none Sreg dis by blast
  have start: "mapped_so_far view ?root ?fl ?P s st (unat (0 :: u64)) {} st"
    using mapped_start [where view = view, OF ok(2,3)] by simp
  have pages: "runs (map_pages mp space init c st s (uml_byte_len (ump_length plan)) n (ump_writable plan)) (\<lambda>((c', st'), r).
      pages_outcome view ?root ?fl ?P init s ?n st st' r)"
    unfolding map_pages_def by (rule map_pages_loop_runs [OF mp reg v0 dis res start]) simp
  let ?new = "\<lparr>um_start = s, um_page_count = n, um_source = ump_source plan\<rparr>"
  let ?self = "self\<lparr>records := (records self)[i := Some ?new]\<rparr>"
  note enter = enter_record [OF ok(1) i free, where src = "ump_source plan"]
  have pg: "table_pages ((records self)[i := Some ?new]) = ?P \<union> ?S"
    unfolding table_pages_sources enter(2) by (auto split: if_splits)
  have next_ok: "mappings_ok (if ump_placement plan = Placement_Any then ?self\<lparr>next_start := umr_end_exclusive b\<rparr> else ?self)"
    using enter(1) b reg by (simp add: mappings_ok_def range_at_def in_region_def)
  have fin: "install_outcome view space self st plan s replaced
      (if ump_placement plan = Placement_Any then ?self\<lparr>next_start := umr_end_exclusive b\<rparr> else ?self) st'
      (Inr \<lparr>uma_start = UserPageStart_as_address s, uma_page_count = n, uma_replaced_page_count = replaced\<rparr>)"
    if M: "mapped_so_far view ?root ?fl ?P s st ?n T st'" for T st'
  proof -
    have m: "\<And>p. if p \<in> ?S then \<exists>f. view (tables st') ?root p = Some (f, ?fl) else view (tables st') ?root p = ?v p"
      "backed_on (view (tables st') ?root) (allocator st') um_owner (?P \<union> ?S)" "fa_canon (allocator st')"
      using M unfolding mapped_so_far_def Let_def by blast+
    have out: "view (tables st') ?root p = None" if "p \<in> pages_between 0x600000000000 0x700000000000 - (?P \<union> ?S)" for p
      using m(1) [of p] none that by auto
    show ?thesis
      using next_ok m out plan unfolding install_outcome_def maps_inv_def Let_def by (simp add: pg enter(2))
  qed
  have undone: "install_outcome view space self st plan s replaced self st' (Inl e) \<and> (\<exists>c k xs. snd (init c k xs) = Inl e)"
    if "pages_outcome view ?root ?fl ?P init s ?n st st' (Inl e)" for st' e
  proof -
    from that obtain T where T: "T \<subseteq> free_frames (allocator st)" "card T \<le> 3 * ?n" "\<exists>c k xs. snd (init c k xs) = Inl e"
      "\<forall>other. view (tables st') other = view (tables st) other" "fa_canon (allocator st')"
      "free_frames (allocator st') = free_frames (allocator st) - T" "backed_on (view (tables st') ?root) (allocator st') um_owner ?P"
      unfolding pages_outcome_def sum.case by blast
    then have "maps_inv view space self st'" using ok(1) none by (simp add: maps_inv_def)
    with T plan show ?thesis by (auto simp: install_outcome_def Let_def)
  qed
  have b': "umr_start b = s" "umr_page_count b = n" using b by (simp_all add: range_at_def)
  show ?thesis
    unfolding install_mapping_def Let_def Some option.case plan b' runs_bind
  proof (rule runs_conseq [OF pages], goal_cases)
    case (1 x)
    then obtain c' st' r where x: "x = ((c', st'), r)" "pages_outcome view ?root ?fl ?P init s ?n st st' r" by (cases x) auto
    show ?case
    proof (cases r)
      case (Inl e)
      then show ?thesis using x undone by simp
    next
      case (Inr u)
      then obtain T where "mapped_so_far view ?root ?fl ?P s st ?n T st'" using x(2) by (auto simp: pages_outcome_def)
      from fin [OF this] show ?thesis using x(1) Inr i(1) b' by (simp add: set_record_def)
    qed
  qed
qed

end
