(* ===== verification/User_Mapping_Replace.thy ===== *)
theory User_Mapping_Replace
  imports User_Mapping_Install
begin

text \<open>
  Replacement of overlapping mappings: the preflight count, the loop over the records, and the
  whole \<open>mmap\<close> request for every placement.
\<close>

section \<open>The preflight\<close>

definition overlapped :: "nat \<Rightarrow> nat \<Rightarrow> UserMapping \<Rightarrow> bool" where
  "overlapped lo hi r \<longleftrightarrow> lo < um_hi r \<and> um_lo r < hi"

fun kept :: "nat \<Rightarrow> nat \<Rightarrow> UserMapping option \<Rightarrow> nat" where
  "kept lo hi None = 0"
| "kept lo hi (Some r) = (if overlapped lo hi r
     then (if um_lo r < lo then 1 else 0) + (if hi < um_hi r then 1 else 0) else 1)"

definition pieces_after :: "nat \<Rightarrow> nat \<Rightarrow> UserMapping option list \<Rightarrow> nat" where
  "pieces_after lo hi rs = sum_list (map (kept lo hi) rs)"

lemma capacity_loop:
  assumes b: "range_at b s n" and "\<And>r. Some r \<in> set rs \<Longrightarrow> mapping_ok r" "record_count rs \<le> c"
  shows "replace_capacity_loop b c rs
     = Done (Inr (c - record_count rs + pieces_after (page_nat s) (page_nat s + 4096 * unat (PageCount_as_u64 n)) rs))"
  using assms(2-)
proof (induction rs arbitrary: c)
  case Nil
  then show ?case by (simp add: record_count_def pieces_after_def)
next
  case (Cons x rs)
  show ?case
  proof (cases x)
    case None
    then show ?thesis using Cons by (simp add: record_count_def pieces_after_def)
  next
    case (Some r)
    let ?hi = "page_nat s + 4096 * unat (PageCount_as_u64 n)"
    have "mapping_ok r" using Cons.prems Some by simp
    then obtain m where m: "UserMapping_range r = Some m" "range_at m (um_start r) (um_page_count r)" by (rule mapping_range)
    have ov: "range_overlaps b m \<longleftrightarrow> overlapped (page_nat s) ?hi r"
      using range_overlaps_nat [OF b m(2)] by (simp add: overlapped_def)
    have lt: "start_address m < start_address b \<longleftrightarrow> um_lo r < page_nat s" "end_address b < end_address m \<longleftrightarrow> ?hi < um_hi r"
      using b m(2) by (simp_all add: range_at_def word_less_nat_alt)
    have c: "Suc (record_count rs) \<le> c" using Cons.prems(2) Some by (simp add: record_count_def)
    have step: "replace_capacity_step b c r = Done (Inr (c - 1 + kept (page_nat s) ?hi (Some r)))"
      using m(1) ov lt c by (simp add: replace_capacity_step_def)
    have "replace_capacity_loop b (c - 1 + kept (page_nat s) ?hi (Some r)) rs
        = Done (Inr (c - 1 + kept (page_nat s) ?hi (Some r) - record_count rs + pieces_after (page_nat s) ?hi rs))"
      using Cons c by (intro Cons.IH) auto
    moreover have "record_count (x # rs) = Suc (record_count rs)" using Some by (simp add: record_count_def)
    ultimately show ?thesis using Some step c by (simp add: pieces_after_def)
  qed
qed

lemma active_records_count:
  assumes "length (records self) = MAX_USER_MAPPINGS"
  shows "unat (active_records self) = record_count (records self)"
proof -
  have "record_count (records self) < 2 ^ 64" using record_count_le [of "records self"] assms by simp
  then show ?thesis by (simp add: active_records_def record_count_def unat_of_nat)
qed

lemma preflight_exact:
  assumes ok: "mappings_ok self" and b: "range_at b s n"
  shows "ensure_replace_record_capacity self b
     = Done (if pieces_after (page_nat s) (page_nat s + 4096 * unat (PageCount_as_u64 n)) (records self) < MAX_USER_MAPPINGS
             then Inr () else Inl OutOfMemory)"
proof -
  have "replace_capacity_loop b (unat (active_records self)) (records self)
      = Done (Inr (pieces_after (page_nat s) (page_nat s + 4096 * unat (PageCount_as_u64 n)) (records self)))"
    using capacity_loop [OF b, of "records self" "unat (active_records self)"] ok active_records_count [of self]
    by (simp add: mappings_ok_def)
  then show ?thesis by (simp add: ensure_replace_record_capacity_def)
qed

section \<open>Counting pieces\<close>

lemma sum_two_changed:
  fixes f g :: "nat \<Rightarrow> nat"
  assumes "i < n" "j < n" "\<And>k. k < n \<Longrightarrow> k \<noteq> i \<Longrightarrow> k \<noteq> j \<Longrightarrow> f k = g k"
  shows "sum f {..<n} + sum g {i, j} = sum g {..<n} + sum f {i, j}"
proof -
  have "sum f ({..<n} - {i, j}) = sum g ({..<n} - {i, j})" using assms(3) by (intro sum.cong) auto
  moreover have "sum h {..<n} = sum h ({..<n} - {i, j}) + sum h {i, j}" for h :: "nat \<Rightarrow> nat"
    using assms(1,2) by (intro sum.subset_diff) auto
  ultimately show ?thesis by simp
qed

lemma pieces_after_sum: "pieces_after lo hi rs = sum (\<lambda>k. kept lo hi (rs ! k)) {..<length rs}"
  by (simp add: pieces_after_def sum_list_sum_nth atLeast0LessThan)

lemma record_count_sum: "record_count rs = sum (\<lambda>k. if rs ! k = None then 0 else 1) {..<length rs}"
proof -
  have "record_count rs = sum_list (map (\<lambda>r. if r = None then 0 else 1) rs)"
    by (induction rs) (auto simp: record_count_def)
  then show ?thesis by (simp add: sum_list_sum_nth atLeast0LessThan)
qed

lemma mapping_nonempty: "mapping_ok r \<Longrightarrow> um_lo r < um_hi r"
  by (auto simp: in_region_def page_count_ok_def unat_gt_0)

lemma carve_pieces:
  assumes c: "carve_result self i r (max (um_lo r) lo) (min (um_hi r) hi) self'" and ov: "overlapped lo hi r"
  shows "pieces_after lo hi (records self') = pieces_after lo hi (records self)"
    and "\<exists>j. length (records self') = length (records self)
          \<and> (\<forall>k<length (records self). k \<noteq> i \<and> k \<noteq> j \<longrightarrow> records self' ! k = records self ! k)
          \<and> (\<forall>k q. (k = i \<or> k = j) \<and> records self' ! k = Some q \<longrightarrow> \<not> overlapped lo hi q)"
proof -
  let ?rs = "records self"
  obtain j rs' where s': "self' = self\<lparr>records := rs'\<rparr>" and cv: "carved ?rs i j r rs'"
    and off: "\<forall>k q. (k = i \<or> k = j) \<and> rs' ! k = Some q \<longrightarrow> um_hi q \<le> max (um_lo r) lo \<or> min (um_hi r) hi \<le> um_lo q"
    and cnt: "record_count rs' + 1 = record_count ?rs + (if um_lo r < max (um_lo r) lo then 1 else 0) + (if min (um_hi r) hi < um_hi r then 1 else 0)"
    using c unfolding carve_result_def by blast
  have ij: "i < length ?rs" "j < length ?rs" "?rs ! i = Some r" "i \<noteq> j \<Longrightarrow> ?rs ! j = None" and len: "length rs' = length ?rs"
    and keep: "\<And>k. k < length ?rs \<Longrightarrow> k \<noteq> i \<Longrightarrow> k \<noteq> j \<Longrightarrow> rs' ! k = ?rs ! k"
    and piece: "\<And>k q. k = i \<or> k = j \<Longrightarrow> rs' ! k = Some q \<Longrightarrow> mapping_ok q \<and> um_lo r \<le> um_lo q \<and> um_hi q \<le> um_hi r"
    using cv unfolding carved_def by blast+
  have no: "\<not> overlapped lo hi q" if "k = i \<or> k = j" "rs' ! k = Some q" for k q
  proof -
    have "um_hi q \<le> max (um_lo r) lo \<or> min (um_hi r) hi \<le> um_lo q" using off that by blast
    then show ?thesis using piece [OF that] mapping_nonempty [of q]
      by (auto simp: overlapped_def max_def min_def simp del: mult_Suc_right split: if_splits)
  qed
  show "\<exists>j. length (records self') = length ?rs
          \<and> (\<forall>k<length ?rs. k \<noteq> i \<and> k \<noteq> j \<longrightarrow> records self' ! k = ?rs ! k)
          \<and> (\<forall>k q. (k = i \<or> k = j) \<and> records self' ! k = Some q \<longrightarrow> \<not> overlapped lo hi q)"
    using s' len keep no by (intro exI [of _ j]) auto
  let ?one = "\<lambda>rs k. if rs ! k = (None :: UserMapping option) then 0 else (1 :: nat)"
  have k': "kept lo hi (rs' ! k) = ?one rs' k" if "k = i \<or> k = j" for k
    using no [OF that] by (cases "rs' ! k") auto
  have "pieces_after lo hi rs' + sum (\<lambda>k. kept lo hi (?rs ! k)) {i, j} = pieces_after lo hi ?rs + sum (\<lambda>k. kept lo hi (rs' ! k)) {i, j}"
    unfolding pieces_after_sum len using ij(1,2) keep by (intro sum_two_changed) simp_all
  moreover have "record_count rs' + sum (?one ?rs) {i, j} = record_count ?rs + sum (?one rs') {i, j}"
    unfolding record_count_sum len using ij(1,2) keep by (intro sum_two_changed) simp_all
  moreover have "sum (\<lambda>k. kept lo hi (rs' ! k)) {i, j} = sum (?one rs') {i, j}" using k' by (intro sum.cong) auto
  moreover have "sum (?one ?rs) {i, j} = 1" using ij(3,4) by (cases "i = j") simp_all
  moreover have "sum (\<lambda>k. kept lo hi (?rs ! k)) {i, j}
      = (if um_lo r < max (um_lo r) lo then 1 else 0) + (if min (um_hi r) hi < um_hi r then 1 else 0)"
    using ij(3,4) ov by (cases "i = j") (auto simp: max_def min_def)
  ultimately show "pieces_after lo hi (records self') = pieces_after lo hi ?rs" using cnt s' by simp
qed

lemma card_pages_between:
  assumes "4096 dvd lo" "lo + 4096 * m \<le> 2 ^ 64"
  shows "card (pages_between lo (lo + 4096 * m)) = m"
proof -
  have u: "unat (of_nat (lo + 4096 * x) :: u64) = lo + 4096 * x" if "x < m" for x
    by (subst unat_of_nat) (use that assms(2) in simp)
  have "pages_between lo (lo + 4096 * m) = (\<lambda>k. of_nat (lo + 4096 * k)) ` {..<m}"
  proof (intro equalityI subsetI)
    fix p :: u64 assume "p \<in> pages_between lo (lo + 4096 * m)"
    then have p: "4096 dvd unat p" "lo \<le> unat p" "unat p < lo + 4096 * m" by (simp_all add: pages_between_def page_in_def)
    then have "4096 dvd unat p - lo" using assms(1) by (simp add: dvd_diff_nat)
    then obtain k where k: "unat p - lo = 4096 * k" by (elim dvdE)
    then have pk: "unat p = lo + 4096 * k" using p(2) by simp
    then have "k < m" using p(3) by simp
    moreover have "p = of_nat (lo + 4096 * k)" unfolding pk [symmetric] by simp
    ultimately show "p \<in> (\<lambda>k. of_nat (lo + 4096 * k)) ` {..<m}" by blast
  next
    fix p :: u64 assume "p \<in> (\<lambda>k. of_nat (lo + 4096 * k)) ` {..<m}"
    then obtain k where k: "k < m" "p = of_nat (lo + 4096 * k)" by blast
    then have "unat p = lo + 4096 * k" using u by blast
    then show "p \<in> pages_between lo (lo + 4096 * m)" using k(1) assms(1) by (simp add: pages_between_def page_in_def)
  qed
  moreover have "inj_on (\<lambda>k. of_nat (lo + 4096 * k) :: u64) {..<m}"
  proof (rule inj_onI)
    fix k l assume kl: "k \<in> {..<m}" "l \<in> {..<m}" "(of_nat (lo + 4096 * k) :: u64) = of_nat (lo + 4096 * l)"
    have "lo + 4096 * k = lo + 4096 * l" using u [of k] u [of l] kl by (metis lessThan_iff)
    then show "k = l" by simp
  qed
  ultimately show ?thesis by (simp add: card_image)
qed

lemma page_from_raw:
  assumes "4096 dvd unat w" "0 < unat w" "unat w < 0x800000000000"
  shows "\<exists>p. user_page_start_from_raw w = Some p \<and> user_page_ok p \<and> page_nat p = unat w"
proof -
  let ?p = "UserPageStart (UserVirtualAddress (VirtAddr w))"
  have "user_page_start_from_raw w = Some ?p"
    using assms by (simp add: user_page_start_from_raw_def UserVirtualAddress_new_def UserPageStart_new_def
        UserVirtualAddress_as_u64_def is_multiple_of_page word_less_nat_alt unat_gt_0)
  then show ?thesis using assms by (simp add: user_page_ok_unat UserPageStart_as_u64_def UserVirtualAddress_as_u64_def)
qed

section \<open>The replacement loop\<close>

text \<open>
  \<open>dropped view space X self st self' st'\<close>: the pages \<open>X\<close> of the table were unmapped, freed and
  taken out of the records.
\<close>

definition dropped :: "'m page_view \<Rightarrow> UserAddressSpace \<Rightarrow> u64 set \<Rightarrow> UserMappings \<Rightarrow> 'm memory \<Rightarrow> UserMappings \<Rightarrow> 'm memory \<Rightarrow> bool" where
  "dropped view space X self st self' st' \<longleftrightarrow> maps_inv view space self' st' \<and> next_start self' = next_start self
     \<and> X \<subseteq> table_pages (records self)
     \<and> (\<forall>src. source_pages (records self') src = source_pages (records self) src - X)
     \<and> (\<forall>p. view (tables st') (root_of space) p = (if p \<in> X then None else view (tables st) (root_of space) p))
     \<and> (\<forall>other. other \<noteq> root_of space \<longrightarrow> view (tables st') other = view (tables st) other)
     \<and> free_frames (allocator st) \<subseteq> free_frames (allocator st')
     \<and> tracked_count (allocator st') \<le> tracked_count (allocator st) + 2 * card X"

lemma dropped_refl: "maps_inv view space self st \<Longrightarrow> dropped view space {} self st self st"
  by (simp add: dropped_def)

lemma finite_pages [simp]: "finite (X :: u64 set)"
  by (rule finite_subset [OF subset_UNIV]) simp

lemma dropped_trans:
  assumes a: "dropped view space X self st self1 st1" and b: "dropped view space Y self1 st1 self2 st2"
  shows "dropped view space (X \<union> Y) self st self2 st2"
proof -
  have t: "table_pages (records self1) = table_pages (records self) - X"
    using a by (intro table_pages_minus) (simp add: dropped_def)
  have "Y \<subseteq> table_pages (records self1)" using b by (simp add: dropped_def)
  then have XY: "X \<inter> Y = {}" "X \<union> Y \<subseteq> table_pages (records self)" using a t by (auto simp: dropped_def)
  have "card (X \<union> Y) = card X + card Y" using XY(1) by (intro card_Un_disjoint) simp_all
  moreover have "tracked_count (allocator st2) \<le> tracked_count (allocator st) + 2 * card X + 2 * card Y"
    using a b unfolding dropped_def by (meson add_le_mono1 order_trans)
  ultimately have tc: "tracked_count (allocator st2) \<le> tracked_count (allocator st) + 2 * card (X \<union> Y)" by simp
  have "source_pages (records self2) src = source_pages (records self) src - (X \<union> Y)" for src
  proof -
    have "source_pages (records self2) src = source_pages (records self) src - X - Y" using a b by (simp add: dropped_def)
    then show ?thesis by blast
  qed
  moreover have "view (tables st2) (root_of space) p = (if p \<in> X \<union> Y then None else view (tables st) (root_of space) p)" for p
    using a b by (simp add: dropped_def)
  moreover have "free_frames (allocator st) \<subseteq> free_frames (allocator st2)" using a b by (auto simp: dropped_def)
  ultimately show ?thesis
    using a b XY(2) tc by (simp add: dropped_def)
qed

text \<open>
  The table after one record was looked at: the record no longer overlaps, and no record
  overlaps that did not before.
\<close>

definition cleared :: "nat \<Rightarrow> nat \<Rightarrow> nat set \<Rightarrow> UserMapping option list \<Rightarrow> UserMapping option list \<Rightarrow> bool" where
  "cleared lo hi K rs rs' \<longleftrightarrow> length rs' = length rs \<and> pieces_after lo hi rs' = pieces_after lo hi rs
     \<and> (\<forall>l q. l < length rs \<and> rs' ! l = Some q \<and> overlapped lo hi q \<longrightarrow> l \<notin> K \<and> rs ! l = Some q)"

lemma split_slot:
  assumes ok: "mappings_ok self" and k: "k < length (records self)" "records self ! k = Some r"
    and p: "pieces_after lo hi (records self) < MAX_USER_MAPPINGS" and strict: "um_lo r < lo" "hi < um_hi r" "lo \<le> hi"
  shows "\<exists>j. next_empty_record_index self = Some j \<and> j < length (records self) \<and> records self ! j = None"
proof -
  let ?rs = "records self"
  have "record_count ?rs \<le> pieces_after lo hi ?rs"
    unfolding record_count_sum pieces_after_sum
  proof (rule sum_mono)
    fix l assume l: "l \<in> {..<length ?rs}"
    show "(if ?rs ! l = None then 0 else 1) \<le> kept lo hi (?rs ! l)"
    proof (cases "?rs ! l")
      case (Some q)
      show ?thesis
      proof (cases "l = k")
        case True
        then show ?thesis using k(2) strict by (simp add: overlapped_def)
      next
        case False
        then have "apart r q" using mappings_ok_apart [OF ok k(1) _ _ k(2) Some] l by auto
        then have "\<not> overlapped lo hi q" using strict by (auto simp: apart_def overlapped_def)
        then show ?thesis using Some by simp
      qed
    qed simp
  qed
  then have "record_count ?rs < MAX_USER_MAPPINGS" using p by simp
  then show ?thesis
    using next_empty [of self] ok by (cases "next_empty_record_index self") (auto simp: mappings_ok_def)
qed

text \<open>The overlap of a record with the requested range, as \<open>replace_record\<close> computes it.\<close>

lemma overlap_pieces:
  assumes rok: "mapping_ok r" and m: "range_at m (um_start r) (um_page_count r)" and b: "range_at b s n" "in_region s n"
    and hi: "hi = page_nat s + 4096 * unat (PageCount_as_u64 n)" and ov: "overlapped (page_nat s) hi r"
  defines "a \<equiv> max (um_lo r) (page_nat s)" and "z \<equiv> min (um_hi r) hi"
  obtains d o_start o_range l h where
    "checked_sub (min (end_address m) (end_address b)) (max (start_address m) (start_address b)) = Some d"
    "a + 4096 * unat (d div PAGE_SIZE) = z"
    "user_page_start_from_raw (max (start_address m) (start_address b)) = Some o_start" "page_nat o_start = a"
    "mapping_page_count (d div PAGE_SIZE) = Done (PageCount (d div PAGE_SIZE))" "in_region o_start (PageCount (d div PAGE_SIZE))"
    "UserMappingRange_new o_start (PageCount (d div PAGE_SIZE)) = Some o_range" "range_at o_range o_start (PageCount (d div PAGE_SIZE))"
    "page_nat (umr_end_exclusive o_range) = z"
    "checked_sub (start_address o_range) (start_address m) = Some l" "um_lo r + 4096 * unat (l div PAGE_SIZE) = a"
    "checked_sub (end_address m) (end_address o_range) = Some h" "z + 4096 * unat (h div PAGE_SIZE) = um_hi r"
proof -
  have al: "4096 dvd um_lo r" "4096 dvd um_hi r" "4096 dvd a" "4096 dvd z"
    using rok b(2) hi by (auto simp: in_region_def user_page_ok_unat max_def min_def a_def z_def)
  have bounds: "0x600000000000 \<le> a" "a < z" "z \<le> 0x700000000000" "um_lo r \<le> a" "z \<le> um_hi r"
    using rok b(2) hi ov mapping_nonempty [OF rok] by (auto simp: in_region_def overlapped_def page_count_ok_def unat_gt_0 a_def z_def)
  have addr: "unat (max (start_address m) (start_address b)) = a" "unat (min (end_address m) (end_address b)) = z"
    using b(1) m hi by (auto simp: range_at_def max_def min_def word_le_nat_alt a_def z_def)
  obtain d where d: "checked_sub (min (end_address m) (end_address b)) (max (start_address m) (start_address b)) = Some d"
    "a + 4096 * unat (d div PAGE_SIZE) = z"
    using range_sub_pages [OF addr(2,1)] bounds(2) al(3,4) by auto
  obtain o_start where os: "user_page_start_from_raw (max (start_address m) (start_address b)) = Some o_start"
    "user_page_ok o_start" "page_nat o_start = a"
    using page_from_raw [of "max (start_address m) (start_address b)"] addr(1) al(3) bounds by auto
  let ?cnt = "PageCount (d div PAGE_SIZE)"
  have "0 < unat (d div PAGE_SIZE)" "unat (d div PAGE_SIZE) < 2 ^ 52" using d(2) bounds by auto
  then have cnt: "page_count_ok ?cnt" by (simp add: page_count_ok_def unat_gt_0)
  then have cnt': "mapping_page_count (d div PAGE_SIZE) = Done ?cnt"
    by (simp add: mapping_page_count_def expect_Done_iff PageCount_new_Some_iff)
  have oreg: "in_region o_start ?cnt" using os cnt bounds d(2) by (simp add: in_region_def)
  then obtain o_range where o: "UserMappingRange_new o_start ?cnt = Some o_range" "range_at o_range o_start ?cnt"
    by (rule range_new_region)
  have oend: "page_nat (umr_end_exclusive o_range) = z" "start_address o_range = max (start_address m) (start_address b)"
    using o(2) os(3) d(2) addr(1) by (simp_all add: range_at_def word_unat_eq_iff)
  obtain l where l: "checked_sub (start_address o_range) (start_address m) = Some l" "um_lo r + 4096 * unat (l div PAGE_SIZE) = a"
    using range_sub_pages [of "start_address o_range" a "start_address m" "um_lo r"] oend(2) addr(1) m bounds(4) al by (auto simp: range_at_def)
  obtain h where h: "checked_sub (end_address m) (end_address o_range) = Some h" "z + 4096 * unat (h div PAGE_SIZE) = um_hi r"
    using range_sub_pages [of "end_address m" "um_hi r" "end_address o_range" z] oend(1) m bounds(5) al by (auto simp: range_at_def)
  show thesis by (rule that [OF d os(1,3) cnt' oreg o oend(1) l h])
qed

lemma replace_record_runs:
  fixes mp :: "'m mapper"
  assumes mp: "mapper_ok mp view" and inv: "maps_inv view space self st" and b: "range_at b s n" "in_region s n"
    and k: "k < length (records self)"
    and hi: "hi = page_nat s + 4096 * unat (PageCount_as_u64 n)"
    and p: "pieces_after (page_nat s) hi (records self) < MAX_USER_MAPPINGS"
    and room: "tracked_count (allocator st) + 2 * card (table_pages (records self) \<inter> pages_between (page_nat s) hi) \<le> MAX_TRACKED_RANGES"
    and cap: "unat rep + card (table_pages (records self) \<inter> pages_between (page_nat s) hi) < 2 ^ 64"
  shows "runs (replace_record mp space b self st k rep) (\<lambda>((self', st'), rep').
     \<exists>X \<subseteq> pages_between (page_nat s) hi. unat rep' = unat rep + card X \<and> dropped view space X self st self' st'
       \<and> cleared (page_nat s) hi {k} (records self) (records self'))"
proof (cases "records self ! k")
  case None
  then have "cleared (page_nat s) hi {k} (records self) (records self)" by (auto simp: cleared_def)
  with None k dropped_refl [OF inv] show ?thesis by (auto simp: replace_record_def)
next
  case (Some r)
  let ?rs = "records self" and ?lo = "page_nat s"
  have ok: "mappings_ok self" using inv by (simp add: maps_inv_def)
  have mem: "Some r \<in> set ?rs" using k Some nth_mem by metis
  then have rok: "mapping_ok r" using ok by (simp add: mappings_ok_def)
  then obtain m where m: "UserMapping_range r = Some m" "range_at m (um_start r) (um_page_count r)" by (rule mapping_range)
  have ov: "range_overlaps b m \<longleftrightarrow> overlapped ?lo hi r"
    using range_overlaps_nat [OF b(1) m(2)] hi by (simp add: overlapped_def)
  show ?thesis
  proof (cases "overlapped ?lo hi r")
    case False
    then have "cleared ?lo hi {k} ?rs ?rs" using Some by (auto simp: cleared_def)
    with False Some k m(1) ov dropped_refl [OF inv] show ?thesis by (auto simp: replace_record_def)
  next
    case True
    let ?a = "max (um_lo r) ?lo" and ?z = "min (um_hi r) hi"
    have bounds: "?a < ?z" "?z \<le> 0x700000000000" "um_lo r \<le> ?a" "?z \<le> um_hi r" "?lo \<le> ?a" "?z \<le> hi" "4096 dvd ?a"
      using rok b(2) hi True mapping_nonempty [OF rok]
      by (auto simp: in_region_def overlapped_def page_count_ok_def unat_gt_0 user_page_ok_unat max_def)
    obtain d o_start o_range l h where d: "checked_sub (min (end_address m) (end_address b)) (max (start_address m) (start_address b)) = Some d"
        "?a + 4096 * unat (d div PAGE_SIZE) = ?z"
      and os: "user_page_start_from_raw (max (start_address m) (start_address b)) = Some o_start" "page_nat o_start = ?a"
      and cnt: "mapping_page_count (d div PAGE_SIZE) = Done (PageCount (d div PAGE_SIZE))" and oreg: "in_region o_start (PageCount (d div PAGE_SIZE))"
      and o: "UserMappingRange_new o_start (PageCount (d div PAGE_SIZE)) = Some o_range" "range_at o_range o_start (PageCount (d div PAGE_SIZE))"
        "page_nat (umr_end_exclusive o_range) = ?z"
      and l: "checked_sub (start_address o_range) (start_address m) = Some l" "um_lo r + 4096 * unat (l div PAGE_SIZE) = ?a"
      and h: "checked_sub (end_address m) (end_address o_range) = Some h" "?z + 4096 * unat (h div PAGE_SIZE) = um_hi r"
      by (rule overlap_pieces [OF rok m(2) b hi True])
    let ?cnt = "PageCount (d div PAGE_SIZE)"
    have pos: "0 < l div PAGE_SIZE \<longleftrightarrow> um_lo r < ?lo" "0 < h div PAGE_SIZE \<longleftrightarrow> hi < um_hi r"
      using l(2) h(2) True by (auto simp: word_gt_0 word_unat_eq_iff max_def min_def overlapped_def split: if_splits)
    let ?X = "pages_between ?a ?z"
    have X: "pages_between (page_nat o_start) (page_nat o_start + 4096 * unat (PageCount_as_u64 ?cnt)) = ?X"
      using os(2) d(2) by simp
    have Xsub: "?X \<subseteq> table_pages ?rs" "?X \<subseteq> pages_between ?lo hi"
      using record_pages_subset [OF mem bounds(3,4)] bounds(5,6) by (auto simp: pages_between_def intro: page_in_mono)
    have cX: "card ?X = unat (d div PAGE_SIZE)"
      using card_pages_between [OF bounds(7), of "unat (d div PAGE_SIZE)"] d(2) bounds(2) by simp
    have "card ?X \<le> card (table_pages ?rs \<inter> pages_between ?lo hi)" using Xsub by (intro card_mono) auto
    then have room': "tracked_count (allocator st) + 2 * unat (PageCount_as_u64 ?cnt) \<le> MAX_TRACKED_RANGES"
      using room cX by simp
    have rep: "unat (saturating_add rep (d div PAGE_SIZE)) = unat rep + card ?X"
      using cap cX \<open>card ?X \<le> _\<close> by (simp add: saturating_add_def unat_plus_if')
    obtain sp where sp: "(if 0 < l div PAGE_SIZE \<and> 0 < h div PAGE_SIZE then map_run Some (expect (next_empty_record_index self)) else Done None) = Done sp"
      "l div PAGE_SIZE \<noteq> 0 \<Longrightarrow> h div PAGE_SIZE \<noteq> 0 \<Longrightarrow> \<exists>j. sp = Some j \<and> j < length ?rs \<and> ?rs ! j = None"
    proof (cases "um_lo r < ?lo \<and> hi < um_hi r")
      case strict: True
      have "?lo \<le> hi" using hi by simp
      then obtain j where "next_empty_record_index self = Some j" "j < length ?rs" "?rs ! j = None"
        using split_slot [OF ok k Some p] strict by blast
      then show thesis using that [of "Some j"] pos strict by simp
    next
      case False
      then show thesis using that [of None] pos by (auto simp: word_gt_0)
    qed
    have eq: "replace_record mp space b self st k rep =
        bind_run (unmap_pages mp space st o_start ?cnt) (\<lambda>st.
        bind_run (apply_record_unmap self k sp r (l div PAGE_SIZE) (h div PAGE_SIZE) (umr_end_exclusive o_range))
          (\<lambda>self. Done ((self, st), saturating_add rep (d div PAGE_SIZE))))"
      using Some k m(1) ov True d(1) os(1) cnt o(1,2) l(1) h(1) sp(1)
      by (simp add: replace_record_def Let_def range_at_def)
    have ap: "runs (apply_record_unmap self k sp r (l div PAGE_SIZE) (h div PAGE_SIZE) (umr_end_exclusive o_range)) (carve_result self k r ?a ?z)"
      by (rule apply_unmap_runs [OF ok k Some l(2) h(2)]) (use bounds(1) o(2,3) sp(2) in \<open>auto simp: range_at_def\<close>)
    show ?thesis
      unfolding eq runs_bind
    proof (rule runs_conseq [OF unmap_pages_runs [OF mp inv oreg _ room']], unfold X, rule Xsub(1), rule runs_conseq [OF ap], elim conjE)
      fix st' self'
      assume u: "unmapped view (root_of space) ?X (table_pages ?rs) st st'"
        and t: "tracked_count (allocator st') \<le> tracked_count (allocator st) + 2 * unat (PageCount_as_u64 ?cnt)"
        and c: "carve_result self k r ?a ?z self'"
      note c' = carve_result_ok [OF ok c bounds(3,4)] and pc = carve_pieces [OF c True]
      have "maps_inv view space self' st'" by (rule maps_inv_unmapped [OF inv c'(1) c'(3) u])
      moreover have "free_frames (allocator st) \<subseteq> free_frames (allocator st')"
        using u moved_taken(2) unfolding unmapped_def by blast
      ultimately have "dropped view space ?X self st self' st'"
        using c' u t Xsub(1) cX by (simp add: dropped_def unmapped_def)
      moreover have "cleared ?lo hi {k} ?rs (records self')" using pc unfolding cleared_def by (metis singletonD)
      ultimately show "runs (Done ((self', st'), saturating_add rep (d div PAGE_SIZE))) (\<lambda>((self', st'), rep').
         \<exists>X \<subseteq> pages_between ?lo hi. unat rep' = unat rep + card X \<and> dropped view space X self st self' st' \<and> cleared ?lo hi {k} ?rs (records self'))"
        using Xsub(2) rep by auto
    qed
  qed
qed

end
