(* ===== verification/User_Mapping_Requests.thy ===== *)
theory User_Mapping_Requests
  imports User_Mapping_Replace
begin

text \<open>
  The whole \<open>mmap\<close> request: the replacement loop over every record, and \<open>map_private\<close> for every
  placement, on success, on refusal and when the page initializer fails.
\<close>

section \<open>The replacement loop\<close>

lemma cleared_trans:
  "cleared lo hi K a b \<Longrightarrow> cleared lo hi L b c \<Longrightarrow> cleared lo hi (K \<union> L) a c"
  unfolding cleared_def by (metis Un_iff)

lemma dropped_table:
  assumes "dropped view space X self st self' st'"
  shows "table_pages (records self') = table_pages (records self) - X" "X \<subseteq> table_pages (records self)"
proof -
  show "table_pages (records self') = table_pages (records self) - X"
    using assms by (intro table_pages_minus) (simp add: dropped_def)
qed (use assms in \<open>simp add: dropped_def\<close>)

lemma room_after_drop:
  assumes "dropped view space X self st self1 st1" "X \<subseteq> P"
  shows "card (table_pages (records self1) \<inter> P) + card X = card (table_pages (records self) \<inter> P)"
proof -
  note t = dropped_table [OF assms(1)]
  have "table_pages (records self) \<inter> P = (table_pages (records self1) \<inter> P) \<union> X" using t assms(2) by blast
  moreover have "(table_pages (records self1) \<inter> P) \<inter> X = {}" using t by blast
  ultimately show ?thesis by (simp add: card_Un_disjoint)
qed

lemma replace_overlapping_from_runs:
  fixes mp :: "'m mapper"
  assumes mp: "mapper_ok mp view" and b: "range_at b s n" "in_region s n"
    and hi: "hi = page_nat s + 4096 * unat (PageCount_as_u64 n)"
    and "maps_inv view space self st" "set ks \<subseteq> {..<MAX_USER_MAPPINGS}"
      "pieces_after (page_nat s) hi (records self) < MAX_USER_MAPPINGS"
      "tracked_count (allocator st) + 2 * card (table_pages (records self) \<inter> pages_between (page_nat s) hi) \<le> MAX_TRACKED_RANGES"
      "unat rep + card (table_pages (records self) \<inter> pages_between (page_nat s) hi) < 2 ^ 64"
  shows "runs (replace_overlapping_from mp space b self st ks rep) (\<lambda>((self', st'), rep').
     \<exists>X \<subseteq> pages_between (page_nat s) hi. unat rep' = unat rep + card X \<and> dropped view space X self st self' st'
       \<and> cleared (page_nat s) hi (set ks) (records self) (records self'))"
  using assms(5-)
proof (induction ks arbitrary: self st rep)
  case Nil
  then have "cleared (page_nat s) hi {} (records self) (records self)" by (simp add: cleared_def)
  then show ?case using dropped_refl [OF Nil(1)] by auto
next
  case (Cons k ks)
  let ?P = "pages_between (page_nat s) hi"
  have "k < length (records self)" using Cons.prems(1,2) by (simp add: maps_inv_def mappings_ok_def)
  note one = replace_record_runs [OF mp Cons.prems(1) b this hi Cons.prems(3-5)]
  show ?case
    unfolding replace_overlapping_from.simps runs_bind
  proof (rule runs_conseq [OF one], goal_cases)
    case (1 x)
    then obtain self1 st1 rep1 X where x: "x = ((self1, st1), rep1)" and X: "X \<subseteq> ?P" "unat rep1 = unat rep + card X"
      "dropped view space X self st self1 st1" "cleared (page_nat s) hi {k} (records self) (records self1)" by auto
    have inv1: "maps_inv view space self1 st1" and t1: "tracked_count (allocator st1) \<le> tracked_count (allocator st) + 2 * card X"
      using X(3) by (simp_all add: dropped_def)
    note c = room_after_drop [OF X(3,1)]
    have "runs (replace_overlapping_from mp space b self1 st1 ks rep1) (\<lambda>((self', st'), rep').
       \<exists>Y \<subseteq> ?P. unat rep' = unat rep1 + card Y \<and> dropped view space Y self1 st1 self' st'
         \<and> cleared (page_nat s) hi (set ks) (records self1) (records self'))"
    proof (rule Cons.IH [OF inv1])
      show "set ks \<subseteq> {..<MAX_USER_MAPPINGS}" using Cons.prems(2) by simp
      show "pieces_after (page_nat s) hi (records self1) < MAX_USER_MAPPINGS" using X(4) Cons.prems(3) by (simp add: cleared_def)
    qed (use c t1 X(2) Cons.prems(4,5) in linarith)+
    then show ?case
      unfolding x prod.case
    proof (rule runs_conseq, goal_cases)
      case (1 y)
      then obtain self2 st2 rep2 Y where y: "y = ((self2, st2), rep2)" and Y: "Y \<subseteq> ?P" "unat rep2 = unat rep1 + card Y"
        "dropped view space Y self1 st1 self2 st2" "cleared (page_nat s) hi (set ks) (records self1) (records self2)" by auto
      have "X \<inter> Y = {}" using dropped_table(1) [OF X(3)] dropped_table(2) [OF Y(3)] by blast
      then have "unat rep2 = unat rep + card (X \<union> Y)" using X(2) Y(2) by (simp add: card_Un_disjoint)
      moreover note dropped_trans [OF X(3) Y(3)] cleared_trans [OF X(4) Y(4)]
      ultimately show ?case using y X(1) Y(1) by (auto intro!: exI [of _ "X \<union> Y"])
    qed
  qed
qed

text \<open>After the loop no record overlaps the range, and a record slot is free.\<close>

lemma replaced_all:
  assumes d: "dropped view space X self st self' st'" and X: "X \<subseteq> pages_between lo hi"
    and c: "cleared lo hi {..<MAX_USER_MAPPINGS} (records self) (records self')"
    and p: "pieces_after lo hi (records self) < MAX_USER_MAPPINGS"
  shows "X = table_pages (records self) \<inter> pages_between lo hi"
    and "\<And>q. Some q \<in> set (records self') \<Longrightarrow> \<not> overlapped lo hi q"
    and "next_empty_record_index self' \<noteq> None"
proof -
  have ok: "length (records self') = MAX_USER_MAPPINGS"
    using d unfolding dropped_def maps_inv_def mappings_ok_def by blast
  show no: "\<not> overlapped lo hi q" if "Some q \<in> set (records self')" for q
    using that c ok unfolding cleared_def by (metis in_set_conv_nth lessThan_iff)
  have "table_pages (records self') \<inter> pages_between lo hi = {}"
    using no by (force simp: table_pages_def overlapped_def pages_between_def page_in_def)
  moreover note dropped_table [OF d]
  ultimately show "X = table_pages (records self) \<inter> pages_between lo hi" using X by blast
  have "kept lo hi (records self' ! k) = (if records self' ! k = None then 0 else 1)" if "k < length (records self')" for k
    using that no nth_mem [OF that] by (cases "records self' ! k") auto
  then have "record_count (records self') = pieces_after lo hi (records self')"
    unfolding record_count_sum pieces_after_sum by (intro sum.cong) auto
  then have "record_count (records self') < length (records self')" using c p ok by (simp add: cleared_def)
  then show "next_empty_record_index self' \<noteq> None" using next_empty(1) [of self'] by simp
qed

section \<open>The request\<close>

text \<open>The record slots the table would need: the check made before anything is changed.\<close>

definition slots_needed :: "UserMappings \<Rightarrow> UserMappingPlacement \<Rightarrow> nat \<Rightarrow> nat" where
  "slots_needed self placement len = (case placement of
     FixedReplace p \<Rightarrow> pieces_after (page_nat p) (page_nat p + len) (records self) + 1
   | _ \<Rightarrow> record_count (records self) + 1)"

lemma prepare_runs:
  fixes mp :: "'m mapper"
  assumes mp: "mapper_ok mp view" and inv: "maps_inv view space self st" and b: "range_at b s n" "in_region s n"
    and pl: "\<And>p. pl = FixedReplace p \<Longrightarrow> s = p" "(\<forall>p. pl \<noteq> FixedReplace p) \<Longrightarrow> free_at self n s"
    and room: "tracked_count (allocator st) + 2 * unat (PageCount_as_u64 n) \<le> MAX_TRACKED_RANGES"
    and slots: "slots_needed self pl (4096 * unat (PageCount_as_u64 n)) \<le> MAX_USER_MAPPINGS"
  defines "S \<equiv> first_pages s (unat (PageCount_as_u64 n))"
  shows "runs (prepare_replacement mp space self st pl b) (\<lambda>((self', st'), r). \<exists>rep. r = Inr rep
     \<and> unat rep = card (table_pages (records self) \<inter> S) \<and> dropped view space (table_pages (records self) \<inter> S) self st self' st'
     \<and> free_at self' n s \<and> next_empty_record_index self' \<noteq> None)"
proof (cases "\<exists>p. pl = FixedReplace p")
  case False
  then have free: "free_at self n s" using pl(2) by blast
  then have "table_pages (records self) \<inter> S = {}" unfolding S_def by (rule free_at_pages)
  moreover have "next_empty_record_index self \<noteq> None"
    using slots False next_empty(1) [of self] inv by (auto simp: slots_needed_def maps_inv_def mappings_ok_def split: UserMappingPlacement.splits)
  ultimately show ?thesis
    using False free dropped_refl [OF inv] by (cases pl) (auto simp: prepare_replacement_def)
next
  case True
  then have rp: "pl = FixedReplace s" using pl(1) by blast
  let ?hi = "page_nat s + 4096 * unat (PageCount_as_u64 n)" and ?rs = "records self"
  have ok: "mappings_ok self" "length ?rs = MAX_USER_MAPPINGS" using inv by (simp_all add: maps_inv_def mappings_ok_def)
  have p: "pieces_after (page_nat s) ?hi ?rs < MAX_USER_MAPPINGS" using slots rp by (simp add: slots_needed_def)
  have S: "S = pages_between (page_nat s) ?hi" by (simp add: S_def)
  have small: "?hi \<le> 0x700000000000" "4096 dvd page_nat s" using b(2) by (simp_all add: in_region_def user_page_ok_unat)
  then have "card S = unat (PageCount_as_u64 n)" unfolding S by (intro card_pages_between) simp_all
  moreover have "card (table_pages ?rs \<inter> S) \<le> card S" by (rule card_mono) auto
  ultimately have c: "card (table_pages ?rs \<inter> S) \<le> unat (PageCount_as_u64 n)" by simp
  have "runs (replace_overlapping_from mp space b self st [0..<length ?rs] 0) (\<lambda>((self', st'), rep').
     \<exists>X \<subseteq> pages_between (page_nat s) ?hi. unat rep' = unat (0 :: u64) + card X \<and> dropped view space X self st self' st'
       \<and> cleared (page_nat s) ?hi (set [0..<length ?rs]) ?rs (records self'))"
    by (rule replace_overlapping_from_runs [OF mp b refl inv _ p])
      (use c room small ok(2) in \<open>auto simp: S [symmetric] intro: le_less_trans\<close>)
  then show ?thesis
    unfolding rp prepare_replacement_def UserMappingPlacement.case preflight_exact [OF ok(1) b(1)] if_P [OF p]
      bind_run.simps sum.case replace_overlapping_pages_def runs_bind
  proof (rule runs_conseq, goal_cases)
    case (1 x)
    then obtain self' st' rep X where x: "x = ((self', st'), rep)" and X: "X \<subseteq> pages_between (page_nat s) ?hi" "unat rep = card X"
      "dropped view space X self st self' st'" "cleared (page_nat s) ?hi (set [0..<length ?rs]) ?rs (records self')" by auto
    have "cleared (page_nat s) ?hi {..<MAX_USER_MAPPINGS} ?rs (records self')" using X(4) ok(2) by (simp add: atLeast0LessThan)
    note all = replaced_all [OF X(3,1) this p]
    have "free_at self' n s" using all(2) b(2) by (force simp: free_at_def overlapped_def)
    then show ?case using x X all(1,3) by (simp add: S)
  qed
qed

text \<open>
  \<open>request_outcome\<close>: what a request did. On success the chosen range belongs to the new record
  and to no old one, and its pages are mapped with the requested rights. A refusal changes
  nothing. When the initializer fails, the range is left unmapped and unrecorded.
\<close>

definition request_outcome ::
    "'m page_view \<Rightarrow> UserAddressSpace \<Rightarrow> 'c initializer \<Rightarrow> UserMappings \<Rightarrow> 'm memory \<Rightarrow> UserMappingPlan
       \<Rightarrow> UserMappings \<Rightarrow> 'm memory \<Rightarrow> (UserMappingError + UserMappingAllocation) \<Rightarrow> bool" where
  "request_outcome view space init self st plan self' st' r \<longleftrightarrow>
     (let n = uml_page_count (ump_length plan); m = unat (PageCount_as_u64 n); root = root_of space;
          place = start_address_for_placement self (ump_placement plan) (PageCount_byte_len n);
          full = MAX_USER_MAPPINGS < slots_needed self (ump_placement plan) (4096 * m);
          old = source_pages (records self); new = source_pages (records self') in
      case r of
        Inr a \<Rightarrow> \<exists>s. place = Inr s \<and> \<not> full \<and> uma_start a = UserPageStart_as_address s \<and> uma_page_count a = n
          \<and> unat (uma_replaced_page_count a) = card (table_pages (records self) \<inter> first_pages s m)
          \<and> (\<forall>src. new src = old src - first_pages s m \<union> (if src = ump_source plan then first_pages s m else {}))
          \<and> (\<forall>p. if p \<in> first_pages s m then \<exists>f. view (tables st') root p = Some (f, user_page_flags (ump_writable plan))
                else view (tables st') root p = view (tables st) root p)
      | Inl e \<Rightarrow> self' = self \<and> st' = st \<and> (place = Inl e \<or> e = OutOfMemory \<and> full)
          \<or> (\<exists>s. place = Inr s \<and> \<not> full \<and> (\<exists>c k xs. snd (init c k xs) = Inl e)
              \<and> (\<forall>src. new src = old src - first_pages s m)
              \<and> (\<forall>p. view (tables st') root p = (if p \<in> first_pages s m then None else view (tables st) root p))))"

lemma prepared_outcome:
  assumes inv: "maps_inv view space self st" and free: "free_at self1 (uml_page_count (ump_length plan)) s"
    and place: "start_address_for_placement self (ump_placement plan) (PageCount_byte_len (uml_page_count (ump_length plan))) = Inr s"
    and slots: "slots_needed self (ump_placement plan) (4096 * unat (PageCount_as_u64 (uml_page_count (ump_length plan)))) \<le> MAX_USER_MAPPINGS"
  defines "S \<equiv> first_pages s (unat (PageCount_as_u64 (uml_page_count (ump_length plan))))"
  assumes d: "dropped view space (table_pages (records self) \<inter> S) self st self1 st1" and rep: "unat rep = card (table_pages (records self) \<inter> S)"
    and i: "install_outcome view space self1 st1 plan s rep self2 st2 r" "\<forall>e. r = Inl e \<longrightarrow> (\<exists>c k xs. snd (init c k xs) = Inl e)"
  shows "maps_inv view space self2 st2 \<and> request_outcome view space init self st plan self2 st2 r"
proof -
  have "in_region s (uml_page_count (ump_length plan))" using free by (simp add: free_at_def)
  then have "S \<subseteq> pages_between 0x600000000000 0x700000000000"
    unfolding S_def by (auto simp: in_region_def pages_between_def intro: page_in_mono)
  then have v1: "view (tables st1) (root_of space) p = (if p \<in> S then None else view (tables st) (root_of space) p)" for p
    using d inv by (auto simp: dropped_def maps_inv_def)
  have sub: "source_pages (records self) src \<subseteq> table_pages (records self)" for src
    unfolding table_pages_sources by blast
  have s1: "source_pages (records self1) src = source_pages (records self) src - S" for src
    using d sub by (auto simp: dropped_def)
  have inv2: "maps_inv view space self2 st2" using i(1) by (simp add: install_outcome_def Let_def)
  show ?thesis
  proof (cases r)
    case (Inr a)
    have "view (tables st2) (root_of space) p = view (tables st) (root_of space) p" if "p \<notin> S" for p
      using i(1) Inr v1 [of p] that by (simp add: install_outcome_def Let_def S_def)
    with Inr i(1) s1 inv2 place slots rep show ?thesis
      by (auto simp: install_outcome_def request_outcome_def Let_def S_def [symmetric])
  next
    case (Inl e)
    with i s1 v1 inv2 place slots show ?thesis
      by (auto simp: install_outcome_def request_outcome_def Let_def S_def [symmetric])
  qed
qed

lemma full_table_refused:
  assumes inv: "maps_inv view space self st" and b: "range_at b s (uml_page_count (ump_length plan))"
    and pl: "\<And>p. ump_placement plan = FixedReplace p \<Longrightarrow> s = p"
    and full: "MAX_USER_MAPPINGS < slots_needed self (ump_placement plan) (4096 * unat (PageCount_as_u64 (uml_page_count (ump_length plan))))"
  shows "bind_run (prepare_replacement mp space self st (ump_placement plan) b) (\<lambda>((self, st), r). case r of
       Inl e \<Rightarrow> Done ((c, self, st), Inl e)
     | Inr rep \<Rightarrow> install_mapping mp space init c self st plan b rep) = Done ((c, self, st), Inl OutOfMemory)"
proof (cases "\<exists>p. ump_placement plan = FixedReplace p")
  case True
  then have rp: "ump_placement plan = FixedReplace s" using pl by blast
  have "\<not> pieces_after (page_nat s) (page_nat s + 4096 * unat (PageCount_as_u64 (uml_page_count (ump_length plan)))) (records self) < MAX_USER_MAPPINGS"
    using full rp by (simp add: slots_needed_def)
  then show ?thesis
    using inv preflight_exact [OF _ b, of self] by (simp add: rp prepare_replacement_def maps_inv_def)
next
  case False
  then have "MAX_USER_MAPPINGS \<le> record_count (records self)"
    using full by (auto simp: slots_needed_def split: UserMappingPlacement.splits)
  then have "next_empty_record_index self = None"
    using next_empty(1) [of self] record_count_le [of "records self"] inv by (simp add: maps_inv_def mappings_ok_def)
  then show ?thesis
    using False by (cases "ump_placement plan") (auto simp: prepare_replacement_def install_mapping_def Let_def)
qed


text \<open>The first anonymous page of a process, with no address requested.\<close>

definition empty_mappings :: UserMappings where
  "empty_mappings = \<lparr>next_start = sample_page 0x600000000000, records = replicate 32 None\<rparr>"

definition anonymous_page :: UserMappingPlan where
  "anonymous_page = \<lparr>ump_placement = Placement_Any, ump_length = \<lparr>uml_byte_len = 100, uml_page_count = PageCount 1\<rparr>,
     ump_writable = True, ump_source = Anonymous\<rparr>"

definition no_initializer :: "unit initializer" where
  "no_initializer c k xs = ((c, xs), Inr ())"

lemma UserMappings_new_empty: "UserMappings_new = Done empty_mappings"
  by (simp add: UserMappings_new_def empty_mappings_def sample_page_def UserVirtualAddress_new_def UserPageStart_new_def
      UserVirtualAddress_as_u64_def is_multiple_of_page)

lemma empty_mappings_inv: "fa_canon s \<Longrightarrow> maps_inv (\<lambda>m. m) sample_space empty_mappings (sample_memory s)"
  using sample_pages by (auto simp: maps_inv_def mappings_ok_def empty_mappings_def sample_memory_def table_pages_def backed_on_def)

lemma empty_mappings_place:
  "start_address_for_placement empty_mappings Placement_Any (PageCount_byte_len (PageCount 1)) = Inr (sample_page 0x600000000000)"
proof -
  let ?p = "sample_page 0x600000000000"
  have ok: "mappings_ok empty_mappings" using sample_pages by (simp add: mappings_ok_def empty_mappings_def)
  have n: "page_count_ok (PageCount 1)" by (simp add: page_count_ok_def)
  have free: "free_at empty_mappings (PageCount 1) ?p"
    using sample_pages n by (auto simp: free_at_def in_region_def empty_mappings_def)
  have nx: "next_start empty_mappings = ?p" by (simp add: empty_mappings_def)
  obtain s where s: "start_address_for_placement empty_mappings Placement_Any (PageCount_byte_len (PageCount 1)) = Inr s"
    "page_nat ?p \<le> page_nat s" "page_nat s \<le> page_nat ?p"
    using placement_cases [OF ok n, of Placement_Any] free by (auto simp: nx split: sum.splits)
  then show ?thesis using page_nat_inj by (metis le_antisym)
qed


end
