(* ===== verification/Byte_Fields.thy ===== *)
theory Byte_Fields
  imports Mana_Prelude
begin

text \<open>
  Byte slices and little-endian fields: Rust's slice indexing (which panics), \<open>get\<close> on a range
  (which returns an option), \<open>from_le_bytes\<close>, \<open>to_le_bytes\<close> and \<open>copy_from_slice\<close> into a field.
  Indexes are natural numbers: a slice is never longer than half the address space.
\<close>

section \<open>Slices\<close>

definition slice_get :: "'a list \<Rightarrow> nat \<Rightarrow> nat \<Rightarrow> 'a list option" where
  "slice_get xs a b = (if a \<le> b \<and> b \<le> length xs then Some (take (b - a) (drop a xs)) else None)"

definition slice_at :: "'a list \<Rightarrow> nat \<Rightarrow> nat \<Rightarrow> 'a list run" where
  "slice_at xs a b = expect (slice_get xs a b)"

definition byte_at :: "'a list \<Rightarrow> nat \<Rightarrow> 'a run" where
  "byte_at xs i = (if i < length xs then Done (xs ! i) else Panic)"

definition byte_set :: "'a list \<Rightarrow> nat \<Rightarrow> 'a \<Rightarrow> 'a list run" where
  "byte_set xs i x = (if i < length xs then Done (xs[i := x]) else Panic)"

text \<open>\<open>xs[a..b].copy_from_slice(ys)\<close>, which panics on a bad range or on different lengths.\<close>

definition copy_into :: "'a list \<Rightarrow> nat \<Rightarrow> nat \<Rightarrow> 'a list \<Rightarrow> 'a list run" where
  "copy_into xs a b ys =
     (if a \<le> b \<and> b \<le> length xs \<and> length ys = b - a then Done (take a xs @ ys @ drop b xs) else Panic)"

lemma slice_get_Some: "a \<le> b \<Longrightarrow> b \<le> length xs \<Longrightarrow> slice_get xs a b = Some (take (b - a) (drop a xs))"
  by (simp add: slice_get_def)

lemma slice_get_length: "slice_get xs a b = Some ys \<Longrightarrow> length ys = b - a"
  by (auto simp: slice_get_def split: if_splits)

lemma slice_at_Done [simp]: "a \<le> b \<Longrightarrow> b \<le> length xs \<Longrightarrow> slice_at xs a b = Done (take (b - a) (drop a xs))"
  by (simp add: slice_at_def slice_get_def)

lemma byte_at_Done [simp]: "i < length xs \<Longrightarrow> byte_at xs i = Done (xs ! i)"
  by (simp add: byte_at_def)

section \<open>Little-endian integers\<close>

fun from_le_bytes :: "u8 list \<Rightarrow> 'a::len word" where
  "from_le_bytes [] = 0"
| "from_le_bytes (b # bs) = ucast b + 256 * from_le_bytes bs"

definition to_le_bytes :: "nat \<Rightarrow> 'a::len word \<Rightarrow> u8 list" where
  "to_le_bytes n w = map (\<lambda>i. ucast (drop_bit (8 * i) w)) [0..<n]"

text \<open>The number a little-endian byte string stands for.\<close>

fun le_nat :: "u8 list \<Rightarrow> nat" where
  "le_nat [] = 0"
| "le_nat (b # bs) = unat b + 256 * le_nat bs"

lemma le_nat_bound: "le_nat bs < 256 ^ length bs"
proof (induction bs)
  case (Cons b bs)
  have "unat b < 256" using unsigned_less [of b] by simp
  with Cons show ?case by simp
qed simp

lemma from_le_bytes_of_nat: "from_le_bytes bs = (of_nat (le_nat bs) :: 'a::len word)"
proof (induction bs)
  case (Cons b bs)
  have "ucast b = (of_nat (unat b) :: 'a word)" by (rule of_nat_unat [symmetric])
  with Cons show ?case by simp
qed simp

lemma unat_from_le_bytes:
  assumes "8 * length bs \<le> LENGTH('a)"
  shows "unat (from_le_bytes bs :: 'a::len word) = le_nat bs"
proof -
  have "le_nat bs < 256 ^ length bs" by (rule le_nat_bound)
  also have "\<dots> = 2 ^ (8 * length bs)" by (simp add: power_mult)
  also have "\<dots> \<le> 2 ^ LENGTH('a)" using assms by (rule power_increasing) simp
  finally show ?thesis by (simp add: from_le_bytes_of_nat unat_of_nat)
qed

lemma to_le_bytes_length [simp]: "length (to_le_bytes n w) = n"
  by (simp add: to_le_bytes_def)

lemma to_le_bytes_Suc: "to_le_bytes (Suc n) w = ucast w # to_le_bytes n (drop_bit 8 w)"
proof -
  have "[0..<Suc n] = 0 # map Suc [0..<n]" by (simp add: map_Suc_upt upt_conv_Cons del: upt_Suc)
  then show ?thesis by (simp add: to_le_bytes_def o_def drop_bit_drop_bit add.commute)
qed

lemma le_nat_to_le_bytes: "le_nat (to_le_bytes n w) = unat w mod 256 ^ n"
proof (induction n arbitrary: w)
  case 0
  then show ?case by (simp add: to_le_bytes_def)
next
  case (Suc n)
  have "unat (ucast w :: u8) = unat w mod 256" by (simp add: unsigned_ucast_eq take_bit_eq_mod)
  moreover have "unat (drop_bit 8 w) = unat w div 256" by (simp only: unat_drop_bit_eq) (simp add: drop_bit_eq_div)
  ultimately show ?case using Suc [of "drop_bit 8 w"] by (simp add: to_le_bytes_Suc mod_mult2_eq)
qed

lemma le_bytes_round_trip:
  fixes w :: "'a::len word"
  assumes "8 * n = LENGTH('a)"
  shows "from_le_bytes (to_le_bytes n w) = w"
proof -
  have "(256 :: nat) ^ n = 2 ^ LENGTH('a)" unfolding assms [symmetric] by (simp add: power_mult)
  then have "unat w mod 256 ^ n = unat w" using unsigned_less [of w] by simp
  then show ?thesis using assms by (simp add: word_unat_eq_iff unat_from_le_bytes le_nat_to_le_bytes)
qed

text \<open>The field of \<open>n\<close> bytes at an offset, as a number.\<close>

definition field :: "u8 list \<Rightarrow> nat \<Rightarrow> nat \<Rightarrow> nat" where
  "field bytes offset n = le_nat (take n (drop offset bytes))"

lemma unat_field:
  "8 * n \<le> LENGTH('a) \<Longrightarrow> unat (from_le_bytes (take n (drop offset bytes)) :: 'a::len word) = field bytes offset n"
  unfolding field_def by (rule unat_from_le_bytes) simp

lemma field_bound: "field bytes offset n < 256 ^ n"
proof -
  have "field bytes offset n < 256 ^ length (take n (drop offset bytes))" unfolding field_def by (rule le_nat_bound)
  also have "\<dots> \<le> 256 ^ n" by (rule power_increasing) simp_all
  finally show ?thesis .
qed

end
