(* ===== verification/Elf_Parser.thy ===== *)
theory Elf_Parser
  imports Byte_Fields
begin

text \<open>
  The ELF64 parser of \<open>kernel/elf/parser.rs\<close>: header validation, the program header iterator and
  the little-endian field reads. A parsed file keeps the image and its header.
\<close>

section \<open>Model\<close>

abbreviation ELF_HEADER_SIZE :: nat where "ELF_HEADER_SIZE \<equiv> 64"
abbreviation PROGRAM_HEADER_SIZE :: usize where "PROGRAM_HEADER_SIZE \<equiv> 56"
abbreviation ELF_MAGIC :: "u8 list" where "ELF_MAGIC \<equiv> [0x7f, 0x45, 0x4c, 0x46]"
abbreviation ELF_CLASS_64 :: u8 where "ELF_CLASS_64 \<equiv> 2"
abbreviation ELF_DATA_LITTLE_ENDIAN :: u8 where "ELF_DATA_LITTLE_ENDIAN \<equiv> 1"
abbreviation ELF_VERSION_CURRENT :: u32 where "ELF_VERSION_CURRENT \<equiv> 1"
abbreviation ELF_TYPE_EXECUTABLE :: u16 where "ELF_TYPE_EXECUTABLE \<equiv> 2"
abbreviation ELF_MACHINE_X86_64 :: u16 where "ELF_MACHINE_X86_64 \<equiv> 0x3e"
abbreviation PT_LOAD :: u32 where "PT_LOAD \<equiv> 1"

datatype ElfError = HeaderTooSmall | BadMagic | UnsupportedClass | UnsupportedEndian | UnsupportedVersion
  | UnsupportedType | UnsupportedMachine | UnsupportedProgramHeaderSize | EmptyProgramHeaderTable
  | ProgramHeaderTableOutOfBounds | ProgramHeaderOutOfBounds

fun ElfError_message :: "ElfError \<Rightarrow> string" where
  "ElfError_message HeaderTooSmall = ''ELF header is too small''"
| "ElfError_message BadMagic = ''ELF magic is invalid''"
| "ElfError_message UnsupportedClass = ''ELF class is not 64-bit''"
| "ElfError_message UnsupportedEndian = ''ELF byte order is not little-endian''"
| "ElfError_message UnsupportedVersion = ''ELF version is unsupported''"
| "ElfError_message UnsupportedType = ''ELF type is not executable''"
| "ElfError_message UnsupportedMachine = ''ELF machine is not x86_64''"
| "ElfError_message UnsupportedProgramHeaderSize = ''ELF program header size is unsupported''"
| "ElfError_message EmptyProgramHeaderTable = ''ELF program header table is empty''"
| "ElfError_message ProgramHeaderTableOutOfBounds = ''ELF program header table is out of bounds''"
| "ElfError_message ProgramHeaderOutOfBounds = ''ELF program header entry is out of bounds''"

record ElfHeader =
  elf_type :: u16
  machine :: u16
  version :: u32
  entry :: u64
  program_header_offset :: u64
  header_size :: u16
  program_header_entry_size :: u16
  program_header_count :: u16

record ElfFile =
  elf_bytes :: "u8 list"
  elf_header :: ElfHeader

record ProgramHeader =
  header_type :: u32
  ph_flags :: u32
  ph_offset :: u64
  virtual_address :: u64
  file_size :: u64
  memory_size :: u64
  alignment :: u64

record ProgramHeaderIter =
  iter_bytes :: "u8 list"
  next_index :: u16
  iter_header :: ElfHeader

definition read_u16 :: "u8 list \<Rightarrow> nat \<Rightarrow> u16 run" where
  "read_u16 bytes offset = map_run from_le_bytes (slice_at bytes offset (offset + 2))"

definition read_u32 :: "u8 list \<Rightarrow> nat \<Rightarrow> u32 run" where
  "read_u32 bytes offset = map_run from_le_bytes (slice_at bytes offset (offset + 4))"

definition read_u64 :: "u8 list \<Rightarrow> nat \<Rightarrow> u64 run" where
  "read_u64 bytes offset = map_run from_le_bytes (slice_at bytes offset (offset + 8))"

definition is_load :: "ProgramHeader \<Rightarrow> bool" where
  "is_load ph \<longleftrightarrow> header_type ph = PT_LOAD"

text \<open>The header fields, read after the identification bytes were checked.\<close>

definition read_elf_header :: "u8 list \<Rightarrow> ElfHeader run" where
  "read_elf_header bytes =
     bind_run (read_u16 bytes 16) (\<lambda>ty.
     bind_run (read_u16 bytes 18) (\<lambda>ma.
     bind_run (read_u32 bytes 20) (\<lambda>ve.
     bind_run (read_u64 bytes 24) (\<lambda>en.
     bind_run (read_u64 bytes 32) (\<lambda>off.
     bind_run (read_u16 bytes 52) (\<lambda>hs.
     bind_run (read_u16 bytes 54) (\<lambda>es.
     bind_run (read_u16 bytes 56) (\<lambda>ct.
       Done \<lparr>elf_type = ty, machine = ma, version = ve, entry = en, program_header_offset = off,
             header_size = hs, program_header_entry_size = es, program_header_count = ct\<rparr>))))))))"

text \<open>The checks on the header fields, in the order of the code.\<close>

definition check_elf_header :: "u8 list \<Rightarrow> ElfHeader \<Rightarrow> ElfError + ElfFile" where
  "check_elf_header bytes h =
     (if elf_type h \<noteq> ELF_TYPE_EXECUTABLE then Inl UnsupportedType
      else if machine h \<noteq> ELF_MACHINE_X86_64 then Inl UnsupportedMachine
      else if version h \<noteq> ELF_VERSION_CURRENT then Inl UnsupportedVersion
      else if unat (header_size h) \<noteq> ELF_HEADER_SIZE then Inl HeaderTooSmall
      else if (ucast (program_header_entry_size h) :: usize) \<noteq> PROGRAM_HEADER_SIZE then Inl UnsupportedProgramHeaderSize
      else if program_header_count h = 0 then Inl EmptyProgramHeaderTable
      else case usize_try_from (program_header_offset h) of
             None \<Rightarrow> Inl ProgramHeaderTableOutOfBounds
           | Some table_start \<Rightarrow>
               (case checked_mul (ucast (program_header_entry_size h) :: usize) (ucast (program_header_count h)) of
                  None \<Rightarrow> Inl ProgramHeaderTableOutOfBounds
                | Some table_size \<Rightarrow>
                    (case checked_add table_start table_size of
                       None \<Rightarrow> Inl ProgramHeaderTableOutOfBounds
                     | Some table_end \<Rightarrow>
                         if length bytes < unat table_end then Inl ProgramHeaderTableOutOfBounds
                         else Inr \<lparr>elf_bytes = bytes, elf_header = h\<rparr>)))"

definition ElfFile_parse :: "u8 list \<Rightarrow> (ElfError + ElfFile) run" where
  "ElfFile_parse bytes =
     (if length bytes < ELF_HEADER_SIZE then Done (Inl HeaderTooSmall)
      else bind_run (slice_at bytes 0 4) (\<lambda>magic.
        if magic \<noteq> ELF_MAGIC then Done (Inl BadMagic)
        else bind_run (byte_at bytes 4) (\<lambda>class.
          if class \<noteq> ELF_CLASS_64 then Done (Inl UnsupportedClass)
          else bind_run (byte_at bytes 5) (\<lambda>order.
            if order \<noteq> ELF_DATA_LITTLE_ENDIAN then Done (Inl UnsupportedEndian)
            else bind_run (byte_at bytes 6) (\<lambda>v.
              if (ucast v :: u32) \<noteq> ELF_VERSION_CURRENT then Done (Inl UnsupportedVersion)
              else bind_run (read_elf_header bytes) (\<lambda>h. Done (check_elf_header bytes h)))))))"

definition program_headers :: "ElfFile \<Rightarrow> ProgramHeaderIter" where
  "program_headers f = \<lparr>iter_bytes = elf_bytes f, next_index = 0, iter_header = elf_header f\<rparr>"

definition read_program_header :: "u8 list \<Rightarrow> ProgramHeader run" where
  "read_program_header bytes =
     bind_run (read_u32 bytes 0) (\<lambda>ty.
     bind_run (read_u32 bytes 4) (\<lambda>fl.
     bind_run (read_u64 bytes 8) (\<lambda>off.
     bind_run (read_u64 bytes 16) (\<lambda>va.
     bind_run (read_u64 bytes 32) (\<lambda>fs.
     bind_run (read_u64 bytes 40) (\<lambda>ms.
     bind_run (read_u64 bytes 48) (\<lambda>al.
       Done \<lparr>header_type = ty, ph_flags = fl, ph_offset = off, virtual_address = va, file_size = fs,
             memory_size = ms, alignment = al\<rparr>)))))))"

text \<open>
  One step of the iterator. The index is advanced only once the entry's bounds were computed;
  the increment cannot wrap because the index is below the count.
\<close>

definition ProgramHeaderIter_next ::
    "ProgramHeaderIter \<Rightarrow> (ProgramHeaderIter \<times> (ElfError + ProgramHeader) option) run" where
  "ProgramHeaderIter_next it =
     (let h = iter_header it in
      if program_header_count h \<le> next_index it then Done (it, None)
      else case usize_try_from (program_header_offset h) of
             None \<Rightarrow> Done (it, None)
           | Some table_start \<Rightarrow>
               (case checked_mul (ucast (next_index it) :: usize) (ucast (program_header_entry_size h)) of
                  None \<Rightarrow> Done (it, None)
                | Some entry_offset \<Rightarrow>
                    (case checked_add table_start entry_offset of
                       None \<Rightarrow> Done (it, None)
                     | Some start \<Rightarrow>
                         (case checked_add start PROGRAM_HEADER_SIZE of
                            None \<Rightarrow> Done (it, None)
                          | Some finish \<Rightarrow>
                              bind_run (expect (checked_add (next_index it) 1)) (\<lambda>i.
                                let it = it\<lparr>next_index := i\<rparr> in
                                case slice_get (iter_bytes it) (unat start) (unat finish) of
                                  None \<Rightarrow> Done (it, Some (Inl ProgramHeaderOutOfBounds))
                                | Some bytes \<Rightarrow>
                                    bind_run (read_program_header bytes) (\<lambda>ph. Done (it, Some (Inr ph))))))))"

section \<open>Exactness of the parser\<close>

text \<open>
  What an acceptable image is, over the numbers its fields stand for. The identification bytes
  and the header fields must have their fixed values, and the program header table must be
  non-empty and lie inside the image.
\<close>

definition elf_image_ok :: "u8 list \<Rightarrow> bool" where
  "elf_image_ok bytes \<longleftrightarrow> 64 \<le> length bytes \<and> take 4 bytes = ELF_MAGIC
     \<and> field bytes 4 1 = 2 \<and> field bytes 5 1 = 1 \<and> field bytes 6 1 = 1
     \<and> field bytes 16 2 = 2 \<and> field bytes 18 2 = 0x3e \<and> field bytes 20 4 = 1
     \<and> field bytes 52 2 = 64 \<and> field bytes 54 2 = 56 \<and> 0 < field bytes 56 2
     \<and> field bytes 32 8 + 56 * field bytes 56 2 \<le> length bytes"

definition elf_header_of :: "u8 list \<Rightarrow> ElfHeader" where
  "elf_header_of bytes = \<lparr>elf_type = of_nat (field bytes 16 2), machine = of_nat (field bytes 18 2),
     version = of_nat (field bytes 20 4), entry = of_nat (field bytes 24 8),
     program_header_offset = of_nat (field bytes 32 8), header_size = of_nat (field bytes 52 2),
     program_header_entry_size = of_nat (field bytes 54 2), program_header_count = of_nat (field bytes 56 2)\<rparr>"

definition program_header_at :: "u8 list \<Rightarrow> nat \<Rightarrow> ProgramHeader" where
  "program_header_at bytes a = \<lparr>header_type = of_nat (field bytes a 4), ph_flags = of_nat (field bytes (a + 4) 4),
     ph_offset = of_nat (field bytes (a + 8) 8), virtual_address = of_nat (field bytes (a + 16) 8),
     file_size = of_nat (field bytes (a + 32) 8), memory_size = of_nat (field bytes (a + 40) 8),
     alignment = of_nat (field bytes (a + 48) 8)\<rparr>"

lemma read_fields:
  "offset + 2 \<le> length bytes \<Longrightarrow> read_u16 bytes offset = Done (of_nat (field bytes offset 2))"
  "offset + 4 \<le> length bytes \<Longrightarrow> read_u32 bytes offset = Done (of_nat (field bytes offset 4))"
  "offset + 8 \<le> length bytes \<Longrightarrow> read_u64 bytes offset = Done (of_nat (field bytes offset 8))"
  by (simp_all add: read_u16_def read_u32_def read_u64_def field_def from_le_bytes_of_nat)

lemma read_elf_header_Done: "64 \<le> length bytes \<Longrightarrow> read_elf_header bytes = Done (elf_header_of bytes)"
  by (simp add: read_elf_header_def read_fields elf_header_of_def)

lemma read_program_header_Done:
  assumes "a + 56 \<le> length bytes"
  shows "read_program_header (take 56 (drop a bytes)) = Done (program_header_at bytes a)"
proof -
  have "field (take 56 (drop a bytes)) k n = field bytes (a + k) n" if "k + n \<le> 56" for k n
    using that by (simp add: field_def take_drop min_def add.commute)
  then show ?thesis
    using assms by (simp add: read_program_header_def read_fields program_header_at_def)
qed

end
