(* ===== verification/User_Stack.thy ===== *)
theory User_Stack
  imports User_Mapping Byte_Fields
begin

text \<open>
  User stacks (\<open>kernel/memory/user_stack.rs\<close>): the slot allocator with its page mappings, the
  single user page used by the program loader, and the first stack image with the argument and
  environment strings. Stack memory is written through its physical frames.
\<close>

section \<open>Stacks and pages\<close>

record AllocatedUserStack =
  stack_base :: UserVirtualAddress
  stack_top :: UserVirtualAddress
  stack_physical_range :: PhysicalFrameRange
  stack_page_count :: PageCount

definition stack_byte_len :: "AllocatedUserStack \<Rightarrow> u64" where
  "stack_byte_len stack = PageCount_byte_len (stack_page_count stack)"

abbreviation stack_page_flags :: PageTableFlags where
  "stack_page_flags \<equiv> {PRESENT} \<union> {WRITABLE} \<union> {USER_ACCESSIBLE} \<union> {NO_EXECUTE}"

fun map_stack_pages ::
    "'m mapper \<Rightarrow> UserAddressSpace \<Rightarrow> UserPageStart \<Rightarrow> PhysicalFrameRange \<Rightarrow> 'm memory \<Rightarrow> nat \<Rightarrow> u64 \<Rightarrow> 'm memory run" where
  "map_stack_pages mp space stack_base_page physical_range st 0 index = Done st"
| "map_stack_pages mp space stack_base_page physical_range st (Suc n) index =
     bind_run (expect (checked_mul index PAGE_SIZE)) (\<lambda>offset.
     bind_run (expect (UserPageStart_checked_add stack_base_page offset)) (\<lambda>virtual_page_start.
     bind_run (expect (PhysAddr_checked_add (PhysicalFrameStart_as_address (pfr_start physical_range)) offset)) (\<lambda>physical_address.
     bind_run (expect (PhysicalFrameStart_new physical_address)) (\<lambda>physical_start.
     bind_run (map_user_page mp space (tables st) (allocator st) virtual_page_start physical_start stack_page_flags) (\<lambda>(m, fa).
       map_stack_pages mp space stack_base_page physical_range (st\<lparr>tables := m, allocator := fa\<rparr>) n (index + 1))))))"

text \<open>The slot counter \<open>NEXT_USER_STACK_SLOT\<close> is passed in and returned; \<open>fetch_add\<close> wraps.\<close>

definition allocate_user_stack ::
    "'m mapper \<Rightarrow> UserAddressSpace \<Rightarrow> u64 \<Rightarrow> 'm memory \<Rightarrow> PageCount \<Rightarrow> ((u64 \<times> 'm memory) \<times> AllocatedUserStack) run" where
  "allocate_user_stack mp space next_slot st pages =
     bind_run (expect (FrameCount_new (PageCount_as_u64 pages))) (\<lambda>frame_count.
     bind_run (allocate_frames_for (allocator st) frame_count FrameRangeOwner.UserStack) (\<lambda>(fa, r).
     bind_run (expect r) (\<lambda>physical_range.
       let stack_size = PageCount_byte_len pages in
       bind_run (assert_run (stack_size < USER_STACK_SLOT_BYTES - PAGE_SIZE)) (\<lambda>_.
       let stack_slot = next_slot; next_slot = next_slot + 1 in
       bind_run (expect (checked_mul stack_slot USER_STACK_SLOT_BYTES)) (\<lambda>stack_slot_offset.
       bind_run (expect (checked_add USER_STACK_REGION_BASE stack_slot_offset)) (\<lambda>base.
       bind_run (expect (UserVirtualAddress_new (VirtAddr base))) (\<lambda>base.
       bind_run (expect (UserPageStart_new base)) (\<lambda>stack_base_page.
       bind_run (expect (UserVirtualAddress_checked_add base stack_size)) (\<lambda>top.
       bind_run (map_stack_pages mp space stack_base_page physical_range (st\<lparr>allocator := fa\<rparr>)
                   (unat (PageCount_as_u64 pages)) 0) (\<lambda>st.
         Done ((next_slot, st), \<lparr>stack_base = base, stack_top = top, stack_physical_range = physical_range,
                                 stack_page_count = pages\<rparr>)))))))))))"

definition allocate_and_map_user_page ::
    "'m mapper \<Rightarrow> UserAddressSpace \<Rightarrow> 'm memory \<Rightarrow> UserPageStart \<Rightarrow> PageTableFlags \<Rightarrow> FrameRangeOwner
       \<Rightarrow> ('m memory \<times> PhysicalFrameStart) run" where
  "allocate_and_map_user_page mp space st virtual_page_start flags owner =
     bind_run (assert_run (UserPageStart_as_u64 virtual_page_start < USER_STACK_REGION_BASE)) (\<lambda>_.
     bind_run (allocate_frame_for (allocator st) owner) (\<lambda>(fa, r).
     bind_run (expect r) (\<lambda>physical_address.
     bind_run (PhysicalFrameStart_as_usize physical_address) (\<lambda>page_pointer.
     bind_run (map_user_page mp space (tables st) fa virtual_page_start physical_address flags) (\<lambda>(m, fa).
       Done (st\<lparr>tables := m, allocator := fa, bytes := zero_frame page_pointer (bytes st)\<rparr>, physical_address))))))"

definition readable_user_range :: "UserVirtualAddress \<Rightarrow> usize \<Rightarrow> UserReadableRange run" where
  "readable_user_range start byte_len = map_run UserReadableRange (expect (UserVirtualRange_new start byte_len))"

definition writable_user_range :: "UserVirtualAddress \<Rightarrow> usize \<Rightarrow> UserWritableRange run" where
  "writable_user_range start byte_len = map_run UserWritableRange (expect (UserVirtualRange_new start byte_len))"

definition verify_user_stack_mapping ::
    "'m mapper \<Rightarrow> UserAddressSpace \<Rightarrow> 'm \<Rightarrow> AllocatedUserStack \<Rightarrow> bool run" where
  "verify_user_stack_mapping mp space m stack =
     bind_run (expect (usize_try_from (stack_byte_len stack))) (\<lambda>stack_size.
     bind_run (expect (checked_sub (UserVirtualAddress_as_u64 (stack_base stack)) PAGE_SIZE)) (\<lambda>guard_page.
     bind_run (expect (UserVirtualAddress_new (VirtAddr guard_page))) (\<lambda>guard_page.
       and_run (bind_run (writable_user_range (stack_base stack) stack_size) (is_user_range_mapped_writable mp space m))
         (map_run Not (bind_run (readable_user_range guard_page 4096) (is_user_range_mapped_readable mp space m))))))"

section \<open>The first stack image\<close>

record PreparedUserStack =
  ps_stack_pointer :: UserVirtualAddress
  ps_argument_count :: u64
  ps_argument_values_pointer :: UserVirtualAddress
  ps_environment_values_pointer :: UserVirtualAddress

record UserStackCursor =
  cursor_stack :: AllocatedUserStack
  cursor_pointer :: UserVirtualAddress

definition UserStackCursor_new :: "AllocatedUserStack \<Rightarrow> UserVirtualAddress \<Rightarrow> UserStackCursor run" where
  "UserStackCursor_new stack pointer =
     bind_run (assert_run (UserVirtualAddress_as_u64 (stack_base stack) < UserVirtualAddress_as_u64 pointer)) (\<lambda>_.
       Done \<lparr>cursor_stack = stack, cursor_pointer = pointer\<rparr>)"

definition push_bytes :: "UserStackCursor \<Rightarrow> u64 \<Rightarrow> (UserStackCursor \<times> UserVirtualAddress) run" where
  "push_bytes self byte_count =
     bind_run (expect (UserVirtualAddress_checked_sub (cursor_pointer self) byte_count)) (\<lambda>next_pointer.
     bind_run (assert_run (UserVirtualAddress_as_u64 (stack_base (cursor_stack self)) \<le> UserVirtualAddress_as_u64 next_pointer)) (\<lambda>_.
       Done (self\<lparr>cursor_pointer := next_pointer\<rparr>, next_pointer)))"

definition cursor_align_down :: "UserStackCursor \<Rightarrow> u64 \<Rightarrow> UserStackCursor run" where
  "cursor_align_down self alignment =
     (let aligned_pointer = UserVirtualAddress_as_u64 (cursor_pointer self) AND NOT (alignment - 1) in
      bind_run (expect (UserVirtualAddress_new (VirtAddr aligned_pointer))) (\<lambda>aligned_pointer.
      bind_run (assert_run (UserVirtualAddress_as_u64 (stack_base (cursor_stack self)) \<le> UserVirtualAddress_as_u64 aligned_pointer)) (\<lambda>_.
        Done (self\<lparr>cursor_pointer := aligned_pointer\<rparr>))))"

text \<open>The identity-mapped kernel address of a stack byte.\<close>

definition stack_pointer :: "UserStackCursor \<Rightarrow> UserVirtualAddress \<Rightarrow> usize run" where
  "stack_pointer self address =
     bind_run (expect (checked_sub (UserVirtualAddress_as_u64 address) (UserVirtualAddress_as_u64 (stack_base (cursor_stack self))))) (\<lambda>offset.
     bind_run (assert_run (offset < stack_byte_len (cursor_stack self))) (\<lambda>_.
     bind_run (expect (PhysAddr_checked_add (PhysicalFrameStart_as_address (pfr_start (stack_physical_range (cursor_stack self)))) offset))
       PhysAddr_as_usize))"

definition write_u64 :: "UserStackCursor \<Rightarrow> (u64 \<Rightarrow> u8) \<Rightarrow> UserVirtualAddress \<Rightarrow> u64 \<Rightarrow> (u64 \<Rightarrow> u8) run" where
  "write_u64 self mem address value =
     bind_run (stack_pointer self address) (\<lambda>pointer. Done (write_slice pointer (to_le_bytes 8 value) mem))"

definition push_c_string_bytes ::
    "(u64 \<Rightarrow> u8) \<Rightarrow> UserStackCursor \<Rightarrow> u8 list \<Rightarrow> (((u64 \<Rightarrow> u8) \<times> UserStackCursor) \<times> UserVirtualAddress) run" where
  "push_c_string_bytes mem stack_cursor value =
     (let len = saturating_add (of_nat (length value) :: usize) 1 in
      bind_run (push_bytes stack_cursor len) (\<lambda>(stack_cursor, pointer).
      bind_run (stack_pointer stack_cursor pointer) (\<lambda>destination.
        let mem = write_slice destination value mem;
            mem = write_slice (destination + of_nat (length value)) [0] mem in
        Done ((mem, stack_cursor), pointer))))"

fun write_pointers ::
    "UserStackCursor \<Rightarrow> (u64 \<Rightarrow> u8) \<Rightarrow> UserVirtualAddress \<Rightarrow> UserVirtualAddress option list \<Rightarrow> nat \<Rightarrow> (u64 \<Rightarrow> u8) run" where
  "write_pointers stack_cursor mem base [] index = Done mem"
| "write_pointers stack_cursor mem base (pointer # pointers) index =
     bind_run (expect (checked_mul (of_nat index) 8)) (\<lambda>offset.
     bind_run (expect (UserVirtualAddress_checked_add base offset)) (\<lambda>slot_address.
     bind_run (expect pointer) (\<lambda>pointer.
     bind_run (write_u64 stack_cursor mem slot_address (UserVirtualAddress_as_u64 pointer)) (\<lambda>mem.
       write_pointers stack_cursor mem base pointers (Suc index)))))"

definition push_pointer_array ::
    "(u64 \<Rightarrow> u8) \<Rightarrow> UserStackCursor \<Rightarrow> UserVirtualAddress option list
       \<Rightarrow> (((u64 \<Rightarrow> u8) \<times> UserStackCursor) \<times> UserVirtualAddress) run" where
  "push_pointer_array mem stack_cursor pointers =
     (let entries = saturating_add (of_nat (length pointers) :: usize) 1 in
      bind_run (expect (checked_mul entries 8)) (\<lambda>byte_count.
      bind_run (push_bytes stack_cursor byte_count) (\<lambda>(stack_cursor, pointer).
      bind_run (write_pointers stack_cursor mem pointer pointers 0) (\<lambda>mem.
      bind_run (expect (checked_mul (of_nat (length pointers)) 8)) (\<lambda>terminator_offset.
      bind_run (expect (UserVirtualAddress_checked_add pointer terminator_offset)) (\<lambda>terminator_address.
      bind_run (write_u64 stack_cursor mem terminator_address 0) (\<lambda>mem.
        Done ((mem, stack_cursor), pointer))))))))"

text \<open>
  The strings are pushed from the last to the first; the fixed pointer arrays of the code are
  the list of optional pointers, of which the code only reads the first \<open>length values\<close>.
\<close>

fun push_strings ::
    "(u64 \<Rightarrow> u8) \<Rightarrow> UserStackCursor \<Rightarrow> u8 list list \<Rightarrow> UserVirtualAddress option list \<Rightarrow> nat list
       \<Rightarrow> (((u64 \<Rightarrow> u8) \<times> UserStackCursor) \<times> UserVirtualAddress option list) run" where
  "push_strings mem stack_cursor values pointers [] = Done ((mem, stack_cursor), pointers)"
| "push_strings mem stack_cursor values pointers (index # indices) =
     bind_run (byte_at values index) (\<lambda>value.
     bind_run (push_c_string_bytes mem stack_cursor value) (\<lambda>((mem, stack_cursor), pointer).
     bind_run (byte_set pointers index (Some pointer)) (\<lambda>pointers.
       push_strings mem stack_cursor values pointers indices)))"

abbreviation MAX_USER_ENTRY_ARGUMENTS :: nat where "MAX_USER_ENTRY_ARGUMENTS \<equiv> 8"
abbreviation MAX_USER_ENTRY_ENVIRONMENT :: nat where "MAX_USER_ENTRY_ENVIRONMENT \<equiv> 8"

text \<open>The checks made before anything is written.\<close>

definition check_initial_stack ::
    "'m mapper \<Rightarrow> UserAddressSpace \<Rightarrow> 'm \<Rightarrow> AllocatedUserStack \<Rightarrow> u8 list list \<Rightarrow> u8 list list \<Rightarrow> unit run" where
  "check_initial_stack mp space m stack arguments environment =
     bind_run (assert_run (UserVirtualAddress_as_u64 (stack_base stack) < UserVirtualAddress_as_u64 (stack_top stack))) (\<lambda>_.
     bind_run (expect (usize_try_from (stack_byte_len stack))) (\<lambda>stack_size.
     bind_run (writable_user_range (stack_base stack) stack_size) (\<lambda>range.
     bind_run (is_user_range_mapped_writable mp space m range) (\<lambda>mapped.
     bind_run (assert_run mapped) (\<lambda>_.
     bind_run (assert_run (length arguments \<le> MAX_USER_ENTRY_ARGUMENTS)) (\<lambda>_.
     bind_run (assert_run (length environment \<le> MAX_USER_ENTRY_ENVIRONMENT)) (\<lambda>_.
       assert_run (list_all (\<lambda>value. 0 \<notin> set value) (arguments @ environment)))))))))"

definition prepare_initial_stack_bytes ::
    "'m mapper \<Rightarrow> UserAddressSpace \<Rightarrow> 'm memory \<Rightarrow> AllocatedUserStack \<Rightarrow> u8 list list \<Rightarrow> u8 list list
       \<Rightarrow> ('m memory \<times> PreparedUserStack) run" where
  "prepare_initial_stack_bytes mp space st stack arguments environment =
     bind_run (check_initial_stack mp space (tables st) stack arguments environment) (\<lambda>_.
     bind_run (UserStackCursor_new stack (stack_top stack)) (\<lambda>stack_cursor.
     bind_run (push_strings (bytes st) stack_cursor arguments (replicate MAX_USER_ENTRY_ARGUMENTS None)
                 (rev [0..<length arguments])) (\<lambda>((mem, stack_cursor), argument_pointers).
     bind_run (push_strings mem stack_cursor environment (replicate MAX_USER_ENTRY_ENVIRONMENT None)
                 (rev [0..<length environment])) (\<lambda>((mem, stack_cursor), environment_pointers).
     bind_run (cursor_align_down stack_cursor 8) (\<lambda>stack_cursor.
     bind_run (push_pointer_array mem stack_cursor (take (length environment) environment_pointers))
       (\<lambda>((mem, stack_cursor), environment_values_pointer).
     bind_run (push_pointer_array mem stack_cursor (take (length arguments) argument_pointers))
       (\<lambda>((mem, stack_cursor), argument_values_pointer).
     bind_run (cursor_align_down stack_cursor 16) (\<lambda>stack_cursor.
       Done (st\<lparr>bytes := mem\<rparr>, \<lparr>ps_stack_pointer = cursor_pointer stack_cursor,
              ps_argument_count = of_nat (length arguments),
              ps_argument_values_pointer = argument_values_pointer,
              ps_environment_values_pointer = environment_values_pointer\<rparr>)))))))))"

end
