(* ===== verification/Elf_Loader.thy ===== *)
theory Elf_Loader
  imports Elf_Parser User_Stack
begin

text \<open>
  The user program loader of \<open>kernel/elf/loader.rs\<close>: validation of the load segments, the pages
  they map and the bytes they copy, and the validation-only pass used before a program starts.
  The two loops over the program headers share their per-segment checks, as in the code.
\<close>

section \<open>Segments\<close>

abbreviation PF_EXECUTE :: u32 where "PF_EXECUTE \<equiv> 1"
abbreviation PF_WRITE :: u32 where "PF_WRITE \<equiv> 2"
abbreviation PF_READ :: u32 where "PF_READ \<equiv> 4"

record LoadedElf =
  entry_point :: UserVirtualAddress
  loaded_heap_start :: UserVirtualAddress

datatype LoadError = Elf ElfError | EntryOutOfRange | NoLoadSegments | SegmentAddressOverflow
  | SegmentAddressOutOfRange | SegmentAlignmentUnsupported | SegmentPermissionUnsupported
  | SegmentFileOutOfBounds | SegmentFileLargerThanMemory

fun LoadError_message :: "LoadError \<Rightarrow> string" where
  "LoadError_message (Elf e) = ElfError_message e"
| "LoadError_message EntryOutOfRange = ''ELF entry point is outside user space''"
| "LoadError_message NoLoadSegments = ''ELF contains no PT_LOAD segments''"
| "LoadError_message SegmentAddressOverflow = ''ELF segment address overflowed''"
| "LoadError_message SegmentAddressOutOfRange = ''ELF segment is outside user space''"
| "LoadError_message SegmentAlignmentUnsupported = ''ELF segment alignment is unsupported''"
| "LoadError_message SegmentPermissionUnsupported = ''ELF segment permission is unsupported''"
| "LoadError_message SegmentFileOutOfBounds = ''ELF segment file range is out of bounds''"
| "LoadError_message SegmentFileLargerThanMemory = ''ELF segment file size exceeds memory size''"

record LoadSegmentRange =
  memory_range :: UserVirtualRange
  first_page :: UserPageStart
  last_page :: UserPageStart
  file_backed_range :: "UserVirtualRange option"

definition file_backed_range_for :: "UserVirtualAddress \<Rightarrow> ProgramHeader \<Rightarrow> (LoadError + UserVirtualRange option) run" where
  "file_backed_range_for segment_start program_header =
     (if file_size program_header = 0 then Done (Inr None)
      else try_run (ok_or (usize_try_from (file_size program_header)) SegmentAddressOverflow) (\<lambda>size.
           try_run (ok_or (UserVirtualRange_new segment_start size) SegmentAddressOutOfRange) (\<lambda>r.
             Done (Inr (Some r)))))"

definition from_program_header :: "ProgramHeader \<Rightarrow> (LoadError + LoadSegmentRange) run" where
  "from_program_header program_header =
     (if memory_size program_header = 0 then Done (Inl SegmentAddressOutOfRange)
      else try_run (ok_or (UserVirtualAddress_new (VirtAddr (virtual_address program_header))) SegmentAddressOutOfRange) (\<lambda>segment_start.
           try_run (ok_or (usize_try_from (memory_size program_header)) SegmentAddressOverflow) (\<lambda>size.
           try_run (ok_or (UserVirtualRange_new segment_start size) SegmentAddressOutOfRange) (\<lambda>range.
           bind_run (UserVirtualRange_end_exclusive range) (\<lambda>end_exclusive.
           try_run (ok_or (VirtAddr_checked_sub end_exclusive 1) SegmentAddressOverflow) (\<lambda>last_byte_address.
           try_run (ok_or (UserVirtualAddress_new last_byte_address) SegmentAddressOutOfRange) (\<lambda>last_byte_address.
           try_run (ok_or (UserVirtualAddress_align_down_to_page segment_start) SegmentAddressOutOfRange) (\<lambda>first.
           try_run (ok_or (UserVirtualAddress_align_down_to_page last_byte_address) SegmentAddressOutOfRange) (\<lambda>last.
           try_run (file_backed_range_for segment_start program_header) (\<lambda>file_range.
             Done (Inr \<lparr>memory_range = range, first_page = first, last_page = last, file_backed_range = file_range\<rparr>)))))))))))"

definition heap_start_after_segment :: "LoadSegmentRange \<Rightarrow> (LoadError + UserPageStart) run" where
  "heap_start_after_segment self =
     bind_run (UserVirtualRange_end_exclusive (memory_range self)) (\<lambda>end_exclusive.
     try_run (ok_or (UserVirtualAddress_new end_exclusive) SegmentAddressOutOfRange) (\<lambda>end_address.
       ok_or (UserVirtualAddress_align_up_to_page end_address) SegmentAddressOutOfRange))"

definition segment_contains :: "LoadSegmentRange \<Rightarrow> UserVirtualAddress \<Rightarrow> bool run" where
  "segment_contains self address =
     (if UserVirtualAddress_as_u64 (uvr_start (memory_range self)) \<le> UserVirtualAddress_as_u64 address
      then bind_run (UserVirtualRange_end_exclusive (memory_range self)) (\<lambda>e.
             Done (UserVirtualAddress_as_u64 address < VirtAddr_as_u64 e))
      else Done False)"

definition file_backed_range_fits :: "LoadSegmentRange \<Rightarrow> bool run" where
  "file_backed_range_fits self =
     (case file_backed_range self of
        None \<Rightarrow> Done True
      | Some rng \<Rightarrow>
          bind_run (UserVirtualRange_end_exclusive rng) (\<lambda>e.
          bind_run (UserVirtualRange_end_exclusive (memory_range self)) (\<lambda>m.
            Done (VirtAddr_as_u64 e \<le> VirtAddr_as_u64 m))))"

definition max_user_page_start :: "UserPageStart option \<Rightarrow> UserPageStart \<Rightarrow> UserPageStart" where
  "max_user_page_start current candidate =
     (case current of
        Some c \<Rightarrow> if UserPageStart_as_u64 candidate \<le> UserPageStart_as_u64 c then c else candidate
      | None \<Rightarrow> candidate)"

definition validate_entry_point :: "u64 \<Rightarrow> (LoadError + UserVirtualAddress) run" where
  "validate_entry_point e = ok_or (UserVirtualAddress_new (VirtAddr e)) EntryOutOfRange"

definition is_power_of_two :: "u64 \<Rightarrow> bool" where
  "is_power_of_two w \<longleftrightarrow> w \<noteq> 0 \<and> w AND (w - 1) = 0"

definition has_supported_alignment :: "ProgramHeader \<Rightarrow> bool" where
  "has_supported_alignment ph =
     (let a = alignment ph; valid_alignment = (a \<le> 1 \<or> is_power_of_two a) in
      valid_alignment \<and> is_multiple_of (virtual_address ph) PAGE_SIZE \<and> is_multiple_of (ph_offset ph) PAGE_SIZE
      \<and> (a \<le> 1 \<or> virtual_address ph mod a = ph_offset ph mod a))"

definition has_supported_permissions :: "u32 \<Rightarrow> bool" where
  "has_supported_permissions segment_flags =
     (let readable = (segment_flags AND PF_READ \<noteq> 0); writable = (segment_flags AND PF_WRITE \<noteq> 0);
          executable = (segment_flags AND PF_EXECUTE \<noteq> 0) in
      readable \<and> \<not> (writable \<and> executable))"

definition executable_segment_contains_entry :: "ProgramHeader \<Rightarrow> UserVirtualAddress \<Rightarrow> bool run" where
  "executable_segment_contains_entry ph e =
     (if ph_flags ph AND PF_EXECUTE = 0 then Done False
      else bind_run (from_program_header ph) (\<lambda>r.
        case r of Inl _ \<Rightarrow> Done False | Inr segment_range \<Rightarrow> segment_contains segment_range e))"

text \<open>The file range of a segment: \<open>offset + file_size\<close> must not overflow and must lie in the image.\<close>

definition file_range_in_image :: "u8 list \<Rightarrow> ProgramHeader \<Rightarrow> (LoadError + unit) run" where
  "file_range_in_image img ph =
     try_run (ok_or (checked_add (ph_offset ph) (file_size ph)) SegmentFileOutOfBounds) (\<lambda>file_end.
       case usize_try_from file_end of
         None \<Rightarrow> Done (Inl SegmentFileOutOfBounds)
       | Some e \<Rightarrow> if length img < unat e then Done (Inl SegmentFileOutOfBounds) else Done (Inr ()))"

definition validate_load_segment :: "u8 list \<Rightarrow> ProgramHeader \<Rightarrow> (LoadError + unit) run" where
  "validate_load_segment img ph =
     (if memory_size ph = 0 then Done (Inr ())
      else if memory_size ph < file_size ph then Done (Inl SegmentFileLargerThanMemory)
      else if \<not> has_supported_alignment ph then Done (Inl SegmentAlignmentUnsupported)
      else if \<not> has_supported_permissions (ph_flags ph) then Done (Inl SegmentPermissionUnsupported)
      else try_run (from_program_header ph) (\<lambda>segment_range.
           try_run (file_range_in_image img ph) (\<lambda>_.
           bind_run (file_backed_range_fits segment_range) (\<lambda>fits.
             if fits then Done (Inr ()) else Done (Inl SegmentFileLargerThanMemory)))))"

definition page_flags_for_segment :: "u32 \<Rightarrow> PageTableFlags" where
  "page_flags_for_segment segment_flags =
     (let page_flags = {PRESENT} \<union> {USER_ACCESSIBLE};
          page_flags = (if segment_flags AND PF_WRITE \<noteq> 0 then page_flags \<union> {WRITABLE} else page_flags) in
      if segment_flags AND PF_EXECUTE = 0 then page_flags \<union> {NO_EXECUTE} else page_flags)"

definition segment_permission_label :: "u32 \<Rightarrow> string" where
  "segment_permission_label segment_flags =
     (case (segment_flags AND PF_READ \<noteq> 0, segment_flags AND PF_WRITE \<noteq> 0, segment_flags AND PF_EXECUTE \<noteq> 0) of
        (True, False, True) \<Rightarrow> ''R-X''
      | (True, True, False) \<Rightarrow> ''RW-''
      | (True, False, False) \<Rightarrow> ''R--''
      | _ \<Rightarrow> ''unsupported'')"

section \<open>Mapping a segment\<close>

text \<open>
  \<open>copy_segment_page\<close> writes the part of the file that falls into one page through the page's
  frame. The subtractions of the code are checked here: they panic on underflow.
\<close>

definition copy_segment_page ::
    "u8 list \<Rightarrow> ProgramHeader \<Rightarrow> LoadSegmentRange \<Rightarrow> UserPageStart \<Rightarrow> PhysicalFrameStart \<Rightarrow> (u64 \<Rightarrow> u8)
       \<Rightarrow> (LoadError + (u64 \<Rightarrow> u8)) run" where
  "copy_segment_page img ph segment_range page_start physical_address mem =
     (case file_backed_range segment_range of
        None \<Rightarrow> Done (Inr mem)
      | Some file_range \<Rightarrow>
          let page = UserPageStart_as_u64 page_start; file_start = UserVirtualAddress_as_u64 (uvr_start file_range);
              copy_start = max page file_start in
          try_run (ok_or (checked_add page PAGE_SIZE) SegmentAddressOverflow) (\<lambda>page_end.
          bind_run (UserVirtualRange_end_exclusive file_range) (\<lambda>file_end.
          let copy_end = min page_end (VirtAddr_as_u64 file_end) in
          if copy_end \<le> copy_start then Done (Inr mem)
          else
          bind_run (expect (checked_sub copy_start file_start)) (\<lambda>skipped.
          try_run (ok_or (checked_add (ph_offset ph) skipped) SegmentFileOutOfBounds) (\<lambda>source_offset.
          bind_run (expect (checked_sub copy_end copy_start)) (\<lambda>copy_bytes.
          try_run (ok_or (usize_try_from copy_bytes) SegmentFileOutOfBounds) (\<lambda>copy_length.
          try_run (ok_or (usize_try_from source_offset) SegmentFileOutOfBounds) (\<lambda>source_start.
          try_run (ok_or (checked_add source_start copy_length) SegmentFileOutOfBounds) (\<lambda>source_end.
          try_run (ok_or (slice_get img (unat source_start) (unat source_end)) SegmentFileOutOfBounds) (\<lambda>source.
          bind_run (expect (checked_sub copy_start page)) (\<lambda>page_offset.
          try_run (ok_or (usize_try_from page_offset) SegmentAddressOverflow) (\<lambda>destination_offset.
          bind_run (PhysAddr_as_usize (PhysicalFrameStart_as_address physical_address)) (\<lambda>frame.
            Done (Inr (write_slice (frame + destination_offset) source mem)))))))))))))))"

text \<open>The page loop of \<open>map_load_segment\<close>. On an error the pages mapped so far stay mapped.\<close>

function map_segment_pages ::
    "'m mapper \<Rightarrow> UserAddressSpace \<Rightarrow> u8 list \<Rightarrow> ProgramHeader \<Rightarrow> LoadSegmentRange \<Rightarrow> PageTableFlags
       \<Rightarrow> 'm memory \<Rightarrow> UserPageStart \<Rightarrow> ('m memory \<times> (LoadError + unit)) run" where
  "map_segment_pages mp space img ph segment_range page_flags st page_start =
     bind_run (allocate_and_map_user_page mp space st page_start page_flags FrameRangeOwner.UserElf) (\<lambda>(st, physical_address).
     bind_run (copy_segment_page img ph segment_range page_start physical_address (bytes st)) (\<lambda>r.
       case r of
         Inl e \<Rightarrow> Done (st, Inl e)
       | Inr mem \<Rightarrow>
           if page_start = last_page segment_range then Done (st\<lparr>bytes := mem\<rparr>, Inr ())
           else case UserPageStart_checked_add page_start PAGE_SIZE of
                  None \<Rightarrow> Done (st\<lparr>bytes := mem\<rparr>, Inl SegmentAddressOverflow)
                | Some next_page \<Rightarrow>
                    map_segment_pages mp space img ph segment_range page_flags (st\<lparr>bytes := mem\<rparr>) next_page))"
  by pat_completeness auto
termination
proof (relation "measure (\<lambda>(mp, space, img, ph, sr, fl, st, page). unat USER_SPACE_END - unat (UserPageStart_as_u64 page))", goal_cases)
  case (2 mp space img ph sr fl st page)
  from UserPageStart_checked_add_increases [OF 2(6)] show ?case by simp
qed simp

declare map_segment_pages.simps [simp del]

definition map_load_segment ::
    "'m mapper \<Rightarrow> UserAddressSpace \<Rightarrow> 'm memory \<Rightarrow> u8 list \<Rightarrow> ProgramHeader \<Rightarrow> LoadSegmentRange
       \<Rightarrow> ('m memory \<times> (LoadError + unit)) run" where
  "map_load_segment mp space st img ph segment_range =
     (if memory_size ph = 0 then Done (st, Inr ())
      else bind_run (file_range_in_image img ph) (\<lambda>r.
        case r of
          Inl e \<Rightarrow> Done (st, Inl e)
        | Inr _ \<Rightarrow> map_segment_pages mp space img ph segment_range (page_flags_for_segment (ph_flags ph)) st
                    (first_page segment_range)))"

section \<open>Loading\<close>

text \<open>The loop variables of the two loaders.\<close>

record LoadScan =
  load_segments :: u16
  entry_segment_found :: bool
  scan_heap_start :: "UserPageStart option"

text \<open>The checks both loaders make on one \<open>PT_LOAD\<close> segment, with the new loop variables.\<close>

definition scan_segment ::
    "u8 list \<Rightarrow> UserVirtualAddress \<Rightarrow> ProgramHeader \<Rightarrow> LoadScan \<Rightarrow> (LoadError + LoadScan \<times> LoadSegmentRange) run" where
  "scan_segment img e ph scan =
     try_run (validate_load_segment img ph) (\<lambda>_.
     try_run (from_program_header ph) (\<lambda>segment_range.
     try_run (heap_start_after_segment segment_range) (\<lambda>segment_heap_start.
     bind_run (executable_segment_contains_entry ph e) (\<lambda>found.
       Done (Inr (\<lparr>load_segments = saturating_add (load_segments scan) 1,
                   entry_segment_found = (entry_segment_found scan \<or> found),
                   scan_heap_start = Some (max_user_page_start (scan_heap_start scan) segment_heap_start)\<rparr>,
                  segment_range))))))"

definition finish_load :: "UserVirtualAddress \<Rightarrow> LoadScan \<Rightarrow> LoadError + LoadedElf" where
  "finish_load e scan =
     (if load_segments scan = 0 then Inl NoLoadSegments
      else if \<not> entry_segment_found scan then Inl EntryOutOfRange
      else case scan_heap_start scan of
             None \<Rightarrow> Inl NoLoadSegments
           | Some h \<Rightarrow> Inr \<lparr>entry_point = e, loaded_heap_start = UserPageStart_as_address h\<rparr>)"

abbreviation no_segments :: LoadScan where
  "no_segments \<equiv> \<lparr>load_segments = 0, entry_segment_found = False, scan_heap_start = None\<rparr>"

lemma iterator_advances:
  assumes "ProgramHeaderIter_next it = Done (it', Some r)"
  shows "unat (program_header_count (iter_header it')) - unat (next_index it')
     < unat (program_header_count (iter_header it)) - unat (next_index it)"
proof -
  have lt: "next_index it < program_header_count (iter_header it)"
    and it': "\<exists>i. checked_add (next_index it) 1 = Some i \<and> it' = it\<lparr>next_index := i\<rparr>"
    using assms
    by (auto simp: ProgramHeaderIter_next_def Let_def bind_run_Done_iff expect_Done_iff not_le
        split: if_splits option.splits)
  then show ?thesis by (auto simp: checked_add_Some_iff word_less_nat_alt)
qed

function scan_headers ::
    "u8 list \<Rightarrow> UserVirtualAddress \<Rightarrow> ProgramHeaderIter \<Rightarrow> LoadScan \<Rightarrow> (LoadError + LoadScan) run" where
  "scan_headers img e it scan =
     bind_run (ProgramHeaderIter_next it) (\<lambda>(it, item).
       case item of
         None \<Rightarrow> Done (Inr scan)
       | Some (Inl err) \<Rightarrow> Done (Inl (Elf err))
       | Some (Inr ph) \<Rightarrow>
           if \<not> is_load ph then scan_headers img e it scan
           else try_run (scan_segment img e ph scan) (\<lambda>(scan, _). scan_headers img e it scan))"
  by pat_completeness auto
termination
  by (relation "measure (\<lambda>(img, e, it, scan). unat (program_header_count (iter_header it)) - unat (next_index it))")
    (auto dest: iterator_advances)

declare scan_headers.simps [simp del]

definition load_user_elf_metadata :: "u8 list \<Rightarrow> (LoadError + LoadedElf) run" where
  "load_user_elf_metadata img =
     bind_run (ElfFile_parse img) (\<lambda>r. case r of
       Inl err \<Rightarrow> Done (Inl (Elf err))
     | Inr elf \<Rightarrow>
         try_run (validate_entry_point (entry (elf_header elf))) (\<lambda>e.
         try_run (scan_headers img e (program_headers elf) no_segments) (\<lambda>scan.
           Done (finish_load e scan))))"

definition validate_user_program_image :: "u8 list \<Rightarrow> bool run" where
  "validate_user_program_image img =
     bind_run (load_user_elf_metadata img) (\<lambda>r. case r of Inr _ \<Rightarrow> Done True | Inl _ \<Rightarrow> Done False)"

function load_headers ::
    "'m mapper \<Rightarrow> UserAddressSpace \<Rightarrow> u8 list \<Rightarrow> UserVirtualAddress \<Rightarrow> 'm memory \<Rightarrow> ProgramHeaderIter \<Rightarrow> LoadScan
       \<Rightarrow> ('m memory \<times> (LoadError + LoadScan)) run" where
  "load_headers mp space img e st it scan =
     bind_run (ProgramHeaderIter_next it) (\<lambda>(it, item).
       case item of
         None \<Rightarrow> Done (st, Inr scan)
       | Some (Inl err) \<Rightarrow> Done (st, Inl (Elf err))
       | Some (Inr ph) \<Rightarrow>
           if \<not> is_load ph then load_headers mp space img e st it scan
           else bind_run (scan_segment img e ph scan) (\<lambda>r. case r of
                  Inl err \<Rightarrow> Done (st, Inl err)
                | Inr (scan, segment_range) \<Rightarrow>
                    bind_run (map_load_segment mp space st img ph segment_range) (\<lambda>(st, r). case r of
                      Inl err \<Rightarrow> Done (st, Inl err)
                    | Inr _ \<Rightarrow> load_headers mp space img e st it scan)))"
  by pat_completeness auto
termination
  by (relation "measure (\<lambda>(mp, space, img, e, st, it, scan). unat (program_header_count (iter_header it)) - unat (next_index it))")
    (auto dest: iterator_advances)

declare load_headers.simps [simp del]

definition load_user_elf ::
    "'m mapper \<Rightarrow> UserAddressSpace \<Rightarrow> 'm memory \<Rightarrow> u8 list \<Rightarrow> ('m memory \<times> (LoadError + LoadedElf)) run" where
  "load_user_elf mp space st img =
     bind_run (ElfFile_parse img) (\<lambda>r. case r of
       Inl err \<Rightarrow> Done (st, Inl (Elf err))
     | Inr elf \<Rightarrow>
         bind_run (validate_entry_point (entry (elf_header elf))) (\<lambda>r. case r of
           Inl err \<Rightarrow> Done (st, Inl err)
         | Inr e \<Rightarrow>
             bind_run (load_headers mp space img e st (program_headers elf) no_segments) (\<lambda>(st, r). case r of
               Inl err \<Rightarrow> Done (st, Inl err)
             | Inr scan \<Rightarrow> Done (st, finish_load e scan))))"

definition load_user_program ::
    "'m mapper \<Rightarrow> UserAddressSpace \<Rightarrow> 'm memory \<Rightarrow> u8 list \<Rightarrow> ('m memory \<times> LoadedElf) run" where
  "load_user_program mp space st img =
     bind_run (load_user_elf mp space st img) (\<lambda>(st, r). case r of Inl _ \<Rightarrow> Panic | Inr loaded \<Rightarrow> Done (st, loaded))"

section \<open>The self-check\<close>

definition elf_write_u16 :: "u8 list \<Rightarrow> nat \<Rightarrow> u16 \<Rightarrow> u8 list run" where
  "elf_write_u16 img offset v = copy_into img offset (offset + 2) (to_le_bytes 2 v)"

definition elf_write_u32 :: "u8 list \<Rightarrow> nat \<Rightarrow> u32 \<Rightarrow> u8 list run" where
  "elf_write_u32 img offset v = copy_into img offset (offset + 4) (to_le_bytes 4 v)"

definition elf_write_u64 :: "u8 list \<Rightarrow> nat \<Rightarrow> u64 \<Rightarrow> u8 list run" where
  "elf_write_u64 img offset v = copy_into img offset (offset + 8) (to_le_bytes 8 v)"

definition valid_minimal_elf :: "u8 list run" where
  "valid_minimal_elf =
     bind_run (copy_into (replicate 128 0) 0 4 ELF_MAGIC) (\<lambda>img.
     bind_run (byte_set img 4 2) (\<lambda>img.
     bind_run (byte_set img 5 1) (\<lambda>img.
     bind_run (byte_set img 6 1) (\<lambda>img.
     bind_run (elf_write_u16 img 16 2) (\<lambda>img.
     bind_run (elf_write_u16 img 18 0x3e) (\<lambda>img.
     bind_run (elf_write_u32 img 20 1) (\<lambda>img.
     bind_run (elf_write_u64 img 24 USER_PROGRAM_BASE) (\<lambda>img.
     bind_run (elf_write_u64 img 32 64) (\<lambda>img.
     bind_run (elf_write_u16 img 52 64) (\<lambda>img.
     bind_run (elf_write_u16 img 54 56) (\<lambda>img.
     bind_run (elf_write_u16 img 56 1) (\<lambda>img.
     bind_run (elf_write_u32 img 64 1) (\<lambda>img.
     bind_run (elf_write_u32 img (64 + 4) (PF_READ OR PF_EXECUTE)) (\<lambda>img.
     bind_run (elf_write_u64 img (64 + 8) 0) (\<lambda>img.
     bind_run (elf_write_u64 img (64 + 16) USER_PROGRAM_BASE) (\<lambda>img.
     bind_run (elf_write_u64 img (64 + 32) 128) (\<lambda>img.
     bind_run (elf_write_u64 img (64 + 40) PAGE_SIZE) (\<lambda>img.
       elf_write_u64 img (64 + 48) PAGE_SIZE))))))))))))))))))"

definition rejects_mutated_elf :: "(u8 list \<Rightarrow> u8 list run) \<Rightarrow> bool run" where
  "rejects_mutated_elf mutate =
     bind_run valid_minimal_elf (\<lambda>img. bind_run (mutate img) (\<lambda>img.
     bind_run (load_user_elf_metadata img) (\<lambda>r. case r of Inl _ \<Rightarrow> Done True | Inr _ \<Rightarrow> Done False)))"

definition invalid_elf_cases :: "(u8 list \<Rightarrow> u8 list run) list" where
  "invalid_elf_cases =
     [\<lambda>img. byte_set img 0 0, \<lambda>img. byte_set img 4 1, \<lambda>img. byte_set img 5 2, \<lambda>img. elf_write_u16 img 18 0x28,
      \<lambda>img. elf_write_u64 img 32 512, \<lambda>img. elf_write_u64 img (64 + 40) 32, \<lambda>img. elf_write_u64 img (64 + 48) 24,
      \<lambda>img. elf_write_u64 img 24 (USER_PROGRAM_BASE + PAGE_SIZE),
      \<lambda>img. elf_write_u32 img (64 + 4) (PF_READ OR PF_WRITE OR PF_EXECUTE), \<lambda>img. elf_write_u32 img (64 + 4) PF_EXECUTE]"

fun count_rejections :: "(u8 list \<Rightarrow> u8 list run) list \<Rightarrow> nat \<Rightarrow> nat run" where
  "count_rejections [] passed = Done passed"
| "count_rejections (c # cs) passed =
     bind_run (rejects_mutated_elf c) (\<lambda>b. count_rejections cs (if b then passed + 1 else passed))"

definition verify_invalid_elf_rejections :: "bool run" where
  "verify_invalid_elf_rejections = bind_run (count_rejections invalid_elf_cases 0) (\<lambda>passed. Done (passed = 10))"

end
