(* ===== verification/Elf_Segments.thy ===== *)
theory Elf_Segments
  imports Elf_Loader
begin

text \<open>
  What the checks on a load segment mean: \<open>segment_ok\<close> states it over numbers, and the checks of
  the code accept a segment exactly then.
\<close>

definition alignment_ok :: "ProgramHeader \<Rightarrow> bool" where
  "alignment_ok ph \<longleftrightarrow> 4096 dvd unat (virtual_address ph) \<and> 4096 dvd unat (ph_offset ph)
     \<and> (unat (alignment ph) \<le> 1 \<or> (\<exists>k. unat (alignment ph) = 2 ^ k)
          \<and> unat (virtual_address ph) mod unat (alignment ph) = unat (ph_offset ph) mod unat (alignment ph))"

definition segment_ok :: "u8 list \<Rightarrow> ProgramHeader \<Rightarrow> bool" where
  "segment_ok img ph \<longleftrightarrow> 0 < unat (memory_size ph) \<and> unat (file_size ph) \<le> unat (memory_size ph)
     \<and> alignment_ok ph \<and> bit (ph_flags ph) 2 \<and> \<not> (bit (ph_flags ph) 1 \<and> bit (ph_flags ph) 0)
     \<and> 0 < unat (virtual_address ph) \<and> unat (virtual_address ph) + unat (memory_size ph) \<le> 0x7ffffffff000
     \<and> unat (ph_offset ph) + unat (file_size ph) \<le> length img"

definition segment_range_of :: "ProgramHeader \<Rightarrow> LoadSegmentRange" where
  "segment_range_of ph = (let u = UserVirtualAddress (VirtAddr (virtual_address ph)) in
     \<lparr>memory_range = \<lparr>uvr_start = u, uvr_byte_len = memory_size ph\<rparr>, first_page = UserPageStart u,
      last_page = UserPageStart (UserVirtualAddress (VirtAddr_align_down_to_page (VirtAddr (virtual_address ph + memory_size ph - 1)))),
      file_backed_range = (if file_size ph = 0 then None else Some \<lparr>uvr_start = u, uvr_byte_len = file_size ph\<rparr>)\<rparr>)"

lemma flag_bits:
  fixes fl :: u32
  shows "fl AND PF_EXECUTE = 0 \<longleftrightarrow> \<not> bit fl 0" "fl AND PF_WRITE = 0 \<longleftrightarrow> \<not> bit fl 1" "fl AND PF_READ = 0 \<longleftrightarrow> \<not> bit fl 2"
  using and_exp_eq_0_iff_not_bit [of fl 0] and_exp_eq_0_iff_not_bit [of fl 1] and_exp_eq_0_iff_not_bit [of fl 2] by simp_all

lemma supported_permissions_iff:
  "has_supported_permissions fl \<longleftrightarrow> bit fl 2 \<and> \<not> (bit fl 1 \<and> bit fl 0)"
  by (simp add: has_supported_permissions_def flag_bits)

lemma is_power_of_two_iff: "is_power_of_two w \<longleftrightarrow> (\<exists>k. unat w = 2 ^ k)"
proof
  have bit: "bit x k" if "2 ^ k \<le> unat x" "unat x < 2 * 2 ^ k" for x :: u64 and k
  proof -
    have "unat x div 2 ^ k = 1" using that by (intro div_nat_eqI) auto
    then have "bit (unat x) k" by (simp add: bit_iff_odd)
    then show ?thesis by (simp add: bit_unsigned_iff)
  qed
  assume p: "is_power_of_two w"
  then have "1 \<le> unat w" by (simp add: is_power_of_two_def Suc_le_eq unat_gt_0)
  then obtain k where k: "2 ^ k \<le> unat w" "unat w < 2 ^ (k + 1)" using ex_power_ivl1 [of 2 "unat w"] by auto
  have "unat w = 2 ^ k"
  proof (rule ccontr)
    assume "unat w \<noteq> 2 ^ k"
    moreover have "unat (w - 1) = unat w - 1" using \<open>1 \<le> unat w\<close> by (simp add: unat_minus_one unat_eq_0 flip: unat_gt_0)
    ultimately have "bit (w AND (w - 1)) k" using k bit [of k w] bit [of k "w - 1"] by (simp add: bit_and_iff)
    then show False using p by (simp add: is_power_of_two_def)
  qed
  then show "\<exists>k. unat w = 2 ^ k" by blast
next
  assume "\<exists>k. unat w = 2 ^ k"
  then obtain k where k: "unat w = 2 ^ k" by blast
  then have "(2 :: nat) ^ k < 2 ^ 64" using unat_u64_bound [of w] by simp
  then have "k < 64" by (intro power_less_imp_less_exp [of "2 :: nat" k 64]) simp_all
  have w: "w = 2 ^ k" using arg_cong [OF k, of "of_nat :: nat \<Rightarrow> u64"] by simp
  have "w AND (w - 1) = take_bit k (2 ^ k)"
    unfolding w take_bit_eq_mask mask_eq_exp_minus_1 by (simp add: and.commute)
  also have "\<dots> = 0" by (simp add: take_bit_eq_mod)
  finally show "is_power_of_two w" using \<open>k < 64\<close> by (simp add: is_power_of_two_def w)
qed

lemma supported_alignment_iff: "has_supported_alignment ph \<longleftrightarrow> alignment_ok ph"
  by (auto simp: has_supported_alignment_def alignment_ok_def is_power_of_two_iff is_multiple_of_page word_le_nat_alt
      word_unat_eq_iff unat_mod Let_def)

section \<open>The range of a segment\<close>

abbreviation segment_end :: "ProgramHeader \<Rightarrow> nat" where
  "segment_end ph \<equiv> unat (virtual_address ph) + unat (memory_size ph)"

lemma user_address_new:
  "UserVirtualAddress_new (VirtAddr a) = (if 0 < unat a \<and> unat a < 0x800000000000 then Some (UserVirtualAddress (VirtAddr a)) else None)"
  by (simp add: UserVirtualAddress_new_def word_less_nat_alt unat_gt_0)

lemma user_range_new:
  assumes "0 < unat a" "unat a < 0x800000000000"
  shows "UserVirtualRange_new (UserVirtualAddress (VirtAddr a)) n
     = (if 0 < unat n \<and> unat a + unat n \<le> 0x800000000000 then Some \<lparr>uvr_start = UserVirtualAddress (VirtAddr a), uvr_byte_len = n\<rparr> else None)"
proof -
  let ?r = "\<lparr>uvr_start = UserVirtualAddress (VirtAddr a), uvr_byte_len = n\<rparr>"
  have ok: "user_address_ok (UserVirtualAddress (VirtAddr a))"
    using assms by (simp add: user_address_ok_unat UserVirtualAddress_as_u64_def)
  have r: "user_range_ok ?r \<longleftrightarrow> 0 < unat n \<and> unat a + unat n \<le> 0x800000000000"
    using ok by (simp add: user_range_ok_def UserVirtualAddress_as_u64_def unat_gt_0)
  show ?thesis
  proof (cases "UserVirtualRange_new (UserVirtualAddress (VirtAddr a)) n")
    case None
    then show ?thesis using UserVirtualRange_new_Some_iff [OF ok, of n ?r] r by auto
  next
    case (Some x)
    then have "x = ?r" "user_range_ok x" using UserVirtualRange_new_Some_iff [OF ok, of n x] by (cases x, simp)+
    then show ?thesis using Some r by simp
  qed
qed

lemma user_range_end:
  assumes "unat a + unat n \<le> 0x800000000000"
  shows "UserVirtualRange_end_exclusive \<lparr>uvr_start = UserVirtualAddress (VirtAddr a), uvr_byte_len = n\<rparr> = Done (VirtAddr (a + n))"
    and "unat (a + n) = unat a + unat n"
  using assms by (simp_all add: UserVirtualRange_end_exclusive_def expect_Done_iff VirtAddr_checked_add_Some_iff unat_word_ariths)

lemma align_down_page:
  assumes "4096 \<le> unat a" "unat a < 0x800000000000"
  shows "UserVirtualAddress_align_down_to_page (UserVirtualAddress (VirtAddr a))
      = Some (UserPageStart (UserVirtualAddress (VirtAddr_align_down_to_page (VirtAddr a))))"
    and "page_nat (UserPageStart (UserVirtualAddress (VirtAddr_align_down_to_page (VirtAddr a)))) = unat a - unat a mod 4096"
proof -
  have ok: "user_address_ok (UserVirtualAddress (VirtAddr a))"
    using assms by (simp add: user_address_ok_unat UserVirtualAddress_as_u64_def)
  then obtain p where p: "UserVirtualAddress_align_down_to_page (UserVirtualAddress (VirtAddr a)) = Some p"
    using align_down_Some [OF ok] assms by (auto simp: UserVirtualAddress_as_u64_def)
  then have "p = UserPageStart (UserVirtualAddress (VirtAddr_align_down_to_page (VirtAddr a)))"
    by (auto simp: UserVirtualAddress_align_down_to_page_def UserPageStart_new_def UserVirtualAddress_new_def split: if_splits option.splits)
  with p show "UserVirtualAddress_align_down_to_page (UserVirtualAddress (VirtAddr a))
      = Some (UserPageStart (UserVirtualAddress (VirtAddr_align_down_to_page (VirtAddr a))))"
    "page_nat (UserPageStart (UserVirtualAddress (VirtAddr_align_down_to_page (VirtAddr a)))) = unat a - unat a mod 4096"
    using p by (simp_all add: align_down_Some_iff UserVirtualAddress_as_u64_def)
qed

lemma file_range_for:
  assumes "0 < unat (virtual_address ph)" "unat (virtual_address ph) < 0x800000000000"
  shows "file_backed_range_for (UserVirtualAddress (VirtAddr (virtual_address ph))) ph
     = Done (if unat (virtual_address ph) + unat (file_size ph) \<le> 0x800000000000
             then Inr (file_backed_range (segment_range_of ph)) else Inl SegmentAddressOutOfRange)"
  using assms by (auto simp: file_backed_range_for_def segment_range_of_def usize_try_from_def user_range_new Let_def unat_gt_0 unat_eq_0)

text \<open>The computed range, for a segment that starts at a page boundary.\<close>

lemma from_program_header_eq:
  assumes al: "4096 dvd unat (virtual_address ph)" and fs: "unat (file_size ph) \<le> unat (memory_size ph)"
  shows "if 0 < unat (memory_size ph) \<and> 0 < unat (virtual_address ph) \<and> segment_end ph \<le> 0x800000000000
     then from_program_header ph = Done (Inr (segment_range_of ph)) else \<exists>e. from_program_header ph = Done (Inl e)"
proof (cases "0 < unat (memory_size ph) \<and> 0 < unat (virtual_address ph) \<and> segment_end ph \<le> 0x800000000000")
  case False
  then consider "memory_size ph = 0" | "memory_size ph \<noteq> 0" "\<not> (0 < unat (virtual_address ph) \<and> unat (virtual_address ph) < 0x800000000000)"
    | "memory_size ph \<noteq> 0" "0 < unat (virtual_address ph)" "unat (virtual_address ph) < 0x800000000000" "\<not> segment_end ph \<le> 0x800000000000"
    by (fastforce simp: unat_gt_0)
  then have "\<exists>e. from_program_header ph = Done (Inl e)"
    by cases (simp_all only: from_program_header_def usize_try_from_def user_address_new user_range_new if_False if_True ok_or_simps try_run_simps
        simp_thms ex_simps, simp_all)
  with False show ?thesis by (simp only: if_False)
next
  case True
  let ?v = "virtual_address ph" and ?m = "memory_size ph"
  let ?u = "UserVirtualAddress (VirtAddr ?v)"
  have v: "4096 \<le> unat ?v" "unat ?v < 0x800000000000" using al True by (auto dest: dvd_imp_le)
  have e: "unat (?v + ?m) = segment_end ph" "unat (?v + ?m - 1) = segment_end ph - 1"
  proof -
    show e: "unat (?v + ?m) = segment_end ph" using user_range_end(2) [of ?v ?m] True by simp
    then have "?v + ?m \<noteq> 0" using True by (metis add_is_0 less_numeral_extra(3) unat_0)
    then show "unat (?v + ?m - 1) = segment_end ph - 1" using e by (simp add: unat_minus_one)
  qed
  have sub: "VirtAddr_checked_sub (VirtAddr (?v + ?m)) 1 = Some (VirtAddr (?v + ?m - 1))"
    using True e by (simp add: VirtAddr_checked_sub_Some_iff)
  have new: "UserVirtualAddress_new (VirtAddr (?v + ?m - 1)) = Some (UserVirtualAddress (VirtAddr (?v + ?m - 1)))"
    using True e(2) v(1) unfolding user_address_new e(2) by auto
  have first: "UserVirtualAddress_align_down_to_page ?u = Some (UserPageStart ?u)"
    using v al by (simp add: align_down_Some_iff user_page_ok_unat UserPageStart_as_u64_def UserVirtualAddress_as_u64_def)
  have last: "UserVirtualAddress_align_down_to_page (UserVirtualAddress (VirtAddr (?v + ?m - 1)))
      = Some (UserPageStart (UserVirtualAddress (VirtAddr_align_down_to_page (VirtAddr (?v + ?m - 1)))))"
    using v True e by (intro align_down_page) auto
  have fb: "file_backed_range_for ?u ph = Done (Inr (file_backed_range (segment_range_of ph)))"
    using file_range_for [of ph] True fs v by simp
  have "from_program_header ph = Done (Inr (segment_range_of ph))"
    using True v sub new first last fb user_range_end(1) [of ?v ?m]
    by (simp add: from_program_header_def usize_try_from_def user_address_new user_range_new unat_gt_0) (simp add: segment_range_of_def Let_def)
  with True show ?thesis by simp
qed

section \<open>The checks of the loaders\<close>

lemma file_range_in_image_eq:
  "file_range_in_image img ph = Done (if unat (ph_offset ph) + unat (file_size ph) \<le> length img \<and> unat (ph_offset ph) + unat (file_size ph) < 2 ^ 64
     then Inr () else Inl SegmentFileOutOfBounds)"
proof (cases "checked_add (ph_offset ph) (file_size ph)")
  case None
  moreover from None have "\<not> unat (ph_offset ph) + unat (file_size ph) < 2 ^ 64" by (simp add: checked_add_None_iff)
  ultimately show ?thesis by (simp add: file_range_in_image_def)
next
  case (Some e)
  then have "unat e = unat (ph_offset ph) + unat (file_size ph)" "unat e < 2 ^ 64"
    using unat_u64_bound [of e] by (simp_all add: checked_add_Some_iff)
  then show ?thesis using Some by (simp add: file_range_in_image_def usize_try_from_def)
qed

lemma file_backed_fits:
  assumes "0 < unat (virtual_address ph)" "segment_end ph \<le> 0x800000000000" "unat (file_size ph) \<le> unat (memory_size ph)"
  shows "file_backed_range_fits (segment_range_of ph) = Done True"
  using assms user_range_end [of "virtual_address ph" "memory_size ph"] user_range_end [of "virtual_address ph" "file_size ph"]
  by (simp add: file_backed_range_fits_def segment_range_of_def Let_def word_le_nat_alt)

text \<open>The end of a segment, rounded up: where the heap may start.\<close>

definition heap_page_of :: "ProgramHeader \<Rightarrow> UserPageStart" where
  "heap_page_of ph = UserPageStart (UserVirtualAddress (VirtAddr_align_down_to_page (VirtAddr (virtual_address ph + memory_size ph + 4095))))"

lemma round_up_below: "(x + 4095) div 4096 * 4096 < (0x800000000000 :: nat) \<longleftrightarrow> x \<le> 0x7ffffffff000"
proof -
  have "(x + 4095) div 4096 < (0x800000000 :: nat) \<longleftrightarrow> x + 4095 < 0x800000000 * 4096" by (rule div_less_iff_less_mult) simp
  moreover have "y * 4096 < (0x800000000000 :: nat) \<longleftrightarrow> y < 0x800000000" for y by simp
  ultimately show ?thesis by auto
qed

lemma heap_start_eq:
  assumes "0 < unat (memory_size ph)" "0 < unat (virtual_address ph)" "segment_end ph \<le> 0x800000000000"
  shows "heap_start_after_segment (segment_range_of ph)
      = Done (if segment_end ph \<le> 0x7ffffffff000 then Inr (heap_page_of ph) else Inl SegmentAddressOutOfRange)"
    and "segment_end ph \<le> 0x7ffffffff000 \<Longrightarrow> page_nat (heap_page_of ph) = (segment_end ph + 4095) div 4096 * 4096"
proof -
  let ?e = "virtual_address ph + memory_size ph"
  have e: "unat ?e = segment_end ph" using user_range_end(2) [of "virtual_address ph" "memory_size ph"] assms by simp
  have e2: "unat (?e + 4095) = segment_end ph + 4095" using e assms by (simp add: unat_word_ariths)
  have pg: "unat (VirtAddr_as_u64 (VirtAddr_align_down_to_page (VirtAddr (?e + 4095)))) = (segment_end ph + 4095) div 4096 * 4096"
    by (simp add: VirtAddr_align_down_unat e2 minus_mod_eq_div_mult)
  show pg': "page_nat (heap_page_of ph) = (segment_end ph + 4095) div 4096 * 4096"
    using pg by (simp add: heap_page_of_def UserPageStart_as_u64_def UserVirtualAddress_as_u64_def)
  have up: "UserVirtualAddress_align_up_to_page (UserVirtualAddress (VirtAddr ?e)) = (if segment_end ph \<le> 0x7ffffffff000 then Some (heap_page_of ph) else None)"
  proof -
    have "VirtAddr_checked_add (VirtAddr ?e) 4095 = Some (VirtAddr (?e + 4095))"
      by (simp add: VirtAddr_checked_add_Some_iff e e2)
    moreover note round_up_below [of "segment_end ph"]
    moreover have "0 < (segment_end ph + 4095) div 4096 * 4096" using assms by simp
    ultimately show ?thesis
      using pg by (auto simp: UserVirtualAddress_align_up_to_page_def UserVirtualAddress_new_def UserPageStart_new_def heap_page_of_def
          is_multiple_of_page UserVirtualAddress_as_u64_def word_less_nat_alt unat_gt_0 [symmetric])
  qed
  have s: "memory_range (segment_range_of ph) = \<lparr>uvr_start = UserVirtualAddress (VirtAddr (virtual_address ph)), uvr_byte_len = memory_size ph\<rparr>"
    by (simp add: segment_range_of_def Let_def)
  show "heap_start_after_segment (segment_range_of ph)
      = Done (if segment_end ph \<le> 0x7ffffffff000 then Inr (heap_page_of ph) else Inl SegmentAddressOutOfRange)"
    using user_range_end(1) [OF assms(3)] e up assms
    by (auto simp: heap_start_after_segment_def s user_address_new)
qed

lemma contains_entry_eq:
  assumes "segment_ok img ph"
  shows "executable_segment_contains_entry ph e
     = Done (bit (ph_flags ph) 0 \<and> unat (virtual_address ph) \<le> user_nat e \<and> user_nat e < segment_end ph)"
proof -
  have s: "0 < unat (memory_size ph)" "0 < unat (virtual_address ph)" "segment_end ph \<le> 0x800000000000"
    "unat (file_size ph) \<le> unat (memory_size ph)" "4096 dvd unat (virtual_address ph)"
    using assms by (auto simp: segment_ok_def alignment_ok_def)
  then have f: "from_program_header ph = Done (Inr (segment_range_of ph))" using from_program_header_eq [of ph] by simp
  have r: "memory_range (segment_range_of ph) = \<lparr>uvr_start = UserVirtualAddress (VirtAddr (virtual_address ph)), uvr_byte_len = memory_size ph\<rparr>"
    by (simp add: segment_range_of_def Let_def)
  show ?thesis
    using f user_range_end [OF s(3)]
    by (simp add: executable_segment_contains_entry_def segment_contains_def r flag_bits UserVirtualAddress_as_u64_def
        word_le_nat_alt word_less_nat_alt)
qed

text \<open>
  The checks on one segment succeed exactly on \<open>segment_ok\<close> segments, and then advance the loop
  variables.
\<close>

definition scan_with :: "UserVirtualAddress \<Rightarrow> ProgramHeader \<Rightarrow> LoadScan \<Rightarrow> LoadScan" where
  "scan_with e ph scan = \<lparr>load_segments = saturating_add (load_segments scan) 1,
     entry_segment_found = (entry_segment_found scan \<or> bit (ph_flags ph) 0 \<and> unat (virtual_address ph) \<le> user_nat e \<and> user_nat e < segment_end ph),
     scan_heap_start = Some (max_user_page_start (scan_heap_start scan) (heap_page_of ph))\<rparr>"

lemma validate_segment_eq:
  assumes len: "length img < 2 ^ 64"
  shows "if 0 < unat (memory_size ph) \<and> unat (file_size ph) \<le> unat (memory_size ph) \<and> alignment_ok ph \<and> bit (ph_flags ph) 2
       \<and> \<not> (bit (ph_flags ph) 1 \<and> bit (ph_flags ph) 0) \<and> 0 < unat (virtual_address ph) \<and> segment_end ph \<le> 0x800000000000
       \<and> unat (ph_offset ph) + unat (file_size ph) \<le> length img
     then validate_load_segment img ph = Done (Inr ()) \<and> from_program_header ph = Done (Inr (segment_range_of ph))
     else memory_size ph = 0 \<and> validate_load_segment img ph = Done (Inr ()) \<or> (\<exists>e. validate_load_segment img ph = Done (Inl e))"
proof (cases "0 < unat (memory_size ph) \<and> unat (file_size ph) \<le> unat (memory_size ph) \<and> alignment_ok ph \<and> has_supported_permissions (ph_flags ph)")
  case False
  then have "memory_size ph = 0 \<and> validate_load_segment img ph = Done (Inr ()) \<or> (\<exists>e. validate_load_segment img ph = Done (Inl e))"
    by (auto simp: validate_load_segment_def supported_alignment_iff word_less_nat_alt unat_gt_0)
  with False show ?thesis unfolding supported_permissions_iff by argo
next
  case True
  then have al: "4096 dvd unat (virtual_address ph)" by (simp add: alignment_ok_def)
  have pre: "validate_load_segment img ph = try_run (from_program_header ph) (\<lambda>sr. try_run (file_range_in_image img ph) (\<lambda>_.
      bind_run (file_backed_range_fits sr) (\<lambda>fits. if fits then Done (Inr ()) else Done (Inl SegmentFileLargerThanMemory))))"
    using True by (simp add: validate_load_segment_def supported_alignment_iff word_less_nat_alt unat_gt_0)
  show ?thesis
  proof (cases "0 < unat (virtual_address ph) \<and> segment_end ph \<le> 0x800000000000")
    case False
    then have "\<exists>e. from_program_header ph = Done (Inl e)" using from_program_header_eq [OF al] True by auto
    then have "\<exists>e. validate_load_segment img ph = Done (Inl e)" unfolding pre by auto
    with False show ?thesis by argo
  next
    case inside: True
    then have f: "from_program_header ph = Done (Inr (segment_range_of ph))" using from_program_header_eq [OF al] True by simp
    have "file_backed_range_fits (segment_range_of ph) = Done True" using inside True by (intro file_backed_fits) auto
    then have "validate_load_segment img ph = (if unat (ph_offset ph) + unat (file_size ph) \<le> length img then Done (Inr ()) else Done (Inl SegmentFileOutOfBounds))"
      unfolding pre f using len by (simp add: file_range_in_image_eq)
    then show ?thesis using True inside f unfolding supported_permissions_iff by auto
  qed
qed

lemma scan_segment_eq:
  assumes "length img < 2 ^ 64"
  shows "if segment_ok img ph then scan_segment img e ph scan = Done (Inr (scan_with e ph scan, segment_range_of ph))
     else \<exists>err. scan_segment img e ph scan = Done (Inl err)"
proof (cases "segment_ok img ph")
  case True
  then have "validate_load_segment img ph = Done (Inr ())" "from_program_header ph = Done (Inr (segment_range_of ph))"
    using validate_segment_eq [OF assms, of ph] by (auto simp: segment_ok_def)
  moreover have "heap_start_after_segment (segment_range_of ph) = Done (Inr (heap_page_of ph))"
    using True heap_start_eq(1) [of ph] by (simp add: segment_ok_def)
  ultimately show ?thesis using True contains_entry_eq [OF True, of e] by (simp add: scan_segment_def scan_with_def)
next
  case False
  have "\<exists>err. scan_segment img e ph scan = Done (Inl err)"
  proof (cases "validate_load_segment img ph = Done (Inr ())")
    case no: False
    then obtain err where "validate_load_segment img ph = Done (Inl err)" using validate_segment_eq [OF assms, of ph] by presburger
    then show ?thesis by (simp add: scan_segment_def)
  next
    case yes: True
    show ?thesis
    proof (cases "memory_size ph = 0")
      case True
      then show ?thesis using yes by (simp add: scan_segment_def from_program_header_def)
    next
      case nz: False
      then have f: "0 < unat (memory_size ph)" "0 < unat (virtual_address ph)" "segment_end ph \<le> 0x800000000000" "\<not> segment_end ph \<le> 0x7ffffffff000"
        and "from_program_header ph = Done (Inr (segment_range_of ph))"
        using validate_segment_eq [OF assms, of ph] yes False by (auto simp: segment_ok_def split: if_splits)
      then show ?thesis using yes heap_start_eq(1) [OF f(1-3)] by (simp add: scan_segment_def)
    qed
  qed
  with False show ?thesis by simp
qed

end
