(* ===== verification/Elf_Properties.thy ===== *)
theory Elf_Properties
  imports Elf_Segments
begin

text \<open>
  The parser and the validation pass of the ELF loader, exactly: which images they accept, that
  they never panic, and the entry point and heap start they return.
\<close>

section \<open>The program header table\<close>

abbreviation table_offset :: "u8 list \<Rightarrow> nat" where "table_offset img \<equiv> field img 32 8"
abbreviation header_count :: "u8 list \<Rightarrow> nat" where "header_count img \<equiv> field img 56 2"

definition headers_of :: "u8 list \<Rightarrow> ProgramHeader list" where
  "headers_of img = map (\<lambda>i. program_header_at img (table_offset img + 56 * i)) [0..<header_count img]"

definition iter_at :: "u8 list \<Rightarrow> nat \<Rightarrow> ProgramHeaderIter" where
  "iter_at img i = \<lparr>iter_bytes = img, next_index = of_nat i, iter_header = elf_header_of img\<rparr>"

lemma header_fields:
  "unat (elf_type (elf_header_of img)) = field img 16 2" "unat (machine (elf_header_of img)) = field img 18 2"
  "unat (version (elf_header_of img)) = field img 20 4" "unat (entry (elf_header_of img)) = field img 24 8"
  "unat (program_header_offset (elf_header_of img)) = field img 32 8" "unat (header_size (elf_header_of img)) = field img 52 2"
  "unat (program_header_entry_size (elf_header_of img)) = field img 54 2" "unat (program_header_count (elf_header_of img)) = field img 56 2"
  using field_bound [of img 16 2] field_bound [of img 18 2] field_bound [of img 20 4] field_bound [of img 24 8] field_bound [of img 32 8]
    field_bound [of img 52 2] field_bound [of img 54 2] field_bound [of img 56 2]
  by (simp_all add: elf_header_of_def unat_of_nat)

lemma ucast_16_64 [simp]: "unat (ucast (w :: u16) :: u64) = unat w"
proof -
  have "unat w < 65536" using unsigned_less [of w] by simp
  then show ?thesis by (simp add: unsigned_ucast_eq take_bit_eq_mod)
qed

lemma ucast_8_32 [simp]: "unat (ucast (w :: u8) :: u32) = unat w"
proof -
  have "unat w < 256" using unsigned_less [of w] by simp
  then show ?thesis by (simp add: unsigned_ucast_eq take_bit_eq_mod)
qed

lemma field_byte: "i < length bs \<Longrightarrow> field bs i (Suc 0) = unat (bs ! i)"
  by (simp add: field_def take_Suc hd_drop_conv_nth)

lemma check_header_eq:
  assumes len: "length img < 2 ^ 64"
  shows "if field img 16 2 = 2 \<and> field img 18 2 = 0x3e \<and> field img 20 4 = 1 \<and> field img 52 2 = 64 \<and> field img 54 2 = 56
       \<and> 0 < field img 56 2 \<and> field img 32 8 + 56 * field img 56 2 \<le> length img
     then check_elf_header img (elf_header_of img) = Inr \<lparr>elf_bytes = img, elf_header = elf_header_of img\<rparr>
     else \<exists>e. check_elf_header img (elf_header_of img) = Inl e"
proof (cases "field img 16 2 = 2 \<and> field img 18 2 = 0x3e \<and> field img 20 4 = 1 \<and> field img 52 2 = 64 \<and> field img 54 2 = 56
       \<and> 0 < field img 56 2")
  case False
  then have "\<exists>e. check_elf_header img (elf_header_of img) = Inl e"
    by (auto simp: check_elf_header_def word_unat_eq_iff header_fields)
  with False show ?thesis by argo
next
  case True
  let ?h = "elf_header_of img"
  have "header_count img < 2 ^ 16" using field_bound [of img 56 2] by simp
  then obtain w where w: "checked_mul (ucast (program_header_entry_size ?h) :: usize) (ucast (program_header_count ?h)) = Some w"
    "unat w = 56 * header_count img"
    using True by (auto simp: checked_mul_def header_fields unat_word_ariths)
  have "check_elf_header img ?h = (case checked_add (program_header_offset ?h) w of None \<Rightarrow> Inl ProgramHeaderTableOutOfBounds
      | Some table_end \<Rightarrow> if length img < unat table_end then Inl ProgramHeaderTableOutOfBounds else Inr \<lparr>elf_bytes = img, elf_header = ?h\<rparr>)"
    using True w(1) by (simp add: check_elf_header_def word_unat_eq_iff header_fields usize_try_from_def)
  moreover have "unat x = field img 32 8 + 56 * header_count img" if "checked_add (program_header_offset ?h) w = Some x" for x
    using that w(2) by (simp add: checked_add_Some_iff header_fields)
  moreover have "length img < field img 32 8 + 56 * header_count img" if "checked_add (program_header_offset ?h) w = None"
    using that w(2) len by (simp add: checked_add_None_iff header_fields)
  ultimately show ?thesis
    using True by (cases "checked_add (program_header_offset ?h) w") auto
qed

lemma parse_eq:
  assumes len: "length img < 2 ^ 64"
  shows "if elf_image_ok img then ElfFile_parse img = Done (Inr \<lparr>elf_bytes = img, elf_header = elf_header_of img\<rparr>)
     else \<exists>e. ElfFile_parse img = Done (Inl e)"
proof (cases "64 \<le> length img \<and> take 4 img = ELF_MAGIC \<and> field img 4 1 = 2 \<and> field img 5 1 = 1 \<and> field img 6 1 = 1")
  case False
  then have "\<exists>e. ElfFile_parse img = Done (Inl e)"
    by (auto simp: ElfFile_parse_def field_byte word_unat_eq_iff)
  with False show ?thesis unfolding elf_image_ok_def by argo
next
  case True
  then have b: "64 \<le> length img" "take 4 img = ELF_MAGIC" "img ! 4 = 2" "img ! 5 = 1" "img ! 6 = 1"
    using field_byte [of 4 img] field_byte [of 5 img] field_byte [of 6 img] by (auto simp: word_unat_eq_iff)
  then have "ElfFile_parse img = Done (check_elf_header img (elf_header_of img))"
    by (simp add: ElfFile_parse_def read_elf_header_Done)
  then show ?thesis
    using check_header_eq [OF len] True unfolding elf_image_ok_def by (simp split: if_splits)
qed

lemma next_header:
  assumes ok: "elf_image_ok img" and i: "i < header_count img" and len: "length img < 2 ^ 64"
  shows "ProgramHeaderIter_next (iter_at img i) = Done (iter_at img (Suc i), Some (Inr (program_header_at img (table_offset img + 56 * i))))"
proof -
  let ?h = "elf_header_of img" and ?a = "table_offset img + 56 * i"
  have b: "header_count img < 2 ^ 16" using field_bound [of img 56 2] by simp
  have fit: "table_offset img + 56 * header_count img \<le> length img" and es: "field img 54 2 = 56" using ok by (simp_all add: elf_image_ok_def)
  have ui: "unat (of_nat i :: u16) = i" using i b by (simp add: unat_of_nat)
  have a: "?a + 56 \<le> length img" using fit i by simp
  obtain w where w: "checked_mul (ucast (of_nat i :: u16) :: usize) (ucast (program_header_entry_size ?h)) = Some w" "unat w = 56 * i"
    using ui es b i by (auto simp: checked_mul_def header_fields unat_word_ariths)
  obtain s where s: "checked_add (program_header_offset ?h) w = Some s" "unat s = ?a"
    using w(2) a len by (auto simp: checked_add_def header_fields unat_word_ariths)
  obtain f where f: "checked_add s PROGRAM_HEADER_SIZE = Some f" "unat f = ?a + 56"
    using s(2) a len by (auto simp: checked_add_def unat_word_ariths)
  have n: "checked_add (of_nat i :: u16) 1 = Some (of_nat (Suc i))"
    using ui i b by (simp add: checked_add_def)
  have lt: "\<not> program_header_count ?h \<le> of_nat i" using i ui by (simp add: word_le_nat_alt header_fields)
  have sl: "slice_get img ?a (?a + 56) = Some (take 56 (drop ?a img))" using a by (simp add: slice_get_Some)
  show ?thesis
    using lt w(1) s f n sl read_program_header_Done [OF a]
    by (simp add: ProgramHeaderIter_next_def iter_at_def usize_try_from_def Let_def)
qed

lemma next_header_end: "ProgramHeaderIter_next (iter_at img (header_count img)) = Done (iter_at img (header_count img), None)"
proof -
  have "unat (of_nat (header_count img) :: u16) = header_count img" using field_bound [of img 56 2] by (simp add: unat_of_nat)
  then have "program_header_count (elf_header_of img) \<le> of_nat (header_count img)" by (simp add: word_le_nat_alt header_fields)
  then show ?thesis by (simp add: ProgramHeaderIter_next_def iter_at_def)
qed

section \<open>The validation pass\<close>

definition load_headers_of :: "u8 list \<Rightarrow> ProgramHeader list" where
  "load_headers_of img = filter is_load (headers_of img)"

lemma scan_headers_eq:
  assumes ok: "elf_image_ok img" and len: "length img < 2 ^ 64" and "i \<le> header_count img"
  shows "if list_all (segment_ok img) (filter is_load (drop i (headers_of img)))
     then scan_headers img e (iter_at img i) scan = Done (Inr (fold (scan_with e) (filter is_load (drop i (headers_of img))) scan))
     else \<exists>err. scan_headers img e (iter_at img i) scan = Done (Inl err)"
  using assms(3)
proof (induction "header_count img - i" arbitrary: i scan)
  case 0
  then have i: "i = header_count img" by simp
  then have "drop i (headers_of img) = []" by (simp add: headers_of_def)
  then show ?case unfolding i by (subst scan_headers.simps) (simp add: next_header_end)
next
  case (Suc n)
  let ?ph = "program_header_at img (table_offset img + 56 * i)"
  have i: "i < header_count img" using Suc(2) by simp
  have d: "drop i (headers_of img) = ?ph # drop (Suc i) (headers_of img)"
    using i by (simp add: headers_of_def Cons_nth_drop_Suc [symmetric])
  have IH: "if list_all (segment_ok img) (filter is_load (drop (Suc i) (headers_of img)))
     then scan_headers img e (iter_at img (Suc i)) scan = Done (Inr (fold (scan_with e) (filter is_load (drop (Suc i) (headers_of img))) scan))
     else \<exists>err. scan_headers img e (iter_at img (Suc i)) scan = Done (Inl err)" for scan
    using Suc by simp
  show ?case
  proof (cases "is_load ?ph")
    case False
    then show ?thesis using IH [of scan] by (subst (1 2) scan_headers.simps) (simp add: next_header [OF ok i len] d)
  next
    case True
    show ?thesis
    proof (cases "segment_ok img ?ph")
      case False
      then obtain err where "scan_segment img e ?ph scan = Done (Inl err)" using scan_segment_eq [OF len, of ?ph e scan] by auto
      then have "scan_headers img e (iter_at img i) scan = Done (Inl err)"
        using True by (subst scan_headers.simps) (simp add: next_header [OF ok i len])
      then show ?thesis using True False d by simp
    next
      case sok: True
      then have "scan_segment img e ?ph scan = Done (Inr (scan_with e ?ph scan, segment_range_of ?ph))"
        using scan_segment_eq [OF len, of ?ph e scan] by simp
      then have "scan_headers img e (iter_at img i) scan = scan_headers img e (iter_at img (Suc i)) (scan_with e ?ph scan)"
        using True by (subst scan_headers.simps) (simp add: next_header [OF ok i len])
      then show ?thesis using IH [of "scan_with e ?ph scan"] True sok d by simp
    qed
  qed
qed

lemma saturating_Suc_nonzero: "saturating_add (x :: u16) 1 \<noteq> 0"
  by (auto simp: word_unat_eq_iff unat_saturating_add min_def)

lemma fold_scan:
  fixes hs :: "ProgramHeader list"
  shows "load_segments (fold (scan_with e) hs scan) = 0 \<longleftrightarrow> hs = [] \<and> load_segments scan = 0"
    and "entry_segment_found (fold (scan_with e) hs scan) \<longleftrightarrow> entry_segment_found scan
       \<or> (\<exists>ph\<in>set hs. bit (ph_flags ph) 0 \<and> unat (virtual_address ph) \<le> user_nat e \<and> user_nat e < segment_end ph)"
proof -
  show "load_segments (fold (scan_with e) hs scan) = 0 \<longleftrightarrow> hs = [] \<and> load_segments scan = 0"
  proof (cases hs rule: rev_cases)
    case (snoc ys y)
    then show ?thesis using saturating_Suc_nonzero by (simp add: scan_with_def)
  qed simp
  show "entry_segment_found (fold (scan_with e) hs scan) \<longleftrightarrow> entry_segment_found scan
       \<or> (\<exists>ph\<in>set hs. bit (ph_flags ph) 0 \<and> unat (virtual_address ph) \<le> user_nat e \<and> user_nat e < segment_end ph)"
    by (induction hs arbitrary: scan) (auto simp: scan_with_def)
qed

lemma fold_scan_heap:
  "hs \<noteq> [] \<or> scan_heap_start scan \<noteq> None \<Longrightarrow> \<exists>h. scan_heap_start (fold (scan_with e) hs scan) = Some h
     \<and> (h \<in> heap_page_of ` set hs \<or> scan_heap_start scan = Some h)
     \<and> (\<forall>ph\<in>set hs. page_nat (heap_page_of ph) \<le> page_nat h) \<and> (\<forall>x. scan_heap_start scan = Some x \<longrightarrow> page_nat x \<le> page_nat h)"
proof (induction hs arbitrary: scan)
  case Nil
  then show ?case by auto
next
  case (Cons ph hs)
  let ?s = "scan_with e ph scan" and ?m = "max_user_page_start (scan_heap_start scan) (heap_page_of ph)"
  have m: "page_nat (heap_page_of ph) \<le> page_nat ?m" "\<forall>x. scan_heap_start scan = Some x \<longrightarrow> page_nat x \<le> page_nat ?m"
    "?m = heap_page_of ph \<or> scan_heap_start scan = Some ?m"
    by (auto simp: max_user_page_start_def word_le_nat_alt split: option.splits)
  have s: "scan_heap_start ?s = Some ?m" by (simp add: scan_with_def)
  obtain h where h: "scan_heap_start (fold (scan_with e) hs ?s) = Some h" "h \<in> heap_page_of ` set hs \<or> Some ?m = Some h"
    "\<forall>ph\<in>set hs. page_nat (heap_page_of ph) \<le> page_nat h" "page_nat ?m \<le> page_nat h"
    using Cons.IH [of ?s] s by auto
  then have "h \<in> heap_page_of ` set (ph # hs) \<or> scan_heap_start scan = Some h" using m(3) by auto
  moreover have "\<forall>x. scan_heap_start scan = Some x \<longrightarrow> page_nat x \<le> page_nat h" using m(2) h(4) by (meson order_trans)
  moreover have "\<forall>q\<in>set (ph # hs). page_nat (heap_page_of q) \<le> page_nat h" using m(1) h(3,4) by auto
  ultimately show ?case using h(1) by simp
qed

section \<open>Properties\<close>

text \<open>
  An acceptable program: a well-formed image whose entry point is a user address, with at least
  one load segment, all of them acceptable, one of which is executable and contains the entry.
\<close>

definition program_ok :: "u8 list \<Rightarrow> bool" where
  "program_ok img \<longleftrightarrow> elf_image_ok img \<and> 0 < field img 24 8 \<and> field img 24 8 < 0x800000000000
     \<and> load_headers_of img \<noteq> [] \<and> (\<forall>ph\<in>set (load_headers_of img). segment_ok img ph)
     \<and> (\<exists>ph\<in>set (load_headers_of img). bit (ph_flags ph) 0 \<and> unat (virtual_address ph) \<le> field img 24 8 \<and> field img 24 8 < segment_end ph)"

definition loaded_as :: "u8 list \<Rightarrow> LoadedElf \<Rightarrow> bool" where
  "loaded_as img l \<longleftrightarrow> user_nat (entry_point l) = field img 24 8
     \<and> 4096 dvd user_nat (loaded_heap_start l)
     \<and> user_nat (loaded_heap_start l) = Max ((\<lambda>ph. (segment_end ph + 4095) div 4096 * 4096) ` set (load_headers_of img))"

lemma finish_load_eq:
  assumes ok: "\<forall>ph\<in>set hs. segment_ok img ph"
  shows "case finish_load e (fold (scan_with e) hs no_segments) of
     Inr l \<Rightarrow> hs \<noteq> [] \<and> (\<exists>ph\<in>set hs. bit (ph_flags ph) 0 \<and> unat (virtual_address ph) \<le> user_nat e \<and> user_nat e < segment_end ph)
       \<and> entry_point l = e \<and> user_nat (loaded_heap_start l) = Max ((\<lambda>ph. (segment_end ph + 4095) div 4096 * 4096) ` set hs)
   | Inl _ \<Rightarrow> hs = [] \<or> \<not> (\<exists>ph\<in>set hs. bit (ph_flags ph) 0 \<and> unat (virtual_address ph) \<le> user_nat e \<and> user_nat e < segment_end ph)"
proof (cases "hs = []")
  case False
  let ?up = "\<lambda>ph. (segment_end ph + 4095) div 4096 * 4096"
  have pg: "page_nat (heap_page_of ph) = ?up ph" if "ph \<in> set hs" for ph
    using ok that heap_start_eq(2) [of ph] by (auto simp: segment_ok_def)
  obtain h where h: "scan_heap_start (fold (scan_with e) hs no_segments) = Some h" "h \<in> heap_page_of ` set hs"
    "\<forall>ph\<in>set hs. page_nat (heap_page_of ph) \<le> page_nat h"
    using fold_scan_heap [of hs no_segments e] False by auto
  have "page_nat h = Max (?up ` set hs)"
    using h(2,3) pg by (intro Max_eqI [symmetric]) auto
  then show ?thesis
    using False h(1) fold_scan [of e hs no_segments] by (auto simp: finish_load_def UserPageStart_as_u64_def)
qed (simp add: finish_load_def)

lemma metadata_ok_eq:
  assumes len: "length img < 2 ^ 64" and ok: "program_ok img"
  defines "e \<equiv> UserVirtualAddress (VirtAddr (entry (elf_header_of img)))"
  shows "load_user_elf_metadata img = Done (finish_load e (fold (scan_with e) (load_headers_of img) no_segments))"
proof -
  have im: "elf_image_ok img" and all: "\<forall>ph\<in>set (load_headers_of img). segment_ok img ph" using ok by (simp_all add: program_ok_def)
  have p: "ElfFile_parse img = Done (Inr \<lparr>elf_bytes = img, elf_header = elf_header_of img\<rparr>)" using parse_eq [OF len] im by simp
  have en: "validate_entry_point (entry (elf_header_of img)) = Done (Inr e)"
    using ok by (simp add: validate_entry_point_def user_address_new header_fields program_ok_def e_def)
  have it: "program_headers \<lparr>elf_bytes = img, elf_header = elf_header_of img\<rparr> = iter_at img 0" by (simp add: program_headers_def iter_at_def)
  have "scan_headers img e (iter_at img 0) no_segments = Done (Inr (fold (scan_with e) (load_headers_of img) no_segments))"
    using scan_headers_eq [OF im len le0, of e no_segments, unfolded drop_0 load_headers_of_def [symmetric] list_all_iff] all by simp
  then show ?thesis by (simp add: load_user_elf_metadata_def p en it)
qed

lemma metadata_runs:
  assumes len: "length img < 2 ^ 64"
  shows "runs (load_user_elf_metadata img) (\<lambda>r. case r of Inr l \<Rightarrow> program_ok img \<and> loaded_as img l | Inl _ \<Rightarrow> \<not> program_ok img)"
proof (cases "elf_image_ok img")
  case False
  then obtain err where "ElfFile_parse img = Done (Inl err)" using parse_eq [OF len] by auto
  then show ?thesis using False by (simp add: load_user_elf_metadata_def program_ok_def)
next
  case True
  then have p: "ElfFile_parse img = Done (Inr \<lparr>elf_bytes = img, elf_header = elf_header_of img\<rparr>)" using parse_eq [OF len] by simp
  let ?en = "entry (elf_header_of img)"
  show ?thesis
  proof (cases "0 < field img 24 8 \<and> field img 24 8 < 0x800000000000")
    case False
    then show ?thesis
      using p by (auto simp: load_user_elf_metadata_def validate_entry_point_def user_address_new header_fields program_ok_def)
  next
    case en: True
    let ?e = "UserVirtualAddress (VirtAddr ?en)"
    have e: "user_nat ?e = field img 24 8" by (simp add: UserVirtualAddress_as_u64_def header_fields)
    have it: "program_headers \<lparr>elf_bytes = img, elf_header = elf_header_of img\<rparr> = iter_at img 0" by (simp add: program_headers_def iter_at_def)
    have run: "load_user_elf_metadata img = try_run (scan_headers img ?e (iter_at img 0) no_segments) (\<lambda>scan. Done (finish_load ?e scan))"
      using p en by (simp add: load_user_elf_metadata_def validate_entry_point_def user_address_new header_fields it)
    note scan = scan_headers_eq [OF True len le0, of ?e no_segments, unfolded drop_0 load_headers_of_def [symmetric] list_all_iff]
    show ?thesis
    proof (cases "\<forall>ph\<in>set (load_headers_of img). segment_ok img ph")
      case False
      then obtain err where "scan_headers img ?e (iter_at img 0) no_segments = Done (Inl err)"
        using scan unfolding if_not_P [OF False] by blast
      then show ?thesis using False run by (simp add: program_ok_def)
    next
      case ok: True
      then have "scan_headers img ?e (iter_at img 0) no_segments = Done (Inr (fold (scan_with ?e) (load_headers_of img) no_segments))"
        using scan unfolding if_P [OF ok] by blast
      then have r: "load_user_elf_metadata img = Done (finish_load ?e (fold (scan_with ?e) (load_headers_of img) no_segments))" using run by simp
      have "4096 dvd Max ((\<lambda>ph. (segment_end ph + 4095) div 4096 * 4096) ` set (load_headers_of img))" if "load_headers_of img \<noteq> []"
      proof -
        have "Max ((\<lambda>ph. (segment_end ph + 4095) div 4096 * 4096) ` set (load_headers_of img))
            \<in> (\<lambda>ph. (segment_end ph + 4095) div 4096 * 4096) ` set (load_headers_of img)" using that by (intro Max_in) auto
        then show ?thesis by (elim imageE) simp
      qed
      then show ?thesis
        using finish_load_eq [OF ok, of ?e] ok True en e unfolding r
        by (auto simp: program_ok_def loaded_as_def split: sum.splits)
    qed
  qed
qed

end
