(* ===== verification/Elf_Checks.thy ===== *)
theory Elf_Checks
  imports Elf_Properties
begin

text \<open>
  The ELF self-check evaluated on the model, the minimal program it starts from, and the
  properties of the parser and of the validation pass with their concrete instances.
\<close>

section \<open>The minimal program\<close>

definition minimal_image :: "u8 list" where
  "minimal_image =
     [0x7f, 0x45, 0x4c, 0x46, 2, 1, 1, 0, 0, 0, 0, 0, 0, 0, 0, 0,
      2, 0, 0x3e, 0, 1, 0, 0, 0, 0, 0, 0, 0, 0, 0x40, 0, 0,
      64, 0, 0, 0, 0, 0, 0, 0, 0, 0, 0, 0, 0, 0, 0, 0,
      0, 0, 0, 0, 64, 0, 56, 0, 1, 0, 0, 0, 0, 0, 0, 0,
      1, 0, 0, 0, 5, 0, 0, 0, 0, 0, 0, 0, 0, 0, 0, 0,
      0, 0, 0, 0, 0, 0x40, 0, 0, 0, 0, 0, 0, 0, 0, 0, 0,
      128, 0, 0, 0, 0, 0, 0, 0, 0, 16, 0, 0, 0, 0, 0, 0,
      0, 16, 0, 0, 0, 0, 0, 0, 0, 0, 0, 0, 0, 0, 0, 0]"

lemma upt_small: "[0..<2] = [0, 1 :: nat]" "[0..<4] = [0, 1, 2, 3 :: nat]" "[0..<8] = [0, 1, 2, 3, 4, 5, 6, 7 :: nat]"
  by (simp_all add: upt_rec)

lemmas elf_eval = elf_write_u16_def elf_write_u32_def elf_write_u64_def copy_into_def byte_set_def to_le_bytes_def upt_small

lemma zero_image: "replicate 128 (0::u8) = [0,0,0,0,0,0,0,0,0,0,0,0,0,0,0,0,0,0,0,0,0,0,0,0,0,0,0,0,0,0,0,0,0,0,0,0,0,0,0,0,0,0,0,0,0,0,0,0,0,0,0,0,0,0,0,0,0,0,0,0,0,0,0,0,0,0,0,0,0,0,0,0,0,0,0,0,0,0,0,0,0,0,0,0,0,0,0,0,0,0,0,0,0,0,0,0,0,0,0,0,0,0,0,0,0,0,0,0,0,0,0,0,0,0,0,0,0,0,0,0,0,0,0,0,0,0,0,0]"
  by code_simp

lemma valid_minimal_elf_eq: "valid_minimal_elf = Done minimal_image"
  unfolding valid_minimal_elf_def zero_image by (simp add: elf_eval minimal_image_def)

text \<open>An image with one program header right after the ELF header, of type \<open>PT_LOAD\<close>.\<close>

lemma single_segment:
  assumes "field img 32 8 = 64" "field img 56 2 = 1" "field img 64 4 = 1"
  shows "load_headers_of img = [program_header_at img 64]"
  using assms by (simp add: load_headers_of_def headers_of_def is_load_def program_header_at_def)

lemma header_fields_at:
  "unat (ph_flags (program_header_at img a)) = field img (a + 4) 4" "unat (ph_offset (program_header_at img a)) = field img (a + 8) 8"
  "unat (virtual_address (program_header_at img a)) = field img (a + 16) 8" "unat (file_size (program_header_at img a)) = field img (a + 32) 8"
  "unat (memory_size (program_header_at img a)) = field img (a + 40) 8" "unat (alignment (program_header_at img a)) = field img (a + 48) 8"
  using field_bound [of img "a + 4" 4] field_bound [of img "a + 8" 8] field_bound [of img "a + 16" 8] field_bound [of img "a + 32" 8]
    field_bound [of img "a + 40" 8] field_bound [of img "a + 48" 8]
  by (simp_all add: program_header_at_def unat_of_nat)

lemma minimal_program_ok: "program_ok minimal_image"
proof -
  have f: "field minimal_image 32 8 = 64" "field minimal_image 56 2 = 1" "field minimal_image 64 4 = 1" "field minimal_image 24 8 = 0x400000000000"
    "field minimal_image 68 4 = 5" "field minimal_image 72 8 = 0" "field minimal_image 80 8 = 0x400000000000" "field minimal_image 96 8 = 128"
    "field minimal_image 104 8 = 4096" "field minimal_image 112 8 = 4096" and len: "length minimal_image = 128"
    by (simp_all add: field_def minimal_image_def)
  have ok: "elf_image_ok minimal_image" by (simp add: elf_image_ok_def field_def minimal_image_def)
  let ?ph = "program_header_at minimal_image 64"
  have fl: "ph_flags ?ph = 5" by (simp add: program_header_at_def f)
  have "(4096 :: nat) = 2 ^ 12" by simp
  then have "\<exists>k. 4096 = (2 :: nat) ^ k" by blast
  then have "segment_ok minimal_image ?ph"
    by (simp add: segment_ok_def alignment_ok_def header_fields_at f len fl)
  then show ?thesis
    using ok single_segment [OF f(1-3)] by (simp add: program_ok_def f header_fields_at fl)
qed

section \<open>The self-check\<close>

lemma rejects:
  assumes "mutate minimal_image = Done img" "length img = 128" "\<not> program_ok img"
  shows "rejects_mutated_elf mutate = Done True"
proof -
  have "runs (load_user_elf_metadata img) (\<lambda>r. case r of Inr l \<Rightarrow> program_ok img \<and> loaded_as img l | Inl _ \<Rightarrow> \<not> program_ok img)"
    using assms(2) by (intro metadata_runs) simp
  then obtain r where r: "load_user_elf_metadata img = Done r" "case r of Inr l \<Rightarrow> program_ok img \<and> loaded_as img l | Inl _ \<Rightarrow> \<not> program_ok img"
    by (auto simp: runs_iff)
  then obtain err where "r = Inl err" using assms(3) by (cases r) auto
  then show ?thesis using assms(1) r(1) by (simp add: rejects_mutated_elf_def valid_minimal_elf_eq)
qed

lemma bad_segment:
  assumes "field img 32 8 = 64" "field img 56 2 = 1" "field img 64 4 = 1" "\<not> segment_ok img (program_header_at img 64)"
  shows "\<not> program_ok img"
  using single_segment [OF assms(1-3)] assms(4) by (simp add: program_ok_def)

lemma not_power_24: "(24 :: nat) \<noteq> 2 ^ k"
  using is_power_of_two_iff [of 24] by (auto simp: is_power_of_two_def)

lemma rejections:
  "rejects_mutated_elf (\<lambda>img. byte_set img 0 0) = Done True" "rejects_mutated_elf (\<lambda>img. byte_set img 4 1) = Done True"
  "rejects_mutated_elf (\<lambda>img. byte_set img 5 2) = Done True" "rejects_mutated_elf (\<lambda>img. elf_write_u16 img 18 0x28) = Done True"
  "rejects_mutated_elf (\<lambda>img. elf_write_u64 img 32 512) = Done True"
  by (rule rejects, simp add: elf_eval minimal_image_def, simp, simp add: program_ok_def elf_image_ok_def field_def)+

lemma segment_rejections:
  "rejects_mutated_elf (\<lambda>img. elf_write_u64 img (64 + 40) 32) = Done True"
  "rejects_mutated_elf (\<lambda>img. elf_write_u64 img (64 + 48) 24) = Done True"
  "rejects_mutated_elf (\<lambda>img. elf_write_u32 img (64 + 4) (PF_READ OR PF_WRITE OR PF_EXECUTE)) = Done True"
  "rejects_mutated_elf (\<lambda>img. elf_write_u32 img (64 + 4) PF_EXECUTE) = Done True"
  by (rule rejects, simp add: elf_eval minimal_image_def, simp, rule bad_segment, simp add: field_def, simp add: field_def,
      simp add: field_def, simp add: segment_ok_def header_fields_at alignment_ok_def program_header_at_def field_def not_power_24)+

lemma entry_rejection: "rejects_mutated_elf (\<lambda>img. elf_write_u64 img 24 (USER_PROGRAM_BASE + PAGE_SIZE)) = Done True"
proof -
  obtain img where img: "elf_write_u64 minimal_image 24 (USER_PROGRAM_BASE + PAGE_SIZE) = Done img" "length img = 128"
    "field img 32 8 = 64" "field img 56 2 = 1" "field img 64 4 = 1" "field img 24 8 = 0x400000001000"
    "field img 80 8 = 0x400000000000" "field img 104 8 = 4096"
    by (simp add: elf_eval minimal_image_def field_def)
  have "\<not> program_ok img"
    using single_segment [OF img(3-5)] img(6-8) by (simp add: program_ok_def header_fields_at)
  with img(1,2) show ?thesis by (intro rejects [where img = img]) simp_all
qed

lemma count_true: "list_all (\<lambda>c. rejects_mutated_elf c = Done True) cs \<Longrightarrow> count_rejections cs n = Done (n + length cs)"
  by (induction cs arbitrary: n) auto


section \<open>Properties\<close>

text \<open>
  C34: the ELF parser. On every image it returns, never panicking, and it accepts exactly the
  well-formed ones. On an accepted image the iterator then yields every entry of the program
  header table in order, decoded from its place in the image, and stops after the last.
\<close>

theorem elf_parse_exact:
  assumes "length img < 2 ^ 64"
  shows "runs (ElfFile_parse img) (\<lambda>r. case r of
       Inl _ \<Rightarrow> \<not> elf_image_ok img
     | Inr f \<Rightarrow> elf_image_ok img \<and> f = \<lparr>elf_bytes = img, elf_header = elf_header_of img\<rparr> \<and> program_headers f = iter_at img 0
         \<and> (\<forall>i < header_count img. ProgramHeaderIter_next (iter_at img i)
               = Done (iter_at img (Suc i), Some (Inr (program_header_at img (table_offset img + 56 * i)))))
         \<and> ProgramHeaderIter_next (iter_at img (header_count img)) = Done (iter_at img (header_count img), None))"
  using parse_eq [OF assms] next_header [OF _ _ assms] next_header_end [of img]
  by (auto simp: program_headers_def iter_at_def split: if_splits)

theorem elf_parse_exact_witness:
  "length minimal_image < 2 ^ 64 \<and> runs (ElfFile_parse minimal_image) (\<lambda>r. \<exists>f. r = Inr f \<and> program_headers f = iter_at minimal_image 0)"
proof -
  have len: "length minimal_image < 2 ^ 64" by (simp add: minimal_image_def)
  have "elf_image_ok minimal_image" using minimal_program_ok by (simp add: program_ok_def)
  then have "runs (ElfFile_parse minimal_image) (\<lambda>r. \<exists>f. r = Inr f \<and> program_headers f = iter_at minimal_image 0)"
    by (intro runs_conseq [OF elf_parse_exact [OF len]]) (auto split: sum.splits)
  with len show ?thesis by blast
qed

text \<open>
  C10: validation of a user program. On every image the pass returns, never panicking. It accepts
  exactly the acceptable programs: a well-formed image whose load segments are page aligned, lie
  in user space, are readable and never both writable and executable, with their file bytes in
  the image, one of them executable and holding the entry point. The heap then starts at the
  highest segment end, rounded up to a page.
\<close>

theorem elf_validation_exact:
  assumes "length img < 2 ^ 64"
  shows "runs (load_user_elf_metadata img) (\<lambda>r. case r of Inr l \<Rightarrow> program_ok img \<and> loaded_as img l | Inl _ \<Rightarrow> \<not> program_ok img)"
  using assms by (rule metadata_runs)

theorem elf_validation_exact_witness:
  "length minimal_image < 2 ^ 64 \<and> runs (load_user_elf_metadata minimal_image) (\<lambda>r. \<exists>l. r = Inr l \<and> user_nat (loaded_heap_start l) = 0x400000001000)"
proof -
  have len: "length minimal_image < 2 ^ 64" by (simp add: minimal_image_def)
  have f: "field minimal_image 32 8 = 64" "field minimal_image 56 2 = 1" "field minimal_image 64 4 = 1"
    "field minimal_image 80 8 = 0x400000000000" "field minimal_image 104 8 = 4096"
    by (simp_all add: field_def minimal_image_def)
  have "user_nat (loaded_heap_start l) = 0x400000001000" if "loaded_as minimal_image l" for l
    using that single_segment [OF f(1-3)] by (simp add: loaded_as_def header_fields_at f)
  then have "runs (load_user_elf_metadata minimal_image) (\<lambda>r. \<exists>l. r = Inr l \<and> user_nat (loaded_heap_start l) = 0x400000001000)"
    by (intro runs_conseq [OF elf_validation_exact [OF len]]) (use minimal_program_ok in \<open>auto split: sum.splits\<close>)
  with len show ?thesis by blast
qed

end
