(* ===== verification/Elf_Image.thy ===== *)
theory Elf_Image
  imports Elf_Checks User_Mapping_Proofs
begin

text \<open>
  What a loaded program looks like in memory: every byte of every load segment, read through the
  page tables, is the byte of the image or zero, and the pages have the rights of their segment.
\<close>

section \<open>Pages and their contents\<close>

abbreviation elf_owner :: FrameRangeOwner where
  "elf_owner \<equiv> FrameRangeOwner.UserElf"

text \<open>A page is mapped with the given rights to a frame that holds the given bytes.\<close>

definition page_has :: "(u64 \<Rightarrow> (u64 \<times> PageTableFlags) option) \<Rightarrow> (u64 \<Rightarrow> u8) \<Rightarrow> u64 \<Rightarrow> PageTableFlags \<times> (nat \<Rightarrow> u8) \<Rightarrow> bool" where
  "page_has v mem p c \<longleftrightarrow> (\<exists>f. v p = Some (f, fst c) \<and> (\<forall>k<4096. mem (f + of_nat k) = snd c k))"

text \<open>
  The state of a loader that started in \<open>st0\<close> and has loaded the pages \<open>P\<close> with the contents \<open>C\<close>.
\<close>

definition loaded :: "'m page_view \<Rightarrow> u64 \<Rightarrow> 'm memory \<Rightarrow> u64 set \<Rightarrow> (u64 \<Rightarrow> PageTableFlags \<times> (nat \<Rightarrow> u8)) \<Rightarrow> 'm memory \<Rightarrow> bool" where
  "loaded view root st0 P C st \<longleftrightarrow> fa_canon (allocator st)
     \<and> backed_on (view (tables st) root) (allocator st) elf_owner P
     \<and> (\<forall>p\<in>P. page_has (view (tables st) root) (bytes st) p (C p))
     \<and> (\<forall>p. p \<notin> P \<longrightarrow> view (tables st) root p = view (tables st0) root p)
     \<and> (\<forall>other. other \<noteq> root \<longrightarrow> view (tables st) other = view (tables st0) other)
     \<and> tracked_count (allocator st) \<le> tracked_count (allocator st0) + 4 * card P
     \<and> card (free_frames (allocator st0)) \<le> card (free_frames (allocator st)) + 4 * card P"

lemma loaded_start: "fa_canon (allocator st) \<Longrightarrow> loaded view root st {} C st"
  by (simp add: loaded_def backed_on_def)

lemma frame_bytes:
  assumes "frame_address_ok f" "k < 4096"
  shows "unat (f + of_nat k) = unat f + k" "unat (f + of_nat k) div 4096 = unat f div 4096"
proof -
  obtain j where j: "unat f = 4096 * j" using assms(1) by (auto simp: frame_address_ok_def elim: dvdE)
  have "unat f + k < 2 ^ 64" using j assms(2) unat_u64_bound [of f] by simp
  then show u: "unat (f + of_nat k) = unat f + k"
    using assms(2) by (simp add: unat_word_ariths unat_of_nat)
  show "unat (f + of_nat k) div 4096 = unat f div 4096" unfolding u j using assms(2) by simp
qed

text \<open>Writing a fresh frame leaves the contents of backed pages alone.\<close>

lemma page_has_other:
  assumes h: "page_has v mem p c" and b: "backed_on v fa elf_owner P" "p \<in> P"
    and f: "unat f div 4096 \<in> free_frames fa" "fa_canon fa" and q: "p \<noteq> q" and v': "v' = v(q \<mapsto> (f, fl))"
    and mem: "\<And>a. unat a div 4096 \<noteq> unat f div 4096 \<Longrightarrow> mem' a = mem a"
  shows "page_has v' mem' p c"
proof -
  obtain g where g: "v p = Some (g, fst c)" "\<forall>k<4096. mem (g + of_nat k) = snd c k" using h by (auto simp: page_has_def)
  have gf: "frame_address_ok g" "unat g div 4096 \<in> fa_frames fa State_Used elf_owner" using b g(1) by (auto simp: backed_on_def)
  have "unat g div 4096 \<noteq> unat f div 4096" using free_used_disjoint [OF fa_canon_inv [OF f(2)]] f(1) gf(2) by (metis IntI empty_iff)
  then have "mem' (g + of_nat k) = mem (g + of_nat k)" if "k < 4096" for k
    using mem frame_bytes(2) [OF gf(1) that] by simp
  then show ?thesis using g q v' by (simp add: page_has_def)
qed

lemma loaded_insert:
  assumes L: "loaded view root st0 P C st" and p: "p \<notin> P"
    and f: "frame_address_ok f" "unat f div 4096 \<in> free_frames (allocator st)"
      "moved {unat f div 4096} (State_Free, Owner_Free) (State_Used, elf_owner) (allocator st) fa1" "tables_taken T fa1 fa2"
    and fa2: "fa_canon fa2" "tracked_count fa2 \<le> tracked_count (allocator st) + 4" "card (free_frames (allocator st)) \<le> card (free_frames fa2) + 4"
    and v': "view m' root = (view (tables st) root)(p \<mapsto> (f, fl))" "\<forall>other. other \<noteq> root \<longrightarrow> view m' other = view (tables st) other"
    and mem: "\<forall>a. unat a div 4096 \<noteq> unat f div 4096 \<longrightarrow> mem' a = bytes st a" "\<forall>k<4096. mem' (f + of_nat k) = c k"
  shows "loaded view root st0 (insert p P) (C(p := (fl, c))) (st\<lparr>tables := m', allocator := fa2, bytes := mem'\<rparr>)"
proof -
  let ?v = "view (tables st) root"
  have l: "fa_canon (allocator st)" "backed_on ?v (allocator st) elf_owner P" "\<forall>p\<in>P. page_has ?v (bytes st) p (C p)"
    "\<forall>p. p \<notin> P \<longrightarrow> ?v p = view (tables st0) root p" "\<forall>other. other \<noteq> root \<longrightarrow> view (tables st) other = view (tables st0) other"
    "tracked_count (allocator st) \<le> tracked_count (allocator st0) + 4 * card P"
    "card (free_frames (allocator st0)) \<le> card (free_frames (allocator st)) + 4 * card P"
    using L unfolding loaded_def by blast+
  have "backed_on (view m' root) fa2 elf_owner (insert p P)"
    unfolding v'(1) by (rule backed_on_map [OF l(2) p f(1,2) l(1) f(3,4)]) simp
  moreover have "page_has (view m' root) mem' q ((C(p := (fl, c))) q)" if "q \<in> insert p P" for q
  proof (cases "q = p")
    case True
    then show ?thesis using v'(1) mem(2) by (simp add: page_has_def)
  next
    case False
    then have q: "q \<in> P" using that by simp
    have "page_has (view m' root) mem' q (C q)"
      by (rule page_has_other [OF _ l(2) q f(2) l(1) False v'(1)]) (use l(3) q mem(1) in auto)
    then show ?thesis using False by simp
  qed
  moreover have "card (insert p P) = Suc (card P)" using p by (simp add: card_insert_if)
  ultimately show ?thesis using l(4-7) fa2 v' by (simp add: loaded_def)
qed

lemma allocate_page_runs:
  fixes mp :: "'m mapper"
  assumes mp: "mapper_ok mp view" and p: "user_page_ok p" "page_nat p < 0x7ffff0000000" "view (tables st) (root_of space) (UserPageStart_as_u64 p) = None"
    and L: "loaded view (root_of space) st0 P C st" "UserPageStart_as_u64 p \<notin> P"
    and res: "4 * Suc (card P) \<le> card (free_frames (allocator st0))" "tracked_count (allocator st0) + 4 * Suc (card P) \<le> MAX_TRACKED_RANGES"
  shows "runs (allocate_and_map_user_page mp space st p fl elf_owner) (\<lambda>(st', f). frame_address_ok (PhysicalFrameStart_as_u64 f)
     \<and> bytes st' = zero_frame (PhysicalFrameStart_as_u64 f) (bytes st)
     \<and> (\<forall>mem' c. (\<forall>a. unat a div 4096 \<noteq> unat (PhysicalFrameStart_as_u64 f) div 4096 \<longrightarrow> mem' a = bytes st a)
          \<longrightarrow> (\<forall>k<4096. mem' (PhysicalFrameStart_as_u64 f + of_nat k) = c k)
          \<longrightarrow> loaded view (root_of space) st0 (insert (UserPageStart_as_u64 p) P) (C(UserPageStart_as_u64 p := (fl, c))) (st'\<lparr>bytes := mem'\<rparr>)))"
proof -
  let ?root = "root_of space" and ?p = "UserPageStart_as_u64 p" and ?v = "view (tables st) (root_of space)"
  have l: "fa_canon (allocator st)" "backed_on ?v (allocator st) elf_owner P" "\<forall>p\<in>P. page_has ?v (bytes st) p (C p)"
    "\<forall>p. p \<notin> P \<longrightarrow> ?v p = view (tables st0) ?root p" "\<forall>other. other \<noteq> ?root \<longrightarrow> view (tables st) other = view (tables st0) other"
    "tracked_count (allocator st) \<le> tracked_count (allocator st0) + 4 * card P"
    "card (free_frames (allocator st0)) \<le> card (free_frames (allocator st)) + 4 * card P"
    using L(1) unfolding loaded_def by blast+
  have t: "tracked_count (allocator st) < MAX_TRACKED_RANGES" using l(6) res(2) by simp
  have below: "UserPageStart_as_u64 p < USER_STACK_REGION_BASE" using p(2) by (simp add: word_less_nat_alt)
  show ?thesis
    unfolding allocate_and_map_user_page_def runs_bind
  proof (simp add: below, rule runs_conseq [OF allocate_frame_runs [OF l(1) t]], simp, goal_cases)
    case (1 x)
    obtain fa r where x: "x = (fa, r)" by (cases x)
    have free: "0 < card (free_frames (allocator st))" using l(7) res(1) by simp
    then obtain f where r: "r = Some f" and f: "frame_address_ok (PhysicalFrameStart_as_u64 f)"
      "unat (PhysicalFrameStart_as_u64 f) div 4096 \<in> free_frames (allocator st)"
      "moved {unat (PhysicalFrameStart_as_u64 f) div 4096} (State_Free, Owner_Free) (State_Used, elf_owner) (allocator st) fa"
      and fa: "fa_canon fa" "tracked_count fa \<le> Suc (tracked_count (allocator st))"
      using 1 x by (auto split: option.splits)
    let ?f = "PhysicalFrameStart_as_u64 f"
    have "free_frames fa = free_frames (allocator st) - {unat ?f div 4096}" using moved_taken(1) [OF f(3)] .
    then have cfree: "card (free_frames (allocator st)) = Suc (card (free_frames fa))"
      using f(2) card_Suc_Diff1 [OF finite_frames f(2)] by simp
    have r1: "tracked_count fa + 3 \<le> MAX_TRACKED_RANGES" "3 \<le> card (free_frames fa)"
      using fa(2) l(6,7) res cfree by simp_all
    show ?case
      unfolding x r prod.case expect_simps bind_run.simps frame_usize runs_bind
    proof (rule runs_conseq [OF map_user_page_runs [OF mp fa(1) r1 p(1,3)]], goal_cases)
      case (1 y)
      then obtain m' fa' T where y: "y = (m', fa')" and m': "view m' ?root = ?v(?p \<mapsto> (?f, fl))" "\<forall>other. other \<noteq> ?root \<longrightarrow> view m' other = view (tables st) other"
        and fa': "fa_canon fa'" "tracked_count fa' \<le> tracked_count fa + 3" and T: "card T \<le> 3" "tables_taken T fa fa'" by auto
      have "tracked_count fa' \<le> tracked_count (allocator st) + 4" using fa'(2) fa(2) by simp
      moreover have "card (free_frames (allocator st)) \<le> card (free_frames fa') + 4"
        using cfree tables_taken_card [OF T(2)] T(1) by simp
      ultimately have fin: "loaded view ?root st0 (insert ?p P) (C(?p := (fl, c))) (st\<lparr>tables := m', allocator := fa', bytes := mem'\<rparr>)"
        if "\<forall>a. unat a div 4096 \<noteq> unat ?f div 4096 \<longrightarrow> mem' a = bytes st a" "\<forall>k<4096. mem' (?f + of_nat k) = c k" for mem' c
        using that by (intro loaded_insert [OF L f T(2) fa'(1) _ _ m']) simp_all
      then show ?case using y f(1) by simp
    qed
  qed
qed

section \<open>One page of a segment\<close>

text \<open>The byte a segment has at an address of its pages, and its pages.\<close>

definition segment_byte :: "u8 list \<Rightarrow> ProgramHeader \<Rightarrow> nat \<Rightarrow> u8" where
  "segment_byte img ph a = (if a < unat (virtual_address ph) + unat (file_size ph)
     then img ! (unat (ph_offset ph) + (a - unat (virtual_address ph))) else 0)"

definition segment_hi :: "ProgramHeader \<Rightarrow> nat" where
  "segment_hi ph = (segment_end ph + 4095) div 4096 * 4096"

definition segment_pages :: "ProgramHeader \<Rightarrow> u64 set" where
  "segment_pages ph = pages_between (unat (virtual_address ph)) (segment_hi ph)"

lemma last_page_nat:
  assumes "segment_ok img ph"
  shows "page_nat (last_page (segment_range_of ph)) + 4096 = segment_hi ph"
proof -
  let ?e = "segment_end ph"
  have s: "0 < unat (memory_size ph)" "0 < unat (virtual_address ph)" "?e \<le> 0x7ffffffff000" "4096 dvd unat (virtual_address ph)"
    using assms by (auto simp: segment_ok_def alignment_ok_def)
  then have v: "4096 \<le> unat (virtual_address ph)" by (auto dest: dvd_imp_le)
  have e: "unat (virtual_address ph + memory_size ph) = ?e" using user_range_end(2) [of "virtual_address ph" "memory_size ph"] s by simp
  then have "virtual_address ph + memory_size ph \<noteq> 0" using v by (metis add_is_0 not_numeral_le_zero unat_0)
  then have e1: "unat (virtual_address ph + memory_size ph - 1) = ?e - 1" using e by (simp add: unat_minus_one)
  have "page_nat (last_page (segment_range_of ph)) = (?e - 1) - (?e - 1) mod 4096"
    using align_down_page(2) [of "virtual_address ph + memory_size ph - 1"] e1 v s
    by (simp add: segment_range_of_def Let_def)
  moreover obtain d where "?e = Suc d" using s(1) by (cases ?e) auto
  moreover have "(4096 + d) div 4096 = Suc (d div 4096)" for d :: nat by simp
  ultimately show ?thesis by (simp add: segment_hi_def minus_mod_eq_div_mult)
qed

lemma write_slice_frame:
  assumes f: "frame_address_ok f" and n: "length xs \<le> 4096"
  shows "unat a div 4096 \<noteq> unat f div 4096 \<Longrightarrow> write_slice f xs mem a = mem a"
    and "k < 4096 \<Longrightarrow> write_slice f xs mem (f + of_nat k) = (if k < length xs then xs ! k else mem (f + of_nat k))"
proof -
  obtain j where j: "unat f = 4096 * j" using f by (auto simp: frame_address_ok_def elim: dvdE)
  show "write_slice f xs mem a = mem a" if "unat a div 4096 \<noteq> unat f div 4096"
  proof -
    have "unat a div 4096 = j" if "4096 * j \<le> unat a" "unat a < 4096 * j + 4096"
      using that by (intro div_nat_eqI) auto
    then show ?thesis using that j n by (auto simp: write_slice_def)
  qed
  show "write_slice f xs mem (f + of_nat k) = (if k < length xs then xs ! k else mem (f + of_nat k))" if "k < 4096"
    using frame_bytes(1) [OF f that] by (simp add: write_slice_def)
qed

text \<open>The part of the file that falls into one page.\<close>

definition page_source :: "u8 list \<Rightarrow> ProgramHeader \<Rightarrow> nat \<Rightarrow> u8 list" where
  "page_source img ph a = take (min 4096 (unat (virtual_address ph) + unat (file_size ph) - a))
     (drop (unat (ph_offset ph) + (a - unat (virtual_address ph))) img)"

lemma copy_page_eq:
  assumes ok: "segment_ok img ph" and len: "length img < 2 ^ 64" and p: "user_page_ok p" "unat (virtual_address ph) \<le> page_nat p"
  shows "copy_segment_page img ph (segment_range_of ph) p f mem
     = Done (Inr (write_slice (PhysicalFrameStart_as_u64 f) (page_source img ph (page_nat p)) mem))"
proof (cases "page_nat p < unat (virtual_address ph) + unat (file_size ph)")
  case False
  let ?P = "UserPageStart_as_u64 p" and ?V = "virtual_address ph" and ?F = "file_size ph"
  have b: "page_nat p < 0x800000000000" using p(1) by (simp add: user_page_ok_unat)
  have vf: "unat ?V + unat ?F \<le> 0x800000000000" using ok by (simp add: segment_ok_def)
  have pe: "checked_add ?P PAGE_SIZE = Some (?P + PAGE_SIZE)" "unat (?P + PAGE_SIZE) = page_nat p + 4096"
    using b by (simp_all add: checked_add_def unat_word_ariths)
  have mx: "max ?P ?V = ?P" using p(2) by (simp add: max_absorb1 word_le_nat_alt)
  have "page_source img ph (page_nat p) = []" using False by (simp add: page_source_def)
  moreover have "write_slice x [] mem = mem" for x by (rule ext) (auto simp: write_slice_def)
  moreover have "copy_segment_page img ph (segment_range_of ph) p f mem = Done (Inr mem)"
    using False user_range_end [OF vf] pe mx
    by (simp add: copy_segment_page_def segment_range_of_def Let_def UserVirtualAddress_as_u64_def word_le_nat_alt min_def)
  ultimately show ?thesis by simp
next
  case True
  let ?P = "UserPageStart_as_u64 p" and ?V = "virtual_address ph" and ?F = "file_size ph" and ?O = "ph_offset ph"
  let ?E = "min (?P + PAGE_SIZE) (?V + ?F)" and ?n = "min 4096 (unat ?V + unat ?F - page_nat p)"
  have b: "page_nat p < 0x800000000000" using p(1) by (simp add: user_page_ok_unat)
  have vf: "unat ?V + unat ?F \<le> 0x800000000000" and ofs: "unat ?O + unat ?F \<le> length img" using ok by (simp_all add: segment_ok_def)
  have pe: "checked_add ?P PAGE_SIZE = Some (?P + PAGE_SIZE)" "unat (?P + PAGE_SIZE) = page_nat p + 4096"
    using b by (simp_all add: checked_add_def unat_word_ariths)
  have mx: "max ?P ?V = ?P" using p(2) by (simp add: max_absorb1 word_le_nat_alt)
  have E: "unat ?E = page_nat p + ?n" using True pe(2) user_range_end(2) [OF vf] by (auto simp: min_def word_le_nat_alt)
  have n: "0 < ?n" "page_nat p - unat ?V + ?n \<le> unat ?F" using True p(2) by auto
  have sk: "checked_sub ?P ?V = Some (?P - ?V)" "unat (?P - ?V) = page_nat p - unat ?V"
    using p(2) by (simp_all add: checked_sub_def unat_sub word_le_nat_alt)
  obtain s where s: "checked_add ?O (?P - ?V) = Some s" "unat s = unat ?O + (page_nat p - unat ?V)"
    using sk(2) n ofs len by (auto simp: checked_add_def unat_word_ariths)
  obtain c where c: "checked_sub ?E ?P = Some c" "unat c = ?n"
    using E by (auto simp: checked_sub_def unat_sub word_le_nat_alt)
  obtain z where z: "checked_add s c = Some z" "unat z = unat ?O + (page_nat p - unat ?V) + ?n"
    using s(2) c(2) n ofs len by (auto simp: checked_add_def unat_word_ariths)
  have sl: "slice_get img (unat s) (unat z) = Some (page_source img ph (page_nat p))"
    using s(2) z(2) n(2) ofs by (simp add: slice_get_def page_source_def)
  have nz: "?F \<noteq> 0" using n by (auto simp: unat_gt_0 [symmetric])
  have lt: "\<not> ?E \<le> ?P" using E n(1) unfolding word_le_nat_alt by linarith
  have zero: "checked_sub ?P ?P = Some 0" by (simp add: checked_sub_def)
  have fr: "PhysAddr_as_usize (PhysicalFrameStart_as_address f) = Done (PhysicalFrameStart_as_u64 f)"
    using frame_usize [of f] by (simp add: PhysicalFrameStart_as_usize_def)
  have fb: "file_backed_range (segment_range_of ph) = Some \<lparr>uvr_start = UserVirtualAddress (VirtAddr ?V), uvr_byte_len = ?F\<rparr>"
    using nz by (simp add: segment_range_of_def Let_def)
  show ?thesis
    unfolding copy_segment_page_def fb option.case Let_def
    using mx pe(1) user_range_end(1) [OF vf] lt sk(1) s(1) c(1) z(1) sl zero fr
    by (simp add: UserVirtualAddress_as_u64_def usize_try_from_def)
qed

lemma page_source_bytes:
  assumes "segment_ok img ph" "unat (virtual_address ph) \<le> a"
  shows "length (page_source img ph a) \<le> 4096"
    and "k < 4096 \<Longrightarrow> k < length (page_source img ph a) \<longleftrightarrow> a + k < unat (virtual_address ph) + unat (file_size ph)"
    and "k < length (page_source img ph a) \<Longrightarrow> page_source img ph a ! k = segment_byte img ph (a + k)"
proof -
  have fit: "unat (ph_offset ph) + unat (file_size ph) \<le> length img" using assms(1) by (simp add: segment_ok_def)
  show "length (page_source img ph a) \<le> 4096" by (simp add: page_source_def)
  show iff: "k < 4096 \<Longrightarrow> k < length (page_source img ph a) \<longleftrightarrow> a + k < unat (virtual_address ph) + unat (file_size ph)"
    using fit assms(2) by (auto simp: page_source_def)
  show "page_source img ph a ! k = segment_byte img ph (a + k)" if k: "k < length (page_source img ph a)"
  proof -
    have "k < 4096" using k by (simp add: page_source_def)
    with k iff have "a + k < unat (virtual_address ph) + unat (file_size ph)" by blast
    then show ?thesis using k fit assms(2) by (simp add: page_source_def segment_byte_def add.assoc)
  qed
qed

section \<open>A whole segment\<close>

definition segment_content :: "u8 list \<Rightarrow> ProgramHeader \<Rightarrow> u64 \<Rightarrow> PageTableFlags \<times> (nat \<Rightarrow> u8)" where
  "segment_content img ph p = (page_flags_for_segment (ph_flags ph), \<lambda>k. segment_byte img ph (unat p + k))"

lemma load_page_runs:
  fixes mp :: "'m mapper"
  assumes mp: "mapper_ok mp view" and ok: "segment_ok img ph" and len: "length img < 2 ^ 64"
    and p: "user_page_ok p" "page_nat p < 0x7ffff0000000" "unat (virtual_address ph) \<le> page_nat p"
      "view (tables st) (root_of space) (UserPageStart_as_u64 p) = None"
    and L: "loaded view (root_of space) st0 P C st" "UserPageStart_as_u64 p \<notin> P"
    and res: "4 * Suc (card P) \<le> card (free_frames (allocator st0))" "tracked_count (allocator st0) + 4 * Suc (card P) \<le> MAX_TRACKED_RANGES"
  shows "runs (bind_run (allocate_and_map_user_page mp space st p (page_flags_for_segment (ph_flags ph)) elf_owner) (\<lambda>(st, f).
       bind_run (copy_segment_page img ph (segment_range_of ph) p f (bytes st)) (\<lambda>r. Done (st, r))))
     (\<lambda>(st', r). \<exists>mem'. r = Inr mem' \<and> loaded view (root_of space) st0 (insert (UserPageStart_as_u64 p) P)
        (C(UserPageStart_as_u64 p := segment_content img ph (UserPageStart_as_u64 p))) (st'\<lparr>bytes := mem'\<rparr>))"
  unfolding runs_bind
proof (rule runs_conseq [OF allocate_page_runs [OF mp p(1,2,4) L res]], goal_cases)
  case (1 x)
  let ?p = "UserPageStart_as_u64 p" and ?fl = "page_flags_for_segment (ph_flags ph)"
  obtain st' f where x: "x = (st', f)" by (cases x)
  let ?f = "PhysicalFrameStart_as_u64 f" and ?xs = "page_source img ph (page_nat p)"
  let ?mem = "write_slice ?f ?xs (bytes st')"
  have f: "frame_address_ok ?f" using 1 unfolding x prod.case by (rule conjunct1)
  have z: "bytes st' = zero_frame ?f (bytes st)" using 1 unfolding x prod.case by (elim conjE)
  have fin: "loaded view (root_of space) st0 (insert ?p P) (C(?p := (?fl, c))) (st'\<lparr>bytes := mem'\<rparr>)"
    if "\<forall>a. unat a div 4096 \<noteq> unat ?f div 4096 \<longrightarrow> mem' a = bytes st a" "\<forall>k<4096. mem' (?f + of_nat k) = c k" for mem' c
  proof -
    have "\<forall>mem' c. (\<forall>a. unat a div 4096 \<noteq> unat ?f div 4096 \<longrightarrow> mem' a = bytes st a) \<longrightarrow> (\<forall>k<4096. mem' (?f + of_nat k) = c k)
        \<longrightarrow> loaded view (root_of space) st0 (insert ?p P) (C(?p := (?fl, c))) (st'\<lparr>bytes := mem'\<rparr>)"
      using 1 unfolding x prod.case by (elim conjE)
    with that show ?thesis by blast
  qed
  have src: "length ?xs \<le> 4096" "\<And>k. k < 4096 \<Longrightarrow> k < length ?xs \<longleftrightarrow> page_nat p + k < unat (virtual_address ph) + unat (file_size ph)"
    "\<And>k. k < length ?xs \<Longrightarrow> ?xs ! k = segment_byte img ph (page_nat p + k)"
    using page_source_bytes [OF ok p(3)] by auto
  obtain j where j: "unat ?f = 4096 * j" using f by (auto simp: frame_address_ok_def elim: dvdE)
  have z1: "zero_frame ?f (bytes st) a = bytes st a" if "unat a div 4096 \<noteq> unat ?f div 4096" for a
  proof -
    have "unat a div 4096 = j" if "4096 * j \<le> unat a" "unat a < 4096 * j + 4096" using that by (intro div_nat_eqI) auto
    then show ?thesis using that j by (auto simp: zero_frame_def)
  qed
  have z2: "zero_frame ?f (bytes st) (?f + of_nat k) = 0" if "k < 4096" for k
    using frame_bytes(1) [OF f that] that by (simp add: zero_frame_def)
  have "\<forall>a. unat a div 4096 \<noteq> unat ?f div 4096 \<longrightarrow> ?mem a = bytes st a"
    using write_slice_frame(1) [OF f src(1)] z z1 by simp
  moreover have "\<forall>k<4096. ?mem (?f + of_nat k) = segment_byte img ph (page_nat p + k)"
    using write_slice_frame(2) [OF f src(1)] z z2 src(2,3) by (auto simp: segment_byte_def)
  ultimately have "loaded view (root_of space) st0 (insert ?p P) (C(?p := (?fl, \<lambda>k. segment_byte img ph (page_nat p + k)))) (st'\<lparr>bytes := ?mem\<rparr>)"
    by (rule fin)
  then show ?case
    unfolding x prod.case using copy_page_eq [OF ok len p(1,3), of f "bytes st'"] by (simp add: segment_content_def)
qed

lemma map_segment_pages_step:
  "map_segment_pages mp space img ph sr fl st p =
     bind_run (bind_run (allocate_and_map_user_page mp space st p fl elf_owner) (\<lambda>(st, f).
       bind_run (copy_segment_page img ph sr p f (bytes st)) (\<lambda>r. Done (st, r))))
     (\<lambda>(st, r). case r of
         Inl e \<Rightarrow> Done (st, Inl e)
       | Inr mem \<Rightarrow>
           if p = last_page sr then Done (st\<lparr>bytes := mem\<rparr>, Inr ())
           else case UserPageStart_checked_add p PAGE_SIZE of
                  None \<Rightarrow> Done (st\<lparr>bytes := mem\<rparr>, Inl SegmentAddressOverflow)
                | Some q \<Rightarrow> map_segment_pages mp space img ph sr fl (st\<lparr>bytes := mem\<rparr>) q)"
proof (cases "allocate_and_map_user_page mp space st p fl elf_owner")
  case (Done x)
  obtain st' f where x: "x = (st', f)" by (cases x)
  show ?thesis
    by (subst map_segment_pages.simps, unfold Done x bind_run.simps prod.case)
      (cases "copy_segment_page img ph sr p f (bytes st')"; simp)
qed (subst map_segment_pages.simps, simp)

lemma map_segment_pages_runs:
  fixes mp :: "'m mapper"
  assumes mp: "mapper_ok mp view" and ok: "segment_ok img ph" and len: "length img < 2 ^ 64" and below: "segment_hi ph \<le> 0x7ffff0000000"
    and "user_page_ok p" "unat (virtual_address ph) \<le> page_nat p" "page_nat p < segment_hi ph"
    and "loaded view (root_of space) st0 P C st" "P \<inter> pages_between (page_nat p) (segment_hi ph) = {}"
    and "\<forall>q \<in> pages_between (page_nat p) (segment_hi ph). view (tables st0) (root_of space) q = None"
    and "4 * card (P \<union> pages_between (page_nat p) (segment_hi ph)) \<le> card (free_frames (allocator st0))"
      "tracked_count (allocator st0) + 4 * card (P \<union> pages_between (page_nat p) (segment_hi ph)) \<le> MAX_TRACKED_RANGES"
  shows "runs (map_segment_pages mp space img ph (segment_range_of ph) (page_flags_for_segment (ph_flags ph)) st p) (\<lambda>(st', r).
     r = Inr () \<and> loaded view (root_of space) st0 (P \<union> pages_between (page_nat p) (segment_hi ph))
        (\<lambda>q. if q \<in> pages_between (page_nat p) (segment_hi ph) then segment_content img ph q else C q) st')"
  using assms(5-)
proof (induction "segment_hi ph - page_nat p" arbitrary: p P C st rule: less_induct)
  case less
  let ?p = "UserPageStart_as_u64 p" and ?S = "pages_between (page_nat p) (segment_hi ph)" and ?root = "root_of space"
  let ?S' = "pages_between (page_nat p + 4096) (segment_hi ph)"
  have S: "?S = insert ?p ?S'" by (rule pages_between_step [OF less.prems(1,3)])
  have p': "?p \<notin> ?S'" by (auto simp: pages_between_def page_in_def)
  have pP: "?p \<notin> P" using less.prems(5) S by blast
  have "view (tables st) ?root ?p = None" using less.prems(4,6) pP S by (simp add: loaded_def)
  have un: "P \<union> ?S = insert ?p P \<union> ?S'" using S by blast
  have "card (insert ?p P) \<le> card (P \<union> ?S)" unfolding un by (intro card_mono) auto
  then have c: "Suc (card P) \<le> card (P \<union> ?S)" using pP by (simp add: card_insert_if)
  have res: "4 * Suc (card P) \<le> card (free_frames (allocator st0))" "tracked_count (allocator st0) + 4 * Suc (card P) \<le> MAX_TRACKED_RANGES"
    using c less.prems(7,8) by (auto intro: order_trans)
  have lt: "page_nat p < 0x7ffff0000000" using less.prems(3) below by simp
  note one = load_page_runs [OF mp ok len less.prems(1) lt less.prems(2) \<open>view (tables st) ?root ?p = None\<close> less.prems(4) pP res]
  show ?case
  proof (cases "page_nat p + 4096 = segment_hi ph")
    case True
    then have last: "p = last_page (segment_range_of ph)" using last_page_nat [OF ok] page_nat_inj by (metis add_right_imp_eq)
    have "?S' = {}" using True by (auto simp: pages_between_def page_in_def)
    then have S1: "?S = {?p}" using S by simp
    have "(\<lambda>q. if q \<in> ?S then segment_content img ph q else C q) = C(?p := segment_content img ph ?p)" unfolding S1 by auto
    then show ?thesis
      unfolding map_segment_pages_step [of mp space img ph _ _ st p] runs_bind [of "bind_run _ _"]
      by (intro runs_conseq [OF one]) (use S1 last in auto)
  next
    case False
    have al: "4096 dvd page_nat p" "4096 dvd segment_hi ph" using less.prems(1) by (simp_all add: user_page_ok_unat segment_hi_def)
    have lt': "page_nat p + 4096 < segment_hi ph"
    proof -
      obtain j k where "page_nat p = 4096 * j" "segment_hi ph = 4096 * k" using al by (auto elim!: dvdE)
      then show ?thesis using False less.prems(3) by simp
    qed
    then have ne: "p \<noteq> last_page (segment_range_of ph)" using last_page_nat [OF ok] by auto
    define n where "n = UserPageStart (UserVirtualAddress (VirtAddr (?p + 4096)))"
    have n: "page_nat n = page_nat p + 4096" "user_page_ok n"
      using lt' below al(1) by (simp_all add: n_def UserPageStart_as_u64_def UserVirtualAddress_as_u64_def user_page_ok_unat unat_word_ariths)
    then have add: "UserPageStart_checked_add p PAGE_SIZE = Some n" by (simp add: UserPageStart_checked_add_Some_iff)
    have IH: "runs (map_segment_pages mp space img ph (segment_range_of ph) (page_flags_for_segment (ph_flags ph)) st1 n) (\<lambda>(st', r).
       r = Inr () \<and> loaded view ?root st0 (P \<union> ?S) (\<lambda>q. if q \<in> ?S then segment_content img ph q else C q) st')"
      if L1: "loaded view ?root st0 (insert ?p P) (C(?p := segment_content img ph ?p)) st1" for st1
    proof -
      have "(\<lambda>q. if q \<in> ?S' then segment_content img ph q else (C(?p := segment_content img ph ?p)) q) = (\<lambda>q. if q \<in> ?S then segment_content img ph q else C q)"
        using S p' by auto
      moreover have "insert ?p P \<inter> ?S' = {}" using less.prems(5) S p' by blast
      ultimately show ?thesis
        using less.hyps [of n "insert ?p P" "C(?p := segment_content img ph ?p)" st1] n lt' L1 less.prems S un by simp
    qed
    show ?thesis
      unfolding map_segment_pages_step [of mp space img ph _ _ st p] runs_bind [of "bind_run _ _"]
      by (intro runs_conseq [OF one]) (use ne add IH in auto)
  qed
qed

end
