(* ===== verification/Elf_Loading.thy ===== *)
theory Elf_Loading
  imports Elf_Image
begin

text \<open>
  Loading a whole program: the loop over the program headers, the memory image it leaves, and a
  program that passes the validation but cannot be loaded.
\<close>

lemma segment_hi_le: "segment_end ph \<le> segment_hi ph"
proof -
  have "x \<le> (x + 4095) div 4096 * 4096" for x :: nat
    using div_mult_mod_eq [of "x + 4095" 4096] mod_less_divisor [of 4096 "x + 4095"] by linarith
  then show ?thesis unfolding segment_hi_def .
qed

lemma map_load_segment_runs:
  fixes mp :: "'m mapper"
  assumes mp: "mapper_ok mp view" and ok: "segment_ok img ph" and len: "length img < 2 ^ 64" and below: "segment_hi ph \<le> 0x7ffff0000000"
    and L: "loaded view (root_of space) st0 P C st" and dis: "P \<inter> segment_pages ph = {}"
    and free: "\<forall>q \<in> segment_pages ph. view (tables st0) (root_of space) q = None"
    and res: "4 * card (P \<union> segment_pages ph) \<le> card (free_frames (allocator st0))"
      "tracked_count (allocator st0) + 4 * card (P \<union> segment_pages ph) \<le> MAX_TRACKED_RANGES"
  shows "runs (map_load_segment mp space st img ph (segment_range_of ph)) (\<lambda>(st', r).
     r = Inr () \<and> loaded view (root_of space) st0 (P \<union> segment_pages ph)
        (\<lambda>q. if q \<in> segment_pages ph then segment_content img ph q else C q) st')"
proof -
  let ?p = "first_page (segment_range_of ph)"
  have s: "0 < unat (memory_size ph)" "0 < unat (virtual_address ph)" "segment_end ph \<le> 0x7ffffffff000" "4096 dvd unat (virtual_address ph)"
    "unat (ph_offset ph) + unat (file_size ph) \<le> length img"
    using ok by (auto simp: segment_ok_def alignment_ok_def)
  have p: "page_nat ?p = unat (virtual_address ph)"
    by (simp add: segment_range_of_def Let_def UserPageStart_as_u64_def UserVirtualAddress_as_u64_def)
  then have pok: "user_page_ok ?p" using s by (simp add: user_page_ok_unat)
  have lt: "page_nat ?p < segment_hi ph"
  proof -
    have "unat (virtual_address ph) < segment_end ph" using s(1) by simp
    also have "\<dots> \<le> segment_hi ph" by (rule segment_hi_le)
    finally show ?thesis using p by simp
  qed
  have f: "file_range_in_image img ph = Done (Inr ())" using s(5) len by (simp add: file_range_in_image_eq)
  have S: "pages_between (page_nat ?p) (segment_hi ph) = segment_pages ph" by (simp add: segment_pages_def p)
  have "map_load_segment mp space st img ph (segment_range_of ph)
      = map_segment_pages mp space img ph (segment_range_of ph) (page_flags_for_segment (ph_flags ph)) st ?p"
    using s(1) f by (simp add: map_load_segment_def unat_gt_0)
  then show ?thesis
    using map_segment_pages_runs [OF mp ok len below pok _ lt L, unfolded S, OF _ dis free res] p by simp
qed

abbreviation all_pages :: "ProgramHeader list \<Rightarrow> u64 set" where
  "all_pages hs \<equiv> \<Union>(segment_pages ` set hs)"

abbreviation apart_segments :: "ProgramHeader list \<Rightarrow> bool" where
  "apart_segments hs \<equiv> sorted_wrt (\<lambda>a b. segment_pages a \<inter> segment_pages b = {}) hs"

lemma load_headers_runs:
  fixes mp :: "'m mapper"
  assumes mp: "mapper_ok mp view" and ok: "elf_image_ok img" and len: "length img < 2 ^ 64"
    and "i \<le> header_count img" "hs = filter is_load (drop i (headers_of img))"
      "\<forall>ph\<in>set hs. segment_ok img ph \<and> segment_hi ph \<le> 0x7ffff0000000" "apart_segments hs"
      "loaded view (root_of space) st0 P C st" "P \<inter> all_pages hs = {}" "\<forall>q\<in>all_pages hs. view (tables st0) (root_of space) q = None"
      "4 * card (P \<union> all_pages hs) \<le> card (free_frames (allocator st0))"
      "tracked_count (allocator st0) + 4 * card (P \<union> all_pages hs) \<le> MAX_TRACKED_RANGES"
  shows "runs (load_headers mp space img e st (iter_at img i) scan) (\<lambda>(st', r). r = Inr (fold (scan_with e) hs scan)
     \<and> (\<exists>C'. loaded view (root_of space) st0 (P \<union> all_pages hs) C' st' \<and> (\<forall>p\<in>P. C' p = C p)
           \<and> (\<forall>ph\<in>set hs. \<forall>p\<in>segment_pages ph. C' p = segment_content img ph p)))"
  using assms(4-)
proof (induction "header_count img - i" arbitrary: i hs scan st P C)
  case 0
  then have i: "i = header_count img" by simp
  then have hs: "hs = []" using 0(3) by (simp add: headers_of_def)
  then show ?case using 0(6) unfolding i by (subst load_headers.simps) (auto simp: next_header_end)
next
  case (Suc n)
  let ?ph = "program_header_at img (table_offset img + 56 * i)" and ?root = "root_of space"
  have i: "i < header_count img" using Suc(2) by simp
  have d: "drop i (headers_of img) = ?ph # drop (Suc i) (headers_of img)"
    using i by (simp add: headers_of_def Cons_nth_drop_Suc [symmetric])
  define hs' where "hs' = filter is_load (drop (Suc i) (headers_of img))"
  have n: "n = header_count img - Suc i" "Suc i \<le> header_count img" using Suc(2) i by simp_all
  show ?case
  proof (cases "is_load ?ph")
    case False
    then have "hs = hs'" using Suc.prems(2) d by (simp add: hs'_def)
    then show ?thesis
      using Suc.hyps(1) [OF n hs'_def, of P C st scan] Suc.prems False
      by (subst load_headers.simps) (simp add: next_header [OF ok i len])
  next
    case True
    then have hs: "hs = ?ph # hs'" using Suc.prems(2) d by (simp add: hs'_def)
    have sok: "segment_ok img ?ph" "segment_hi ?ph \<le> 0x7ffff0000000" using Suc.prems(3) hs by simp_all
    let ?P = "P \<union> segment_pages ?ph" and ?C = "\<lambda>q. if q \<in> segment_pages ?ph then segment_content img ?ph q else C q"
    have scan: "scan_segment img e ?ph scan = Done (Inr (scan_with e ?ph scan, segment_range_of ?ph))"
      using scan_segment_eq [OF len, of ?ph e scan] sok by simp
    have eq: "load_headers mp space img e st (iter_at img i) scan =
        bind_run (map_load_segment mp space st img ?ph (segment_range_of ?ph)) (\<lambda>(st, r). case r of
          Inl err \<Rightarrow> Done (st, Inl err) | Inr _ \<Rightarrow> load_headers mp space img e st (iter_at img (Suc i)) (scan_with e ?ph scan))"
      using True scan by (subst load_headers.simps) (simp add: next_header [OF ok i len])
    have un: "P \<union> all_pages hs = ?P \<union> all_pages hs'" unfolding hs by auto
    have "card ?P \<le> card (P \<union> all_pages hs)" unfolding un by (intro card_mono) auto
    then have res: "4 * card ?P \<le> card (free_frames (allocator st0))" "tracked_count (allocator st0) + 4 * card ?P \<le> MAX_TRACKED_RANGES"
      using Suc.prems(8,9) by (auto intro: order_trans)
    have dis: "P \<inter> segment_pages ?ph = {}" "?P \<inter> all_pages hs' = {}" using Suc.prems(4,6) unfolding hs by auto
    have rest: "\<forall>ph\<in>set hs'. segment_ok img ph \<and> segment_hi ph \<le> 0x7ffff0000000" "apart_segments hs'"
      "\<forall>q\<in>all_pages hs'. view (tables st0) ?root q = None" "4 * card (?P \<union> all_pages hs') \<le> card (free_frames (allocator st0))"
      "tracked_count (allocator st0) + 4 * card (?P \<union> all_pages hs') \<le> MAX_TRACKED_RANGES"
      using Suc.prems(3,4,7-9) un unfolding hs by auto
    have IH: "runs (load_headers mp space img e st1 (iter_at img (Suc i)) (scan_with e ?ph scan)) (\<lambda>(st', r). r = Inr (fold (scan_with e) hs scan)
       \<and> (\<exists>C'. loaded view ?root st0 (P \<union> all_pages hs) C' st' \<and> (\<forall>p\<in>P. C' p = C p)
           \<and> (\<forall>ph\<in>set hs. \<forall>p\<in>segment_pages ph. C' p = segment_content img ph p)))"
      if L1: "loaded view ?root st0 ?P ?C st1" for st1
    proof (rule runs_conseq [OF Suc.hyps(1) [OF n hs'_def rest(1,2) L1 dis(2) rest(3-5)]], goal_cases)
      case (1 y)
      obtain st' r C' where y: "y = (st', r)" "r = Inr (fold (scan_with e) hs' (scan_with e ?ph scan))"
        "loaded view ?root st0 (?P \<union> all_pages hs') C' st'" "\<forall>p\<in>?P. C' p = ?C p"
        "\<forall>ph\<in>set hs'. \<forall>p\<in>segment_pages ph. C' p = segment_content img ph p" using 1 by (cases y) auto
      have "\<forall>p\<in>P. C' p = C p" using y(4) dis(1) by auto
      moreover have "\<forall>ph\<in>set hs. \<forall>p\<in>segment_pages ph. C' p = segment_content img ph p" using y(4,5) unfolding hs by auto
      ultimately show ?case using y(1-3) un hs by auto
    qed
    show ?thesis
      unfolding eq runs_bind
      by (rule runs_conseq [OF map_load_segment_runs [OF mp sok(1) len sok(2) Suc.prems(5) dis(1) _ res]])
        (use Suc.prems(7) hs IH in auto)
  qed
qed

section \<open>Properties\<close>

text \<open>The rights and the byte that user code sees at an address.\<close>

definition user_byte :: "(u64 \<Rightarrow> (u64 \<times> PageTableFlags) option) \<Rightarrow> (u64 \<Rightarrow> u8) \<Rightarrow> nat \<Rightarrow> (PageTableFlags \<times> u8) option" where
  "user_byte v mem a = (case v (of_nat (a div 4096 * 4096)) of None \<Rightarrow> None | Some (f, fl) \<Rightarrow> Some (fl, mem (f + of_nat (a mod 4096))))"

lemma segment_byte_visible:
  assumes ok: "segment_ok img ph" and has: "\<forall>p\<in>segment_pages ph. page_has v mem p (segment_content img ph p)"
    and a: "unat (virtual_address ph) \<le> a" "a < segment_end ph"
  shows "user_byte v mem a = Some (page_flags_for_segment (ph_flags ph), segment_byte img ph a)"
proof -
  let ?n = "a div 4096 * 4096"
  have al: "4096 dvd unat (virtual_address ph)" and hi: "segment_end ph \<le> 0x7ffffffff000" using ok by (auto simp: segment_ok_def alignment_ok_def)
  have un: "unat (of_nat ?n :: u64) = ?n"
    using a(2) hi by (subst unat_of_nat) (auto intro!: mod_less le_less_trans [OF div_times_less_eq_dividend])
  have "unat (virtual_address ph) \<le> ?n" using al a(1) by (auto elim!: dvdE simp: less_eq_div_iff_mult_less_eq mult.commute)
  moreover have "?n < segment_hi ph" using a(2) segment_hi_le [of ph] by (meson div_times_less_eq_dividend le_less_trans less_le_trans)
  ultimately have "of_nat ?n \<in> segment_pages ph" unfolding segment_pages_def pages_between_def page_in_def mem_Collect_eq un by simp
  then obtain f where f: "v (of_nat ?n) = Some (f, page_flags_for_segment (ph_flags ph))" "\<forall>k<4096. mem (f + of_nat k) = segment_byte img ph (?n + k)"
    using has un by (auto simp: page_has_def segment_content_def)
  have "?n + a mod 4096 = a" by (rule div_mult_mod_eq)
  then show ?thesis using f by (simp add: user_byte_def)
qed

lemma load_user_elf_eq:
  assumes len: "length img < 2 ^ 64" and ok: "program_ok img"
  defines "e \<equiv> UserVirtualAddress (VirtAddr (entry (elf_header_of img)))"
  shows "load_user_elf mp space st img = bind_run (load_headers mp space img e st (iter_at img 0) no_segments) (\<lambda>(st, r). case r of
     Inl err \<Rightarrow> Done (st, Inl err) | Inr scan \<Rightarrow> Done (st, finish_load e scan))"
proof -
  have "ElfFile_parse img = Done (Inr \<lparr>elf_bytes = img, elf_header = elf_header_of img\<rparr>)"
    using parse_eq [OF len] ok by (simp add: program_ok_def)
  moreover have "validate_entry_point (entry (elf_header_of img)) = Done (Inr e)"
    using ok by (simp add: validate_entry_point_def user_address_new header_fields program_ok_def e_def)
  moreover have "program_headers \<lparr>elf_bytes = img, elf_header = elf_header_of img\<rparr> = iter_at img 0" by (simp add: program_headers_def iter_at_def)
  ultimately show ?thesis by (simp add: load_user_elf_def)
qed


text \<open>One page, for the instances.\<close>

lemma minimal_load_pages:
  "load_headers_of minimal_image = [program_header_at minimal_image 64]"
  "segment_hi (program_header_at minimal_image 64) = 0x400000001000"
  "segment_pages (program_header_at minimal_image 64) = {0x400000000000}"
proof -
  let ?ph = "program_header_at minimal_image 64"
  have f: "field minimal_image 32 8 = 64" "field minimal_image 56 2 = 1" "field minimal_image 64 4 = 1"
    "field minimal_image 80 8 = 0x400000000000" "field minimal_image 104 8 = 4096"
    by (simp_all add: field_def minimal_image_def)
  show L: "load_headers_of minimal_image = [?ph]" by (rule single_segment [OF f(1-3)])
  show hi: "segment_hi ?ph = 0x400000001000" by (simp add: segment_hi_def header_fields_at f)
  have one: "n = 0x400000000000" if n: "4096 dvd n" "0x400000000000 \<le> n" "n < 0x400000001000" for n :: nat
  proof -
    obtain k where "n = 4096 * k" using n(1) by (rule dvdE)
    moreover from this n(2,3) have "k = 0x400000000" by linarith
    ultimately show ?thesis by simp
  qed
  have "page_in 0x400000000000 0x400000001000 p \<longleftrightarrow> unat p = 0x400000000000" for p :: u64
    unfolding page_in_def using one [of "unat p"] by auto
  then show "segment_pages ?ph = {0x400000000000}"
    by (simp add: segment_pages_def pages_between_def hi header_fields_at f set_eq_iff word_unat_eq_iff)
qed


section \<open>Programs that validate but cannot be loaded\<close>

lemma load_headers_high:
  assumes ok: "elf_image_ok img" and len: "length img < 2 ^ 64" and sok: "segment_ok img ph"
    and high: "0x7ffff0000000 \<le> unat (virtual_address ph)"
    and "i \<le> header_count img" "filter is_load (drop i (headers_of img)) = ph # hs"
  shows "load_headers mp space img e st (iter_at img i) scan = Panic"
  using assms(5,6)
proof (induction "header_count img - i" arbitrary: i)
  case 0
  then show ?case by (simp add: headers_of_def)
next
  case (Suc n)
  let ?ph = "program_header_at img (table_offset img + 56 * i)"
  have i: "i < header_count img" using Suc(2) by simp
  have d: "drop i (headers_of img) = ?ph # drop (Suc i) (headers_of img)"
    using i by (simp add: headers_of_def Cons_nth_drop_Suc [symmetric])
  show ?case
  proof (cases "is_load ?ph")
    case False
    then show ?thesis
      using Suc d i by (subst load_headers.simps) (simp add: next_header [OF ok i len])
  next
    case True
    then have ph: "?ph = ph" using Suc(4) d by simp
    have seg: "scan_segment img e ph scan = Done (Inr (scan_with e ph scan, segment_range_of ph))"
      using scan_segment_eq [OF len, of ph e scan] sok by simp
    have s: "0 < unat (memory_size ph)" "unat (ph_offset ph) + unat (file_size ph) \<le> length img" using sok by (auto simp: segment_ok_def)
    have f: "file_range_in_image img ph = Done (Inr ())" using s(2) len by (simp add: file_range_in_image_eq)
    have "\<not> UserPageStart_as_u64 (first_page (segment_range_of ph)) < USER_STACK_REGION_BASE"
      using high by (simp add: segment_range_of_def Let_def UserPageStart_as_u64_def UserVirtualAddress_as_u64_def word_less_nat_alt)
    then have "map_load_segment mp space st img ph (segment_range_of ph) = Panic"
      using s(1) f by (simp add: map_load_segment_def unat_gt_0 map_segment_pages.simps allocate_and_map_user_page_def assert_run_def)
    then show ?thesis
      using True seg by (subst load_headers.simps) (simp add: next_header [OF ok i len] ph)
  qed
qed

text \<open>
  C35: validation does not protect the loader from the stack area. A program that passes the
  validation, but whose first load segment starts in the stack area, makes the loader panic,
  whatever the address space and the state of memory: \<open>validate_user_program_image\<close> answers
  true and \<open>load_user_program\<close> does not return.
\<close>

theorem validated_program_panics:
  assumes len: "length img < 2 ^ 64" and ok: "program_ok img" and hs: "load_headers_of img = ph # hs"
    and high: "0x7ffff0000000 \<le> unat (virtual_address ph)"
  shows "validate_user_program_image img = Done True \<and> load_user_program mp space st img = Panic"
proof -
  have im: "elf_image_ok img" and sok: "segment_ok img ph" using ok hs by (simp_all add: program_ok_def)
  obtain r where r: "load_user_elf_metadata img = Done r" "case r of Inr l \<Rightarrow> program_ok img \<and> loaded_as img l | Inl _ \<Rightarrow> \<not> program_ok img"
    using metadata_runs [OF len] unfolding runs_iff by blast
  then have "validate_user_program_image img = Done True"
    using ok by (cases r) (simp_all add: validate_user_program_image_def)
  moreover have h0: "filter is_load (drop 0 (headers_of img)) = ph # hs" using hs by (simp add: load_headers_of_def)
  ultimately show ?thesis
    by (simp add: load_user_program_def load_user_elf_eq [OF len ok] load_headers_high [OF im len sok high le0 h0])
qed

text \<open>The minimal program of the self-check, moved to the start of the stack area.\<close>

definition high_image :: "u8 list" where
  "high_image =
     [0x7f, 0x45, 0x4c, 0x46, 2, 1, 1, 0, 0, 0, 0, 0, 0, 0, 0, 0,
      2, 0, 0x3e, 0, 1, 0, 0, 0, 0, 0, 0, 0xf0, 0xff, 0x7f, 0, 0,
      64, 0, 0, 0, 0, 0, 0, 0, 0, 0, 0, 0, 0, 0, 0, 0,
      0, 0, 0, 0, 64, 0, 56, 0, 1, 0, 0, 0, 0, 0, 0, 0,
      1, 0, 0, 0, 5, 0, 0, 0, 0, 0, 0, 0, 0, 0, 0, 0,
      0, 0, 0, 0xf0, 0xff, 0x7f, 0, 0, 0, 0, 0, 0, 0, 0, 0, 0,
      128, 0, 0, 0, 0, 0, 0, 0, 0, 16, 0, 0, 0, 0, 0, 0,
      0, 16, 0, 0, 0, 0, 0, 0, 0, 0, 0, 0, 0, 0, 0, 0]"

theorem validated_program_panics_witness:
  "validate_user_program_image high_image = Done True
   \<and> load_user_program flat_mapper sample_space (sample_memory frame_allocator_new) high_image = Panic"
proof -
  let ?ph = "program_header_at high_image 64"
  have f: "field high_image 32 8 = 64" "field high_image 56 2 = 1" "field high_image 64 4 = 1" "field high_image 24 8 = 0x7ffff0000000"
    "field high_image 68 4 = 5" "field high_image 72 8 = 0" "field high_image 80 8 = 0x7ffff0000000" "field high_image 96 8 = 128"
    "field high_image 104 8 = 4096" "field high_image 112 8 = 4096" and len: "length high_image = 128" and im: "elf_image_ok high_image"
    by (simp_all add: elf_image_ok_def field_def high_image_def)
  have fl: "ph_flags ?ph = 5" by (simp add: program_header_at_def f)
  have "(4096 :: nat) = 2 ^ 12" by simp
  then have "\<exists>k. 4096 = (2 :: nat) ^ k" by blast
  then have "segment_ok high_image ?ph" by (simp add: segment_ok_def alignment_ok_def header_fields_at f len fl)
  then have ok: "program_ok high_image"
    using im single_segment [OF f(1-3)] by (simp add: program_ok_def f header_fields_at fl)
  show ?thesis
    by (rule validated_program_panics [OF _ ok single_segment [OF f(1-3)]]) (simp_all add: len header_fields_at f)
qed

end
