(* ===== verification/Ring_Buffer.thy ===== *)
theory Ring_Buffer
  imports Fixed_Table
begin

text \<open>
  The single-producer single-consumer ring buffer of \<open>kernel/sync/ring_buffer.rs\<close>: the state,
  the operations run to completion, and the bounded queue they implement. The capacity \<open>N\<close> of
  the Rust type is the length of the buffer array.
\<close>

section \<open>State and operations\<close>

record 'a LockFreeRingBuffer =
  rb_buffer :: "'a option list"
  rb_head :: usize
  rb_tail :: usize

definition ring_new :: "nat \<Rightarrow> 'a LockFreeRingBuffer" where
  "ring_new n = \<lparr>rb_buffer = replicate n None, rb_head = 0, rb_tail = 0\<rparr>"

abbreviation ring_size :: "'a LockFreeRingBuffer \<Rightarrow> usize" where
  "ring_size self \<equiv> of_nat (length (rb_buffer self))"

text \<open>The expression \<open>(index + 1) % N\<close>: the addition is checked, and \<open>N = 0\<close> panics.\<close>

definition next_slot :: "'a LockFreeRingBuffer \<Rightarrow> usize \<Rightarrow> usize run" where
  "next_slot self index =
     bind_run (expect (checked_add index 1)) (\<lambda>i.
     bind_run (assert_run (ring_size self \<noteq> 0)) (\<lambda>_. Done (i mod ring_size self)))"

definition ring_push :: "'a LockFreeRingBuffer \<Rightarrow> 'a \<Rightarrow> ('a LockFreeRingBuffer \<times> ('a + unit)) run" where
  "ring_push self item =
     (let head = rb_head self; tail = rb_tail self in
      bind_run (next_slot self head) (\<lambda>next_head.
        if next_head = tail then Done (self, Inl item)
        else bind_run (array_set (rb_buffer self) (unat head) (Some item)) (\<lambda>buffer.
          Done (self\<lparr>rb_buffer := buffer, rb_head := next_head\<rparr>, Inr ()))))"

definition ring_pop :: "'a LockFreeRingBuffer \<Rightarrow> ('a LockFreeRingBuffer \<times> 'a option) run" where
  "ring_pop self =
     (let tail = rb_tail self; head = rb_head self in
      if head = tail then Done (self, None)
      else bind_run (array_get (rb_buffer self) (unat tail)) (\<lambda>item.
           bind_run (array_set (rb_buffer self) (unat tail) None) (\<lambda>buffer.
           bind_run (next_slot self tail) (\<lambda>next_tail.
             Done (self\<lparr>rb_buffer := buffer, rb_tail := next_tail\<rparr>, item)))))"

definition ring_len :: "'a LockFreeRingBuffer \<Rightarrow> usize run" where
  "ring_len self =
     (let head = rb_head self; tail = rb_tail self in
      if tail \<le> head then Done (head - tail)
      else bind_run (expect (checked_sub tail head)) (\<lambda>gap. expect (checked_sub (ring_size self) gap)))"

definition ring_is_empty :: "'a LockFreeRingBuffer \<Rightarrow> bool" where
  "ring_is_empty self = (rb_head self = rb_tail self)"

section \<open>The queue held by a ring\<close>

text \<open>
  \<open>slots_hold\<close> describes the array from the tail on: \<open>c\<close> gives the content of each slot by its
  distance from the tail. \<open>ring_holds r q\<close> says that the ring holds the queue \<open>q\<close>.
\<close>

definition slots_hold :: "'a LockFreeRingBuffer \<Rightarrow> nat \<Rightarrow> (nat \<Rightarrow> 'a option) \<Rightarrow> bool" where
  "slots_hold r n c \<longleftrightarrow> n < length (rb_buffer r) \<and> length (rb_buffer r) < 2 ^ 64 \<and> unat (rb_tail r) < length (rb_buffer r)
     \<and> unat (rb_head r) = (unat (rb_tail r) + n) mod length (rb_buffer r)
     \<and> (\<forall>i < length (rb_buffer r). rb_buffer r ! ((unat (rb_tail r) + i) mod length (rb_buffer r)) = c i)"

definition ring_holds :: "'a LockFreeRingBuffer \<Rightarrow> 'a list \<Rightarrow> bool" where
  "ring_holds r q \<longleftrightarrow> slots_hold r (length q) (\<lambda>i. if i < length q then Some (q ! i) else None)"

text \<open>The queue computed from a ring.\<close>

definition ring_items :: "'a LockFreeRingBuffer \<Rightarrow> 'a list" where
  "ring_items r = (let n = length (rb_buffer r) in
     map (\<lambda>i. the (rb_buffer r ! ((unat (rb_tail r) + i) mod n))) [0..<(unat (rb_head r) + n - unat (rb_tail r)) mod n])"

abbreviation ring_ok :: "'a LockFreeRingBuffer \<Rightarrow> bool" where
  "ring_ok r \<equiv> ring_holds r (ring_items r)"

lemma mod_shift_inj:
  assumes "(t + i) mod n = (t + j) mod n" "i < n" "j < (n :: nat)"
  shows "i = j"
proof -
  have *: "i \<le> j" if "(t + i) mod n = (t + j) mod n" "i < n" "j < n" for i j
  proof (rule ccontr)
    assume "\<not> i \<le> j"
    then have "n dvd (t + i) - (t + j)" using that mod_eq_dvd_iff_nat [of "t + j" "t + i" n] by simp
    then have "n dvd i - j" by simp
    then show False using \<open>\<not> i \<le> j\<close> that(2) by (auto dest: dvd_imp_le)
  qed
  from * [OF assms] * [OF assms(1) [symmetric] assms(3,2)] show ?thesis by simp
qed

lemma mod_lt: "a < n \<Longrightarrow> x mod n < (n :: nat)"
  by (intro mod_less_divisor) simp

lemma slots_hold_used:
  assumes "slots_hold r n c"
  shows "(unat (rb_head r) + length (rb_buffer r) - unat (rb_tail r)) mod length (rb_buffer r) = n"
proof -
  let ?N = "length (rb_buffer r)" and ?t = "unat (rb_tail r)"
  have b: "n < ?N" "?t < ?N" "unat (rb_head r) = (?t + n) mod ?N" using assms by (simp_all add: slots_hold_def)
  show ?thesis
  proof (cases "?t + n < ?N")
    case True
    then show ?thesis using b by simp
  next
    case False
    then have "unat (rb_head r) = ?t + n - ?N" using b by (simp add: mod_if)
    then show ?thesis using b False by simp
  qed
qed

lemma ring_items_holds: "ring_holds r q \<Longrightarrow> ring_items r = q"
proof -
  assume "ring_holds r q"
  then have s: "slots_hold r (length q) (\<lambda>i. if i < length q then Some (q ! i) else None)" by (simp add: ring_holds_def)
  from s have "\<forall>i < length q. rb_buffer r ! ((unat (rb_tail r) + i) mod length (rb_buffer r)) = Some (q ! i)" by (simp add: slots_hold_def)
  then show ?thesis unfolding ring_items_def Let_def slots_hold_used [OF s] by (intro nth_equalityI) simp_all
qed

lemma ring_holds_ok: "ring_holds r q \<Longrightarrow> ring_ok r \<and> ring_items r = q"
  using ring_items_holds by blast

lemma next_slot_runs:
  assumes "unat i < length (rb_buffer r)" "length (rb_buffer r) < 2 ^ 64"
  shows "\<exists>j. next_slot r i = Done j \<and> unat j = (unat i + 1) mod length (rb_buffer r)"
proof -
  have N: "unat (ring_size r) = length (rb_buffer r)" using assms(2) by (simp add: unat_of_nat)
  obtain k where k: "checked_add i 1 = Some k" "unat k = unat i + 1"
    using assms by (auto simp: checked_add_def unat_word_ariths)
  have "ring_size r \<noteq> 0" using assms(1) N by (metis gr_zeroI not_less_zero unat_0)
  then show ?thesis using k N by (simp add: next_slot_def unat_mod)
qed

lemma next_mod: "t < (n :: nat) \<Longrightarrow> ((t + i) mod n + 1) mod n = (t + Suc i) mod n"
  by (simp add: mod_Suc_eq)

text \<open>Reading and writing a slot by its distance from the tail.\<close>

lemma slot_set:
  assumes "\<forall>i < length b. b ! ((t + i) mod length b) = c i" "k < length b"
  shows "\<forall>i < length b. b[(t + k) mod length b := v] ! ((t + i) mod length b) = (c(k := v)) i"
proof (intro allI impI)
  fix i assume i: "i < length b"
  have len: "(t + k) mod length b < length b" "(t + i) mod length b < length b" using assms(2) by (auto intro: mod_less_divisor)
  show "b[(t + k) mod length b := v] ! ((t + i) mod length b) = (c(k := v)) i"
    using len assms(1) i mod_shift_inj [of t i "length b" k] assms(2) by (auto simp: nth_list_update)
qed

text \<open>Moving the tail by one.\<close>

lemma slots_shift:
  assumes h: "slots_hold r (Suc n) c" and j: "unat j = (unat (rb_tail r) + 1) mod length (rb_buffer r)"
    and d: "\<And>i. i < length (rb_buffer r) \<Longrightarrow> d i = c (Suc i mod length (rb_buffer r))"
  shows "slots_hold (r\<lparr>rb_tail := j\<rparr>) n d"
proof -
  let ?N = "length (rb_buffer r)" and ?t = "unat (rb_tail r)"
  have b: "Suc n < ?N" "?N < 2 ^ 64" "?t < ?N" "unat (rb_head r) = (?t + Suc n) mod ?N"
    and c: "\<forall>i < ?N. rb_buffer r ! ((?t + i) mod ?N) = c i" using h by (simp_all add: slots_hold_def)
  have m: "(unat j + i) mod ?N = (?t + Suc i) mod ?N" for i unfolding j by (simp add: mod_simps)
  have "rb_buffer r ! ((unat j + i) mod ?N) = d i" if "i < ?N" for i
  proof -
    have lt: "Suc i mod ?N < ?N" by (rule mod_lt [OF b(1)])
    have "(?t + Suc i) mod ?N = (?t + Suc i mod ?N) mod ?N" by (simp only: mod_add_right_eq)
    then show ?thesis using c lt d [OF that] m by metis
  qed
  moreover have "unat j < ?N" unfolding j by (rule mod_lt [OF b(1)])
  moreover have "unat (rb_head r) = (unat j + n) mod ?N" using m b(4) by simp
  ultimately show ?thesis using b by (simp add: slots_hold_def)
qed

section \<open>The operations on queues\<close>

lemma ring_new_holds: "0 < n \<Longrightarrow> n < 2 ^ 64 \<Longrightarrow> ring_holds (ring_new n) []"
  by (simp add: ring_holds_def slots_hold_def ring_new_def)

lemma next_is_tail:
  assumes "slots_hold r n c" "unat j = (unat (rb_head r) + 1) mod length (rb_buffer r)"
  shows "j = rb_tail r \<longleftrightarrow> Suc n = length (rb_buffer r)"
proof -
  let ?N = "length (rb_buffer r)" and ?t = "unat (rb_tail r)"
  have b: "n < ?N" "?t < ?N" "unat (rb_head r) = (?t + n) mod ?N" using assms(1) by (simp_all add: slots_hold_def)
  have j: "unat j = (?t + Suc n) mod ?N" unfolding assms(2) b(3) by (rule next_mod [OF b(2)])
  have "j = rb_tail r \<longleftrightarrow> (?t + Suc n) mod ?N = (?t + 0) mod ?N" using j b(2) by (simp add: word_unat_eq_iff)
  also have "\<dots> \<longleftrightarrow> Suc n = ?N"
  proof (cases "Suc n = ?N")
    case False
    then have "Suc n < ?N" "0 < ?N" using b(1) by linarith+
    then show ?thesis using False mod_shift_inj [of ?t "Suc n" ?N 0] by blast
  qed simp
  finally show ?thesis .
qed

lemma ring_push_runs:
  assumes h: "ring_holds r q"
  shows "runs (ring_push r x) (\<lambda>(r', res). length (rb_buffer r') = length (rb_buffer r) \<and>
     (if Suc (length q) < length (rb_buffer r) then res = Inr () \<and> ring_holds r' (q @ [x]) else res = Inl x \<and> r' = r))"
proof -
  let ?N = "length (rb_buffer r)" and ?t = "unat (rb_tail r)"
  let ?c = "\<lambda>i. if i < length q then Some (q ! i) else None"
  have s: "slots_hold r (length q) ?c" using h by (simp add: ring_holds_def)
  have b: "length q < ?N" "?N < 2 ^ 64" "?t < ?N" "unat (rb_head r) = (?t + length q) mod ?N"
    and c: "\<forall>i < ?N. rb_buffer r ! ((?t + i) mod ?N) = ?c i" using s by (simp_all add: slots_hold_def)
  have hd: "unat (rb_head r) < ?N" unfolding b(4) by (rule mod_lt [OF b(1)])
  obtain j where j: "next_slot r (rb_head r) = Done j" "unat j = (unat (rb_head r) + 1) mod ?N" using next_slot_runs [OF hd b(2)] by blast
  have full: "j = rb_tail r \<longleftrightarrow> Suc (length q) = ?N" by (rule next_is_tail [OF s j(2)])
  let ?r = "r\<lparr>rb_buffer := (rb_buffer r)[unat (rb_head r) := Some x], rb_head := j\<rparr>"
  have "ring_holds ?r (q @ [x])" if "Suc (length q) < ?N"
  proof -
    have "unat j = (?t + Suc (length q)) mod ?N" unfolding j(2) b(4) by (rule next_mod [OF b(3)])
    moreover have "(?c(length q := Some x)) i = (if i < length (q @ [x]) then Some ((q @ [x]) ! i) else None)" for i
      by (auto simp: nth_append less_Suc_eq)
    ultimately show ?thesis using b that slot_set [OF c b(1), of "Some x"] by (simp add: ring_holds_def slots_hold_def)
  qed
  then show ?thesis using j(1) full hd b(1) by (auto simp: ring_push_def Let_def)
qed

lemma ring_pop_runs:
  assumes h: "ring_holds r q"
  shows "runs (ring_pop r) (\<lambda>(r', res). length (rb_buffer r') = length (rb_buffer r) \<and>
     (case q of [] \<Rightarrow> res = None \<and> r' = r | x # xs \<Rightarrow> res = Some x \<and> ring_holds r' xs))"
proof -
  let ?N = "length (rb_buffer r)" and ?t = "unat (rb_tail r)"
  let ?c = "\<lambda>i. if i < length q then Some (q ! i) else None"
  have s: "slots_hold r (length q) ?c" using h by (simp add: ring_holds_def)
  have b: "length q < ?N" "?N < 2 ^ 64" "?t < ?N" "unat (rb_head r) = (?t + length q) mod ?N"
    and c: "\<forall>i < ?N. rb_buffer r ! ((?t + i) mod ?N) = ?c i" using s by (simp_all add: slots_hold_def)
  have empty: "rb_head r = rb_tail r \<longleftrightarrow> q = []"
    using mod_shift_inj [of ?t "length q" ?N 0, OF _ b(1) le_less_trans [OF le0 b(1)]] b(3,4) by (auto simp: word_unat_eq_iff)
  obtain j where j: "next_slot r (rb_tail r) = Done j" "unat j = (?t + 1) mod ?N" using next_slot_runs [OF b(3,2)] by blast
  show ?thesis
  proof (cases q)
    case Nil
    then show ?thesis using empty by (simp add: ring_pop_def Let_def)
  next
    case (Cons x xs)
    let ?r = "r\<lparr>rb_buffer := (rb_buffer r)[?t := None]\<rparr>"
    have c0: "rb_buffer r ! ?t = Some x" using c [rule_format, OF le_less_trans [OF le0 b(1)]] b(3) Cons by simp
    have sl: "\<forall>i < ?N. (rb_buffer r)[?t := None] ! ((?t + i) mod ?N) = (?c(0 := None)) i"
      using slot_set [OF c le_less_trans [OF le0 b(1)], of None] unfolding add_0_right mod_less [OF b(3)] .
    have "slots_hold ?r (Suc (length xs)) (?c(0 := None))"
      using b(1,2,4) Cons by (simp add: slots_hold_def sl b(3) del: fun_upd_apply)
    then have "slots_hold (?r\<lparr>rb_tail := j\<rparr>) (length xs) (\<lambda>i. if i < length xs then Some (xs ! i) else None)"
      by (rule slots_shift) (use j(2) Cons b(1) in \<open>auto simp: mod_Suc\<close>)
    then have "ring_holds (r\<lparr>rb_buffer := (rb_buffer r)[?t := None], rb_tail := j\<rparr>) xs" by (simp add: ring_holds_def)
    then show ?thesis using Cons empty b(3) c0 j(1) by (simp add: ring_pop_def Let_def)
  qed
qed

lemma ring_len_runs:
  assumes h: "ring_holds r q"
  shows "ring_len r = Done (of_nat (length q)) \<and> length q < 2 ^ 64"
proof -
  let ?N = "length (rb_buffer r)" and ?t = "unat (rb_tail r)"
  have b: "length q < ?N" "?N < 2 ^ 64" "?t < ?N" "unat (rb_head r) = (?t + length q) mod ?N" using h by (simp_all add: ring_holds_def slots_hold_def)
  have n: "unat (of_nat (length q) :: usize) = length q" using b by (simp add: unat_of_nat)
  have N: "unat (ring_size r) = ?N" using b(2) by (simp add: unat_of_nat)
  show ?thesis
  proof (cases "?t + length q < ?N")
    case True
    then have "rb_tail r \<le> rb_head r" "rb_head r - rb_tail r = of_nat (length q)"
      using b n by (simp_all add: word_le_nat_alt word_unat_eq_iff unat_sub)
    then show ?thesis using b by (simp add: ring_len_def Let_def)
  next
    case False
    then have hd: "unat (rb_head r) = ?t + length q - ?N" using b by (simp add: mod_if)
    have lt: "\<not> rb_tail r \<le> rb_head r" unfolding word_le_nat_alt hd using b(1,3) False by arith
    have g: "checked_sub (rb_tail r) (rb_head r) = Some (rb_tail r - rb_head r)" "unat (rb_tail r - rb_head r) = ?N - length q"
      using hd b False lt by (auto simp: checked_sub_def unat_sub word_le_nat_alt)
    have "checked_sub (ring_size r) (rb_tail r - rb_head r) = Some (of_nat (length q))"
      unfolding checked_sub_Some_iff N g(2) n using b by simp
    then show ?thesis using lt g b by (simp add: ring_len_def Let_def)
  qed
qed

section \<open>The bounded queue interface\<close>

text \<open>
  What a client may rely on: \<open>put\<close> appends or, when the queue is full, gives the item back;
  \<open>get\<close> takes the oldest item.
\<close>

locale bounded_fifo =
  fixes inv :: "'s \<Rightarrow> bool" and items :: "'s \<Rightarrow> 'a list" and capacity :: "'s \<Rightarrow> nat"
    and put :: "'s \<Rightarrow> 'a \<Rightarrow> ('s \<times> ('a + unit)) run" and get :: "'s \<Rightarrow> ('s \<times> 'a option) run"
  assumes within: "inv s \<Longrightarrow> length (items s) \<le> capacity s"
    and put_law: "inv s \<Longrightarrow> runs (put s x) (\<lambda>(s', r). inv s' \<and> capacity s' = capacity s
       \<and> (if length (items s) < capacity s then r = Inr () \<and> items s' = items s @ [x] else r = Inl x \<and> items s' = items s))"
    and get_law: "inv s \<Longrightarrow> runs (get s) (\<lambda>(s', r). inv s' \<and> capacity s' = capacity s
       \<and> (case items s of [] \<Rightarrow> r = None \<and> items s' = [] | x # xs \<Rightarrow> r = Some x \<and> items s' = xs))"
begin

lemma put_all:
  assumes "inv s"
  shows "runs (for_each (\<lambda>x s. bind_run (put s x) (\<lambda>(s, _). Done s)) xs s) (\<lambda>s'. inv s' \<and> capacity s' = capacity s
     \<and> items s' = items s @ take (capacity s - length (items s)) xs)"
  using assms
proof (induction xs arbitrary: s)
  case (Cons x xs)
  show ?case
    unfolding for_each.simps runs_bind
  proof (rule runs_conseq [OF put_law [OF Cons.prems, of x]], goal_cases)
    case (1 y)
    obtain s' r where y: "y = (s', r)" by (cases y)
    have i: "inv s'" "capacity s' = capacity s" using 1 y by auto
    show ?case
    proof (cases "length (items s) < capacity s")
      case True
      then have it: "items s' = items s @ [x]" using 1 y by simp
      have "capacity s - length (items s) = Suc (capacity s' - length (items s'))" using True i(2) it by simp
      then show ?thesis using Cons.IH [OF i(1)] y i(2) it by (auto elim: runs_conseq)
    next
      case False
      then have "items s' = items s" "capacity s - length (items s) = 0" using 1 y by simp_all
      then show ?thesis using Cons.IH [OF i(1)] y i(2) by (auto elim: runs_conseq)
    qed
  qed
qed simp

end

text \<open>A ring of \<open>N\<close> slots is a queue of capacity \<open>N - 1\<close>.\<close>

interpretation ring: bounded_fifo ring_ok ring_items "\<lambda>r. length (rb_buffer r) - 1" ring_push ring_pop
proof (unfold_locales, goal_cases)
  case (1 r)
  then show ?case by (auto simp: ring_holds_def slots_hold_def)
next
  case (2 r x)
  show ?case
  proof (rule runs_conseq [OF ring_push_runs [OF 2, of x]], clarify, goal_cases)
    case (1 r' res)
    then show ?case using 2 ring_holds_ok [of r' "ring_items r @ [x]"] by (simp add: less_diff_conv split: if_splits)
  qed
next
  case (3 r)
  show ?case
  proof (rule runs_conseq [OF ring_pop_runs [OF 3]], clarify, goal_cases)
    case (1 r' res)
    then show ?case using 3 ring_holds_ok [of r' "tl (ring_items r)"] by (simp split: list.splits)
  qed
qed

end
