(* ===== verification/Ring_Concurrent.thy ===== *)
theory Ring_Concurrent
  imports Ring_Buffer
begin

text \<open>
  The ring buffer shared between an interrupt handler that pushes and a main loop that pops.
  Each atomic load, slot access and atomic store of \<open>push\<close> and \<open>pop\<close> is one step, and the
  steps of the two sides interleave in any order. The acquire and release orderings of the
  code make the slot accesses of one side visible to the other in program order, so the steps
  act on one shared state.
\<close>

section \<open>Steps\<close>

text \<open>Where each side stands: what it has loaded so far.\<close>

datatype 'a producer =
    Push_Idle
  | Push_Loaded 'a usize
  | Push_Ready 'a usize usize
  | Push_Written 'a usize

datatype 'a consumer =
    Pop_Idle
  | Pop_Loaded usize
  | Pop_Ready usize
  | Pop_Taken usize "'a option"

text \<open>\<open>accepted\<close> and \<open>returned\<close> record the results the two sides have seen.\<close>

record 'a spsc =
  ring :: "'a LockFreeRingBuffer"
  producer :: "'a producer"
  consumer :: "'a consumer"
  accepted :: "'a list"
  returned :: "'a option list"

inductive spsc_step :: "'a spsc \<Rightarrow> 'a spsc \<Rightarrow> bool" where
  load_head: "producer s = Push_Idle \<Longrightarrow> spsc_step s (s\<lparr>producer := Push_Loaded x (rb_head (ring s))\<rparr>)"
| push_full: "producer s = Push_Loaded x h \<Longrightarrow> next_slot (ring s) h = Done n \<Longrightarrow> n = rb_tail (ring s)
    \<Longrightarrow> spsc_step s (s\<lparr>producer := Push_Idle\<rparr>)"
| push_room: "producer s = Push_Loaded x h \<Longrightarrow> next_slot (ring s) h = Done n \<Longrightarrow> n \<noteq> rb_tail (ring s)
    \<Longrightarrow> spsc_step s (s\<lparr>producer := Push_Ready x h n\<rparr>)"
| write_slot: "producer s = Push_Ready x h n \<Longrightarrow> array_set (rb_buffer (ring s)) (unat h) (Some x) = Done b
    \<Longrightarrow> spsc_step s (s\<lparr>ring := (ring s)\<lparr>rb_buffer := b\<rparr>, producer := Push_Written x n\<rparr>)"
| store_head: "producer s = Push_Written x n
    \<Longrightarrow> spsc_step s (s\<lparr>ring := (ring s)\<lparr>rb_head := n\<rparr>, producer := Push_Idle, accepted := accepted s @ [x]\<rparr>)"
| load_tail: "consumer s = Pop_Idle \<Longrightarrow> spsc_step s (s\<lparr>consumer := Pop_Loaded (rb_tail (ring s))\<rparr>)"
| pop_empty: "consumer s = Pop_Loaded t \<Longrightarrow> rb_head (ring s) = t \<Longrightarrow> spsc_step s (s\<lparr>consumer := Pop_Idle\<rparr>)"
| pop_some: "consumer s = Pop_Loaded t \<Longrightarrow> rb_head (ring s) \<noteq> t \<Longrightarrow> spsc_step s (s\<lparr>consumer := Pop_Ready t\<rparr>)"
| take_slot: "consumer s = Pop_Ready t \<Longrightarrow> array_get (rb_buffer (ring s)) (unat t) = Done item
    \<Longrightarrow> array_set (rb_buffer (ring s)) (unat t) None = Done b
    \<Longrightarrow> spsc_step s (s\<lparr>ring := (ring s)\<lparr>rb_buffer := b\<rparr>, consumer := Pop_Taken t item\<rparr>)"
| store_tail: "consumer s = Pop_Taken t item \<Longrightarrow> next_slot (ring s) t = Done n
    \<Longrightarrow> spsc_step s (s\<lparr>ring := (ring s)\<lparr>rb_tail := n\<rparr>, consumer := Pop_Idle, returned := returned s @ [item]\<rparr>)"

inductive spsc_run :: "'a spsc \<Rightarrow> 'a spsc \<Rightarrow> bool" where
  start: "spsc_run s s"
| step: "spsc_run s t \<Longrightarrow> spsc_step t u \<Longrightarrow> spsc_run s u"

definition spsc_new :: "nat \<Rightarrow> 'a spsc" where
  "spsc_new n = \<lparr>ring = ring_new n, producer = Push_Idle, consumer = Pop_Idle, accepted = [], returned = []\<rparr>"

section \<open>Invariant\<close>

fun written :: "'a producer \<Rightarrow> 'a option" where
  "written (Push_Written x n) = Some x"
| "written _ = None"

fun taken :: "'a consumer \<Rightarrow> bool" where
  "taken (Pop_Taken t i) = True"
| "taken _ = False"

text \<open>The slots from the tail on, when \<open>q\<close> is published and not yet released.\<close>

definition slot_of :: "'a spsc \<Rightarrow> 'a list \<Rightarrow> nat \<Rightarrow> 'a option" where
  "slot_of s q i =
     (if i < length q then if i = 0 \<and> taken (consumer s) then None else Some (q ! i)
      else if i = length q then written (producer s) else None)"

definition producer_ok :: "'a spsc \<Rightarrow> 'a list \<Rightarrow> bool" where
  "producer_ok s q =
     (case producer s of
        Push_Idle \<Rightarrow> True
      | Push_Loaded x h \<Rightarrow> h = rb_head (ring s)
      | Push_Ready x h n \<Rightarrow> h = rb_head (ring s) \<and> unat n = (unat h + 1) mod length (rb_buffer (ring s))
          \<and> Suc (length q) < length (rb_buffer (ring s))
      | Push_Written x n \<Rightarrow> unat n = (unat (rb_head (ring s)) + 1) mod length (rb_buffer (ring s))
          \<and> Suc (length q) < length (rb_buffer (ring s)))"

definition consumer_ok :: "'a spsc \<Rightarrow> 'a list \<Rightarrow> bool" where
  "consumer_ok s q =
     (case consumer s of
        Pop_Idle \<Rightarrow> True
      | Pop_Loaded t \<Rightarrow> t = rb_tail (ring s)
      | Pop_Ready t \<Rightarrow> t = rb_tail (ring s) \<and> q \<noteq> []
      | Pop_Taken t i \<Rightarrow> t = rb_tail (ring s) \<and> q \<noteq> [] \<and> i = Some (hd q))"

definition spsc_inv :: "'a spsc \<Rightarrow> 'a list \<Rightarrow> bool" where
  "spsc_inv s q \<longleftrightarrow> slots_hold (ring s) (length q) (slot_of s q) \<and> producer_ok s q \<and> consumer_ok s q
     \<and> map Some (accepted s) = returned s @ map Some q"

lemma spsc_new_inv: "0 < n \<Longrightarrow> n < 2 ^ 64 \<Longrightarrow> spsc_inv (spsc_new n) []"
  by (simp add: spsc_inv_def spsc_new_def slots_hold_def slot_of_def producer_ok_def consumer_ok_def ring_new_def)

lemma slots_head: "slots_hold r n c \<Longrightarrow> unat (rb_head r) < length (rb_buffer r)"
  unfolding slots_hold_def by (metis mod_lt)

lemma head_is_tail:
  assumes "slots_hold r n c"
  shows "rb_head r = rb_tail r \<longleftrightarrow> n = 0"
proof -
  let ?N = "length (rb_buffer r)" and ?t = "unat (rb_tail r)"
  have b: "n < ?N" "?t < ?N" "unat (rb_head r) = (?t + n) mod ?N" using assms by (simp_all add: slots_hold_def)
  show ?thesis
    using mod_shift_inj [of ?t n ?N 0, OF _ b(1) le_less_trans [OF le0 b(1)]] b(2,3) by (auto simp: word_unat_eq_iff)
qed

text \<open>Writing one slot.\<close>

lemma slots_update:
  assumes h: "slots_hold r n c" and k: "k < length (rb_buffer r)" "i = (unat (rb_tail r) + k) mod length (rb_buffer r)"
    and d: "\<And>j. (c(k := v)) j = d j"
  shows "slots_hold (r\<lparr>rb_buffer := (rb_buffer r)[i := v]\<rparr>) n d"
proof -
  have c: "\<forall>i < length (rb_buffer r). rb_buffer r ! ((unat (rb_tail r) + i) mod length (rb_buffer r)) = c i" using h by (simp add: slots_hold_def)
  have "c(k := v) = d" using d by blast
  then show ?thesis using h slot_set [OF c k(1), of v] unfolding k(2) by (simp add: slots_hold_def)
qed

lemma producer_step:
  assumes "spsc_inv s q"
  shows "producer s = Push_Idle \<Longrightarrow> spsc_inv (s\<lparr>producer := Push_Loaded x (rb_head (ring s))\<rparr>) q"
    and "producer s = Push_Loaded x h \<Longrightarrow> spsc_inv (s\<lparr>producer := Push_Idle\<rparr>) q"
    and "producer s = Push_Loaded x h \<Longrightarrow> next_slot (ring s) h = Done n \<Longrightarrow> n \<noteq> rb_tail (ring s)
      \<Longrightarrow> spsc_inv (s\<lparr>producer := Push_Ready x h n\<rparr>) q"
proof -
  have b: "slots_hold (ring s) (length q) (slot_of s q)" "consumer_ok s q" "map Some (accepted s) = returned s @ map Some q"
    "producer_ok s q" using assms by (simp_all add: spsc_inv_def)
  have keep: "spsc_inv (s\<lparr>producer := p\<rparr>) q" if "written (producer s) = written p" "producer_ok (s\<lparr>producer := p\<rparr>) q" for p
  proof -
    have "slot_of (s\<lparr>producer := p\<rparr>) q = slot_of s q" using that(1) by (auto simp: slot_of_def)
    then show ?thesis using b that(2) by (simp add: spsc_inv_def consumer_ok_def split: consumer.splits)
  qed
  show "spsc_inv (s\<lparr>producer := Push_Loaded x (rb_head (ring s))\<rparr>) q" if "producer s = Push_Idle"
    by (rule keep) (use that in \<open>simp_all add: producer_ok_def\<close>)
  show "spsc_inv (s\<lparr>producer := Push_Idle\<rparr>) q" if "producer s = Push_Loaded x h"
    by (rule keep) (use that in \<open>simp_all add: producer_ok_def\<close>)
  show "spsc_inv (s\<lparr>producer := Push_Ready x h n\<rparr>) q"
    if p: "producer s = Push_Loaded x h" and n: "next_slot (ring s) h = Done n" "n \<noteq> rb_tail (ring s)"
  proof (rule keep)
    have h: "h = rb_head (ring s)" using b(4) p by (simp add: producer_ok_def)
    have N: "length (rb_buffer (ring s)) < 2 ^ 64" "length q < length (rb_buffer (ring s))" using b(1) by (simp_all add: slots_hold_def)
    have "unat n = (unat h + 1) mod length (rb_buffer (ring s))"
      using next_slot_runs [of h "ring s"] slots_head [OF b(1)] N(1) n(1) h by auto
    then show "producer_ok (s\<lparr>producer := Push_Ready x h n\<rparr>) q"
      using next_is_tail [OF b(1), of n] n(2) h N(2) by (auto simp: producer_ok_def)
  qed (use p in simp)
qed

lemma write_step:
  assumes inv: "spsc_inv s q" and p: "producer s = Push_Ready x h n" and w: "array_set (rb_buffer (ring s)) (unat h) (Some x) = Done b"
  shows "spsc_inv (s\<lparr>ring := (ring s)\<lparr>rb_buffer := b\<rparr>, producer := Push_Written x n\<rparr>) q"
proof -
  let ?r = "ring s" and ?s = "s\<lparr>ring := (ring s)\<lparr>rb_buffer := b\<rparr>, producer := Push_Written x n\<rparr>"
  have sl: "slots_hold ?r (length q) (slot_of s q)" and c: "consumer_ok s q" and g: "map Some (accepted s) = returned s @ map Some q"
    and pr: "h = rb_head ?r" "unat n = (unat h + 1) mod length (rb_buffer ?r)" "Suc (length q) < length (rb_buffer ?r)"
    using inv p by (simp_all add: spsc_inv_def producer_ok_def)
  have b: "b = (rb_buffer ?r)[unat h := Some x]" using w slots_head [OF sl] pr(1) by simp
  have "slots_hold (?r\<lparr>rb_buffer := (rb_buffer ?r)[unat h := Some x]\<rparr>) (length q) (slot_of ?s q)"
    by (rule slots_update [OF sl, of "length q"]) (use sl pr p in \<open>auto simp: slots_hold_def slot_of_def\<close>)
  then show ?thesis using c g pr b by (simp add: spsc_inv_def producer_ok_def consumer_ok_def split: consumer.splits)
qed

lemma publish_step:
  assumes inv: "spsc_inv s q" and p: "producer s = Push_Written x n"
  shows "spsc_inv (s\<lparr>ring := (ring s)\<lparr>rb_head := n\<rparr>, producer := Push_Idle, accepted := accepted s @ [x]\<rparr>) (q @ [x])"
proof -
  let ?r = "ring s" and ?s = "s\<lparr>ring := (ring s)\<lparr>rb_head := n\<rparr>, producer := Push_Idle, accepted := accepted s @ [x]\<rparr>"
  let ?N = "length (rb_buffer ?r)" and ?t = "unat (rb_tail (ring s))"
  have sl: "slots_hold ?r (length q) (slot_of s q)" and c: "consumer_ok s q" and g: "map Some (accepted s) = returned s @ map Some q"
    and pr: "unat n = (unat (rb_head ?r) + 1) mod ?N" "Suc (length q) < ?N"
    using inv p by (simp_all add: spsc_inv_def producer_ok_def)
  have t: "?t < ?N" "unat (rb_head ?r) = (?t + length q) mod ?N" using sl by (simp_all add: slots_hold_def)
  have n: "unat n = (?t + Suc (length q)) mod ?N" unfolding pr(1) t(2) by (rule next_mod [OF t(1)])
  have "slot_of ?s (q @ [x]) = slot_of s q"
  proof
    fix i
    have "q \<noteq> []" if "taken (consumer s)" using c that by (cases "consumer s") (auto simp: consumer_ok_def)
    then show "slot_of ?s (q @ [x]) i = slot_of s q i" using p by (auto simp: slot_of_def nth_append less_Suc_eq)
  qed
  then have "slots_hold (?r\<lparr>rb_head := n\<rparr>) (length (q @ [x])) (slot_of ?s (q @ [x]))" using sl pr(2) n by (simp add: slots_hold_def)
  then show ?thesis using c g by (auto simp: spsc_inv_def producer_ok_def consumer_ok_def split: consumer.splits)
qed

lemma consumer_step:
  assumes "spsc_inv s q"
  shows "consumer s = Pop_Idle \<Longrightarrow> spsc_inv (s\<lparr>consumer := Pop_Loaded (rb_tail (ring s))\<rparr>) q"
    and "consumer s = Pop_Loaded t \<Longrightarrow> spsc_inv (s\<lparr>consumer := Pop_Idle\<rparr>) q"
    and "consumer s = Pop_Loaded t \<Longrightarrow> rb_head (ring s) \<noteq> t \<Longrightarrow> spsc_inv (s\<lparr>consumer := Pop_Ready t\<rparr>) q"
proof -
  have b: "slots_hold (ring s) (length q) (slot_of s q)" "producer_ok s q" "map Some (accepted s) = returned s @ map Some q"
    "consumer_ok s q" using assms by (simp_all add: spsc_inv_def)
  have keep: "spsc_inv (s\<lparr>consumer := c\<rparr>) q" if "taken (consumer s) = taken c" "consumer_ok (s\<lparr>consumer := c\<rparr>) q" for c
  proof -
    have "slot_of (s\<lparr>consumer := c\<rparr>) q = slot_of s q" using that(1) by (auto simp: slot_of_def)
    then show ?thesis using b that(2) by (simp add: spsc_inv_def producer_ok_def split: producer.splits)
  qed
  show "spsc_inv (s\<lparr>consumer := Pop_Loaded (rb_tail (ring s))\<rparr>) q" if "consumer s = Pop_Idle"
    by (rule keep) (use that in \<open>simp_all add: consumer_ok_def\<close>)
  show "spsc_inv (s\<lparr>consumer := Pop_Idle\<rparr>) q" if "consumer s = Pop_Loaded t"
    by (rule keep) (use that in \<open>simp_all add: consumer_ok_def\<close>)
  show "spsc_inv (s\<lparr>consumer := Pop_Ready t\<rparr>) q" if "consumer s = Pop_Loaded t" "rb_head (ring s) \<noteq> t"
    by (rule keep) (use that b(4) head_is_tail [OF b(1)] in \<open>auto simp: consumer_ok_def\<close>)
qed

lemma take_step:
  assumes inv: "spsc_inv s q" and c: "consumer s = Pop_Ready t" and r: "array_get (rb_buffer (ring s)) (unat t) = Done item"
    and w: "array_set (rb_buffer (ring s)) (unat t) None = Done b"
  shows "spsc_inv (s\<lparr>ring := (ring s)\<lparr>rb_buffer := b\<rparr>, consumer := Pop_Taken t item\<rparr>) q"
proof -
  let ?r = "ring s" and ?s = "s\<lparr>ring := (ring s)\<lparr>rb_buffer := b\<rparr>, consumer := Pop_Taken t item\<rparr>"
  have sl: "slots_hold ?r (length q) (slot_of s q)" and p: "producer_ok s q" and g: "map Some (accepted s) = returned s @ map Some q"
    and cr: "t = rb_tail ?r" "q \<noteq> []"
    using inv c by (simp_all add: spsc_inv_def consumer_ok_def)
  have t: "unat t < length (rb_buffer ?r)" using sl cr(1) by (simp add: slots_hold_def)
  have b: "b = (rb_buffer ?r)[unat t := None]" "item = rb_buffer ?r ! unat t" using w r t by simp_all
  have "rb_buffer ?r ! ((unat t + 0) mod length (rb_buffer ?r)) = slot_of s q 0"
    using sl cr t unfolding slots_hold_def by (metis le_less_trans le0)
  then have item: "item = Some (hd q)" using b(2) t cr(2) c by (simp add: slot_of_def hd_conv_nth)
  have "slots_hold (?r\<lparr>rb_buffer := (rb_buffer ?r)[unat t := None]\<rparr>) (length q) (slot_of ?s q)"
    by (rule slots_update [OF sl le_less_trans [OF le0 t]]) (use cr t c in \<open>auto simp: slot_of_def\<close>)
  then show ?thesis using p g cr b(1) item by (simp add: spsc_inv_def producer_ok_def consumer_ok_def split: producer.splits)
qed

lemma release_step:
  assumes inv: "spsc_inv s q" and c: "consumer s = Pop_Taken t item" and n: "next_slot (ring s) t = Done n"
  shows "spsc_inv (s\<lparr>ring := (ring s)\<lparr>rb_tail := n\<rparr>, consumer := Pop_Idle, returned := returned s @ [item]\<rparr>) (tl q)"
proof -
  let ?r = "ring s" and ?s = "s\<lparr>ring := (ring s)\<lparr>rb_tail := n\<rparr>, consumer := Pop_Idle, returned := returned s @ [item]\<rparr>"
  let ?N = "length (rb_buffer (ring s))"
  have sl: "slots_hold ?r (length q) (slot_of s q)" and p: "producer_ok s q" and g: "map Some (accepted s) = returned s @ map Some q"
    and cr: "t = rb_tail ?r" "q \<noteq> []" "item = Some (hd q)"
    using inv c by (simp_all add: spsc_inv_def consumer_ok_def)
  obtain x xs where q: "q = x # xs" using cr(2) by (cases q) auto
  have t: "unat t < ?N" "?N < 2 ^ 64" "Suc (length xs) < ?N" using sl cr(1) q by (simp_all add: slots_hold_def)
  have n': "unat n = (unat (rb_tail ?r) + 1) mod ?N" using next_slot_runs [OF t(1,2)] n cr(1) by auto
  have room: "Suc (Suc (length xs)) < ?N" if "written (producer s) = Some y" for y
    using p that q by (cases "producer s") (simp_all add: producer_ok_def)
  have "slots_hold (?r\<lparr>rb_tail := n\<rparr>) (length xs) (slot_of ?s xs)"
  proof (rule slots_shift [OF _ n'])
    show "slots_hold ?r (Suc (length xs)) (slot_of s q)" using sl q by simp
    fix i assume i: "i < ?N"
    show "slot_of ?s xs i = slot_of s q (Suc i mod ?N)"
    proof (cases "Suc i = ?N")
      case True
      then have "written (producer s) = None \<or> i \<noteq> length xs" using room by (cases "written (producer s)") auto
      then show ?thesis using True t(3) c q by (auto simp: slot_of_def)
    next
      case False
      then have "Suc i mod ?N = Suc i" using i by simp
      then show ?thesis using c q by (simp add: slot_of_def)
    qed
  qed
  then show ?thesis using p g q cr(3) by (auto simp: spsc_inv_def producer_ok_def consumer_ok_def split: producer.splits)
qed

lemma spsc_step_inv:
  assumes "spsc_step s s'" "spsc_inv s q"
  shows "\<exists>q'. spsc_inv s' q' \<and> length (rb_buffer (ring s')) = length (rb_buffer (ring s))"
  using assms
proof (cases rule: spsc_step.cases)
  case (load_head x)
  then show ?thesis using producer_step(1) [OF assms(2)] by auto
next
  case (push_full x h n)
  then show ?thesis using producer_step(2) [OF assms(2)] by auto
next
  case (push_room x h n)
  then show ?thesis using producer_step(3) [OF assms(2) push_room(2-4)] by auto
next
  case (write_slot x h n b)
  then have "length b = length (rb_buffer (ring s))" by (auto simp: array_set_def split: if_splits)
  then show ?thesis using write_step [OF assms(2) write_slot(2,3)] write_slot(1) by auto
next
  case (store_head x n)
  then show ?thesis using publish_step [OF assms(2) store_head(2)] by auto
next
  case load_tail
  then show ?thesis using consumer_step(1) [OF assms(2)] by auto
next
  case (pop_empty t)
  then show ?thesis using consumer_step(2) [OF assms(2)] by auto
next
  case (pop_some t)
  then show ?thesis using consumer_step(3) [OF assms(2) pop_some(2,3)] by auto
next
  case (take_slot t item b)
  then have "length b = length (rb_buffer (ring s))" by (auto simp: array_set_def split: if_splits)
  then show ?thesis using take_step [OF assms(2) take_slot(2-4)] take_slot(1) by auto
next
  case (store_tail t item n)
  then show ?thesis using release_step [OF assms(2) store_tail(2,3)] by auto
qed

lemma spsc_run_inv: "spsc_run s s' \<Longrightarrow> spsc_inv s q \<Longrightarrow> \<exists>q'. spsc_inv s' q' \<and> length (rb_buffer (ring s')) = length (rb_buffer (ring s))"
proof (induction rule: spsc_run.induct)
  case (step s t u)
  from step.IH [OF step.prems] obtain q' where q': "spsc_inv t q'" "length (rb_buffer (ring t)) = length (rb_buffer (ring s))" by blast
  from spsc_step_inv [OF step.hyps(2) q'(1)] q'(2) show ?case by auto
qed auto

text \<open>No side is ever stuck: the next step of each exists, whatever the other side does.\<close>

lemma spsc_progress:
  assumes "spsc_inv s q"
  shows "\<exists>s'. spsc_step s s' \<and> consumer s' = consumer s \<and> producer s' \<noteq> producer s"
    and "\<exists>s'. spsc_step s s' \<and> producer s' = producer s \<and> consumer s' \<noteq> consumer s"
proof -
  have sl: "slots_hold (ring s) (length q) (slot_of s q)" and p: "producer_ok s q" and c: "consumer_ok s q"
    using assms by (simp_all add: spsc_inv_def)
  have N: "length (rb_buffer (ring s)) < 2 ^ 64" and t: "unat (rb_tail (ring s)) < length (rb_buffer (ring s))"
    using sl by (simp_all add: slots_hold_def)
  note h = slots_head [OF sl]
  obtain n m where nm: "next_slot (ring s) (rb_head (ring s)) = Done n" "next_slot (ring s) (rb_tail (ring s)) = Done m"
    using next_slot_runs [OF h N] next_slot_runs [OF t N] by blast
  show "\<exists>s'. spsc_step s s' \<and> consumer s' = consumer s \<and> producer s' \<noteq> producer s"
  proof (cases "producer s")
    case Push_Idle
    show ?thesis by (rule exI, rule conjI, rule load_head [OF Push_Idle, of undefined]) (simp add: Push_Idle)
  next
    case (Push_Loaded x k)
    then have k: "next_slot (ring s) k = Done n" using p nm(1) by (simp add: producer_ok_def)
    show ?thesis
    proof (cases "n = rb_tail (ring s)")
      case True
      show ?thesis by (rule exI, rule conjI, rule push_full [OF Push_Loaded k True]) (simp add: Push_Loaded)
    next
      case False
      show ?thesis by (rule exI, rule conjI, rule push_room [OF Push_Loaded k False]) (simp add: Push_Loaded)
    qed
  next
    case (Push_Ready x k m)
    then have w: "array_set (rb_buffer (ring s)) (unat k) (Some x) = Done ((rb_buffer (ring s))[unat k := Some x])"
      using p h by (simp add: producer_ok_def)
    show ?thesis by (rule exI, rule conjI, rule write_slot [OF Push_Ready w]) (simp add: Push_Ready)
  next
    case (Push_Written x k)
    show ?thesis by (rule exI, rule conjI, rule store_head [OF Push_Written]) (simp add: Push_Written)
  qed
  show "\<exists>s'. spsc_step s s' \<and> producer s' = producer s \<and> consumer s' \<noteq> consumer s"
  proof (cases "consumer s")
    case Pop_Idle
    show ?thesis by (rule exI, rule conjI, rule load_tail [OF Pop_Idle]) (simp add: Pop_Idle)
  next
    case (Pop_Loaded k)
    show ?thesis
    proof (cases "rb_head (ring s) = k")
      case True
      show ?thesis by (rule exI, rule conjI, rule pop_empty [OF Pop_Loaded True]) (simp add: Pop_Loaded)
    next
      case False
      show ?thesis by (rule exI, rule conjI, rule pop_some [OF Pop_Loaded False]) (simp add: Pop_Loaded)
    qed
  next
    case (Pop_Ready k)
    then have k: "unat k < length (rb_buffer (ring s))" using c t by (simp add: consumer_ok_def)
    show ?thesis by (rule exI, rule conjI, rule take_slot [OF Pop_Ready array_get_Done [OF k] array_set_Done [OF k]]) (simp add: Pop_Ready)
  next
    case (Pop_Taken k i)
    then have w: "next_slot (ring s) k = Done m" using c nm(2) by (simp add: consumer_ok_def)
    show ?thesis by (rule exI, rule conjI, rule store_tail [OF Pop_Taken w]) (simp add: Pop_Taken)
  qed
qed

section \<open>Property\<close>

text \<open>
  C11: the ring buffer under concurrency. However the steps of one producer and one consumer
  interleave, the items that the consumer has received are the first of the items that the
  producer has seen accepted, in order, none lost and none twice; at most \<open>N - 1\<close> accepted items
  are waiting. The two sides never access the same slot at the same time, and neither side is
  ever stuck, whatever the other one does.
\<close>

theorem spsc_fifo:
  assumes "0 < n" "n < 2 ^ 64" "spsc_run (spsc_new n) s"
  shows "(\<exists>q. map Some (accepted s) = returned s @ map Some q \<and> length q < n)
     \<and> (\<forall>x h m t. producer s = Push_Ready x h m \<and> consumer s = Pop_Ready t \<longrightarrow> h \<noteq> t)
     \<and> (\<exists>s'. spsc_step s s' \<and> consumer s' = consumer s \<and> producer s' \<noteq> producer s)
     \<and> (\<exists>s'. spsc_step s s' \<and> producer s' = producer s \<and> consumer s' \<noteq> consumer s)"
proof -
  obtain q where q: "spsc_inv s q" "length (rb_buffer (ring s)) = n"
    using spsc_run_inv [OF assms(3) spsc_new_inv [OF assms(1,2)]] by (auto simp: spsc_new_def ring_new_def)
  have sl: "slots_hold (ring s) (length q) (slot_of s q)" using q(1) by (simp add: spsc_inv_def)
  have "h \<noteq> t" if "producer s = Push_Ready x h m" "consumer s = Pop_Ready t" for x h m t
    using q(1) that head_is_tail [OF sl] by (auto simp: spsc_inv_def producer_ok_def consumer_ok_def)
  moreover have "map Some (accepted s) = returned s @ map Some q" "length q < n" using q by (simp_all add: spsc_inv_def slots_hold_def)
  ultimately show ?thesis using spsc_progress [OF q(1)] by blast
qed

text \<open>One push on a ring of two slots, step by step.\<close>

lemma one_push:
  "\<exists>s. spsc_run (spsc_new 2 :: u8 spsc) s \<and> accepted s = [7] \<and> returned s = []"
proof -
  let ?s0 = "spsc_new 2 :: u8 spsc"
  let ?s1 = "?s0\<lparr>producer := Push_Loaded 7 0\<rparr>"
  let ?s2 = "?s1\<lparr>producer := Push_Ready 7 0 1\<rparr>"
  let ?s3 = "?s2\<lparr>ring := (ring ?s2)\<lparr>rb_buffer := [Some 7, None]\<rparr>, producer := Push_Written 7 1\<rparr>"
  let ?s4 = "?s3\<lparr>ring := (ring ?s3)\<lparr>rb_head := 1\<rparr>, producer := Push_Idle, accepted := accepted ?s3 @ [7]\<rparr>"
  have r: "rb_head (ring ?s0) = 0" "rb_tail (ring ?s0) = 0" "rb_buffer (ring ?s0) = [None, None]"
    by (simp_all add: spsc_new_def ring_new_def numeral_2_eq_2)
  have 1: "spsc_step ?s0 ?s1" using load_head [of ?s0 7] r(1) by (simp add: spsc_new_def)
  have n: "next_slot (ring ?s1) 0 = Done 1" using r(3) by (simp add: next_slot_def checked_add_def)
  have 2: "spsc_step ?s1 ?s2" using push_room [of ?s1 7 0 1] n r(2) by simp
  have 3: "spsc_step ?s2 ?s3" using write_slot [of ?s2 7 0 1 "[Some 7, None]"] r(3) by simp
  have 4: "spsc_step ?s3 ?s4" using store_head [of ?s3 7 1] by simp
  have "spsc_run ?s0 ?s4"
    by (rule spsc_run.step [OF spsc_run.step [OF spsc_run.step [OF spsc_run.step [OF spsc_run.start 1] 2] 3] 4])
  then show ?thesis by (intro exI [of _ ?s4]) (simp add: spsc_new_def)
qed

theorem spsc_fifo_witness:
  "\<exists>s. spsc_run (spsc_new 2 :: u8 spsc) s \<and> accepted s = [7] \<and> (\<exists>q. map Some [7] = returned s @ map Some q \<and> length q < 2)
     \<and> (\<exists>s'. spsc_step s s' \<and> producer s' = producer s \<and> consumer s' \<noteq> consumer s)"
proof -
  obtain s where s: "spsc_run (spsc_new 2 :: u8 spsc) s" "accepted s = [7]" using one_push by blast
  have "0 < (2 :: nat)" "(2 :: nat) < 2 ^ 64" by simp_all
  from spsc_fifo [OF this s(1)] s show ?thesis by auto
qed

end
