(* ===== verification/Input_Queues.thy ===== *)
theory Input_Queues
  imports Ring_Buffer
begin

text \<open>
  The clients of the ring buffer: the keyboard scancode queue and the byte queue behind standard
  input (\<open>driver/input/keyboard\<close>), and the mouse packet decoder (\<open>driver/input/mouse\<close>). The global
  queues are passed in and returned. A Rust \<open>char\<close> is its Unicode scalar value.
\<close>

section \<open>Keyboard queues\<close>

type_synonym byte_queue = "u8 LockFreeRingBuffer"

definition push_scancode :: "byte_queue \<Rightarrow> u8 \<Rightarrow> byte_queue run" where
  "push_scancode queue scancode = map_run fst (ring_push queue scancode)"

definition pop_scancode :: "byte_queue \<Rightarrow> (byte_queue \<times> u8 option) run" where
  "pop_scancode queue = ring_pop queue"

definition stdin_push_byte :: "byte_queue \<Rightarrow> u8 \<Rightarrow> byte_queue run" where
  "stdin_push_byte queue byte = map_run fst (ring_push queue byte)"

definition stdin_push_bytes :: "byte_queue \<Rightarrow> u8 list \<Rightarrow> byte_queue run" where
  "stdin_push_bytes queue bytes = for_each (\<lambda>byte queue. stdin_push_byte queue byte) bytes queue"

text \<open>\<open>char::encode_utf8\<close> of the Rust core library.\<close>

definition encode_utf8 :: "u32 \<Rightarrow> u8 list" where
  "encode_utf8 c =
     (if c < 0x80 then [ucast c]
      else if c < 0x800 then [ucast (drop_bit 6 c) OR 0xc0, ucast (c AND 0x3f) OR 0x80]
      else if c < 0x10000
      then [ucast (drop_bit 12 c) OR 0xe0, ucast (drop_bit 6 c AND 0x3f) OR 0x80, ucast (c AND 0x3f) OR 0x80]
      else [ucast (drop_bit 18 c) OR 0xf0, ucast (drop_bit 12 c AND 0x3f) OR 0x80,
            ucast (drop_bit 6 c AND 0x3f) OR 0x80, ucast (c AND 0x3f) OR 0x80])"

definition stdin_push_character :: "byte_queue \<Rightarrow> u32 \<Rightarrow> byte_queue run" where
  "stdin_push_character queue character =
     (if character = 13 then stdin_push_byte queue 10 else stdin_push_bytes queue (encode_utf8 character))"

lemma pop_shrinks:
  assumes "ring_pop queue = Done (queue', Some x)"
  shows "length (filter (\<lambda>s. s \<noteq> None) (rb_buffer queue')) < length (filter (\<lambda>s. s \<noteq> None) (rb_buffer queue))"
proof -
  obtain i where i: "i < length (rb_buffer queue)" "rb_buffer queue ! i = Some x" "rb_buffer queue' = (rb_buffer queue)[i := None]"
    using assms by (auto simp: ring_pop_def Let_def array_get_def array_set_def run_iffs split: if_splits)
  let ?b = "rb_buffer queue" and ?p = "\<lambda>s. s \<noteq> None"
  have "filter ?p (?b[i := None]) = filter ?p (take i ?b) @ filter ?p (drop (Suc i) ?b)"
    using i(1) by (simp add: upd_conv_take_nth_drop)
  moreover have "filter ?p ?b = filter ?p (take i ?b) @ Some x # filter ?p (drop (Suc i) ?b)"
    using i(1,2) by (subst id_take_nth_drop [OF i(1)]) simp
  ultimately show ?thesis using i(3) by simp
qed

function stdin_clear_buffer :: "byte_queue \<Rightarrow> byte_queue run" where
  "stdin_clear_buffer queue =
     bind_run (ring_pop queue) (\<lambda>(queue, item).
       case item of None \<Rightarrow> Done queue | Some _ \<Rightarrow> stdin_clear_buffer queue)"
  by pat_completeness auto
termination
  by (relation "measure (\<lambda>queue. length (filter (\<lambda>s. s \<noteq> None) (rb_buffer queue)))") (auto dest: pop_shrinks)

declare stdin_clear_buffer.simps [simp del]

text \<open>\<open>get_bytes\<close> writes the popped bytes to the front of the caller's buffer and counts them.\<close>

fun stdin_get_bytes :: "byte_queue \<Rightarrow> u8 list \<Rightarrow> ((byte_queue \<times> u8 list) \<times> nat) run" where
  "stdin_get_bytes queue [] = Done ((queue, []), 0)"
| "stdin_get_bytes queue (byte # rest) =
     bind_run (ring_pop queue) (\<lambda>(queue, item).
       case item of
         None \<Rightarrow> Done ((queue, byte # rest), 0)
       | Some queued_byte \<Rightarrow>
           bind_run (stdin_get_bytes queue rest) (\<lambda>((queue, rest), bytes_read).
             Done ((queue, queued_byte # rest), Suc bytes_read)))"

definition stdin_get_byte_count :: "byte_queue \<Rightarrow> usize run" where
  "stdin_get_byte_count queue = ring_len queue"

section \<open>Mouse packets\<close>

text \<open>The \<open>i32\<close> fields are integers; an addition that leaves the range of \<open>i32\<close> panics.\<close>

record MousePacket =
  delta_x :: int
  delta_y :: int
  left_button :: bool
  right_button :: bool
  middle_button :: bool

definition MousePacket_parse :: "u8 \<Rightarrow> u8 \<Rightarrow> u8 \<Rightarrow> MousePacket option" where
  "MousePacket_parse b0 b1 b2 =
     (if b0 AND 0x08 = 0 then None
      else Some \<lparr>delta_x = sint b1, delta_y = - sint b2, left_button = (b0 AND 0x01 \<noteq> 0),
                 right_button = (b0 AND 0x02 \<noteq> 0), middle_button = (b0 AND 0x04 \<noteq> 0)\<rparr>)"

record PacketDecoder =
  first_byte :: u8
  second_byte :: u8
  decoder_count :: u8

definition PacketDecoder_new :: PacketDecoder where
  "PacketDecoder_new = \<lparr>first_byte = 0, second_byte = 0, decoder_count = 0\<rparr>"

definition decoder_push_byte :: "PacketDecoder \<Rightarrow> u8 \<Rightarrow> PacketDecoder \<times> MousePacket option" where
  "decoder_push_byte self byte =
     (if decoder_count self = 0 then
        (if byte AND 0x08 \<noteq> 0 then self\<lparr>first_byte := byte, decoder_count := 1\<rparr> else self, None)
      else if decoder_count self = 1 then (self\<lparr>second_byte := byte, decoder_count := 2\<rparr>, None)
      else if decoder_count self = 2 then
        (self\<lparr>decoder_count := 0\<rparr>, MousePacket_parse (first_byte self) (second_byte self) byte)
      else (self\<lparr>decoder_count := 0\<rparr>, None))"

record MouseState =
  mouse_x :: int
  mouse_y :: int
  mouse_left :: bool
  mouse_right :: bool
  mouse_middle :: bool

definition i32_add :: "int \<Rightarrow> int \<Rightarrow> int run" where
  "i32_add a b = (if - (2 ^ 31) \<le> a + b \<and> a + b < 2 ^ 31 then Done (a + b) else Panic)"

definition i32_try_from :: "usize \<Rightarrow> int option" where
  "i32_try_from w = (if unat w < 2 ^ 31 then Some (int (unat w)) else None)"

definition clamp :: "int \<Rightarrow> int \<Rightarrow> int \<Rightarrow> int" where
  "clamp v lo hi = (if v < lo then lo else if hi < v then hi else v)"

text \<open>\<open>graphics\<close> is the resolution of the framebuffer; the code panics when there is none.\<close>

definition process_packet :: "(usize \<times> usize) option \<Rightarrow> MouseState \<Rightarrow> MousePacket \<Rightarrow> MouseState run" where
  "process_packet graphics state packet =
     bind_run (i32_add (mouse_x state) (delta_x packet)) (\<lambda>x.
     bind_run (i32_add (mouse_y state) (delta_y packet)) (\<lambda>y.
     let state = \<lparr>mouse_x = x, mouse_y = y, mouse_left = left_button packet, mouse_right = right_button packet,
                  mouse_middle = middle_button packet\<rparr> in
     bind_run (expect graphics) (\<lambda>(horizontal, vertical).
     let width = (case i32_try_from horizontal of None \<Rightarrow> 0 | Some w \<Rightarrow> w);
         height = (case i32_try_from vertical of None \<Rightarrow> 0 | Some h \<Rightarrow> h) in
     Done (state\<lparr>mouse_x := clamp x 0 (max (width - 16) 0), mouse_y := clamp y 0 (max (height - 16) 0)\<rparr>))))"

function process_packets ::
    "(usize \<times> usize) option \<Rightarrow> byte_queue \<Rightarrow> PacketDecoder \<Rightarrow> MouseState \<Rightarrow> (byte_queue \<times> PacketDecoder \<times> MouseState) run" where
  "process_packets graphics queue decoder state =
     bind_run (ring_pop queue) (\<lambda>(queue, item).
       case item of
         None \<Rightarrow> Done (queue, decoder, state)
       | Some byte \<Rightarrow>
           (case decoder_push_byte decoder byte of
              (decoder, None) \<Rightarrow> process_packets graphics queue decoder state
            | (decoder, Some packet) \<Rightarrow>
                bind_run (process_packet graphics state packet) (\<lambda>state. process_packets graphics queue decoder state)))"
  by pat_completeness auto
termination
  by (relation "measure (\<lambda>(g, queue, d, s). length (filter (\<lambda>s. s \<noteq> None) (rb_buffer queue)))") (auto dest: pop_shrinks)

declare process_packets.simps [simp del]

section \<open>Properties of the queues\<close>

lemma new_byte_queue:
  assumes "0 < n" "n < 2 ^ 64"
  shows "ring_ok (ring_new n :: byte_queue)" "ring_items (ring_new n :: byte_queue) = []"
  using ring_holds_ok [OF ring_new_holds [OF assms]] by blast+

lemma ring_size_pos: "ring_ok q \<Longrightarrow> 0 < length (rb_buffer q)"
  unfolding ring_holds_def slots_hold_def by linarith

lemma stdin_push_bytes_runs:
  assumes "ring_ok q"
  shows "runs (stdin_push_bytes q xs) (\<lambda>q'. ring_ok q' \<and> length (rb_buffer q') = length (rb_buffer q)
     \<and> ring_items q' = ring_items q @ take (length (rb_buffer q) - 1 - length (ring_items q)) xs)"
proof -
  have eq: "stdin_push_byte s x = bind_run (ring_push s x) (\<lambda>(s, _). Done s)" for s x
    by (cases "ring_push s x") (auto simp: stdin_push_byte_def)
  have "length (rb_buffer q') = length (rb_buffer q)" if "length (rb_buffer q') - 1 = length (rb_buffer q) - 1" "ring_ok q'" for q' :: byte_queue
    using that(1) ring_size_pos [OF that(2)] ring_size_pos [OF assms] by linarith
  then show ?thesis
    unfolding stdin_push_bytes_def eq by (auto intro!: runs_conseq [OF ring.put_all [OF assms, of xs]])
qed

lemma stdin_get_bytes_runs:
  assumes "ring_holds q xs"
  shows "runs (stdin_get_bytes q buf) (\<lambda>((q', buf'), n). n = min (length buf) (length xs) \<and> buf' = take n xs @ drop n buf \<and> ring_holds q' (drop n xs))"
  using assms
proof (induction buf arbitrary: q xs)
  case (Cons b buf)
  show ?case
    unfolding stdin_get_bytes.simps runs_bind
  proof (rule runs_conseq [OF ring_pop_runs [OF Cons.prems]], goal_cases)
    case (1 y)
    obtain q' r where y: "y = (q', r)" by (cases y)
    show ?case
    proof (cases xs)
      case Nil
      then show ?thesis using 1 y Cons.prems by simp
    next
      case (Cons x ys)
      then have "r = Some x" "ring_holds q' ys" using 1 y by simp_all
      then show ?thesis using y Cons Cons.IH [of q' ys] by (auto elim!: runs_conseq)
    qed
  qed
qed simp

text \<open>
  C17: standard input. Bytes pushed to the queue come out of \<open>get_bytes\<close> in order after those
  already queued, as many as fit: what does not fit into the queue is dropped, what does not
  fit into the caller's buffer stays queued, and the rest of the buffer is not touched. The
  byte count is the length of the queue.
\<close>

theorem stdin_round_trip:
  assumes q: "ring_ok q"
  shows "runs (bind_run (stdin_push_bytes q xs) (\<lambda>q. stdin_get_bytes q buf)) (\<lambda>((q', buf'), n).
     let queued = ring_items q @ take (length (rb_buffer q) - 1 - length (ring_items q)) xs in
     n = min (length buf) (length queued) \<and> buf' = take n queued @ drop n buf
     \<and> ring_ok q' \<and> ring_items q' = drop n queued \<and> stdin_get_byte_count q' = Done (of_nat (length queued - n)))"
  unfolding runs_bind
proof (rule runs_conseq [OF stdin_push_bytes_runs [OF q, of xs]], elim conjE)
  fix q1 assume q1: "ring_ok q1" "ring_items q1 = ring_items q @ take (length (rb_buffer q) - 1 - length (ring_items q)) xs"
  show "runs (stdin_get_bytes q1 buf) (\<lambda>((q', buf'), n).
     let queued = ring_items q @ take (length (rb_buffer q) - 1 - length (ring_items q)) xs in
     n = min (length buf) (length queued) \<and> buf' = take n queued @ drop n buf
     \<and> ring_ok q' \<and> ring_items q' = drop n queued \<and> stdin_get_byte_count q' = Done (of_nat (length queued - n)))"
    unfolding q1(2) [symmetric] Let_def
  proof (rule runs_conseq [OF stdin_get_bytes_runs [OF q1(1), of buf]], clarify, goal_cases)
    case (1 q' buf' n)
    have "ring_items q' = drop (min (length buf) (length (ring_items q1))) (ring_items q1)" by (rule ring_items_holds [OF 1])
    then show ?case using 1 ring_len_runs [OF 1] by (simp add: stdin_get_byte_count_def)
  qed
qed

theorem stdin_round_trip_witness:
  "ring_ok (ring_new 4 :: byte_queue) \<and> runs (bind_run (stdin_push_bytes (ring_new 4) [104, 105, 33, 34, 35]) (\<lambda>q. stdin_get_bytes q [0, 0])) (\<lambda>((q', buf'), n).
     n = 2 \<and> buf' = [104, 105] \<and> ring_items q' = [33])"
proof -
  have ok: "ring_ok (ring_new 4 :: byte_queue)" and it: "ring_items (ring_new 4 :: byte_queue) = []"
    by (rule new_byte_queue; simp)+
  have "length (rb_buffer (ring_new 4 :: byte_queue)) = 4" by (simp add: ring_new_def)
  then show ?thesis
    using ok stdin_round_trip [OF ok, of "[104, 105, 33, 34, 35]" "[0, 0]"] unfolding it by (auto simp: Let_def elim!: runs_conseq)
qed

text \<open>
  C18: clearing standard input. The loop of \<open>clear_buffer\<close> ends, whatever the queue holds, and
  leaves it empty.
\<close>

theorem stdin_clear_terminates:
  assumes "ring_ok q"
  shows "runs (stdin_clear_buffer q) (\<lambda>q'. ring_ok q' \<and> ring_items q' = [] \<and> stdin_get_byte_count q' = Done 0)"
proof -
  have "runs (stdin_clear_buffer q) (\<lambda>q'. ring_holds q' [])" if "ring_holds q xs" for xs
    using that
  proof (induction xs arbitrary: q)
    case Nil
    then show ?case using ring_pop_runs [OF Nil] by (subst stdin_clear_buffer.simps) (auto elim!: runs_conseq)
  next
    case (Cons x xs)
    then show ?case using ring_pop_runs [OF Cons.prems] by (subst stdin_clear_buffer.simps) (auto elim!: runs_conseq)
  qed
  from this [OF assms] show ?thesis
    using ring_holds_ok ring_len_runs by (fastforce elim!: runs_conseq simp: stdin_get_byte_count_def)
qed

theorem stdin_clear_terminates_witness:
  "ring_ok (ring_new 4 :: byte_queue) \<and> runs (stdin_clear_buffer (ring_new 4)) (\<lambda>q'. ring_items q' = [])"
proof -
  have ok: "ring_ok (ring_new 4 :: byte_queue)" by (rule new_byte_queue) simp_all
  then show ?thesis using stdin_clear_terminates [OF ok] by (auto elim!: runs_conseq)
qed

section \<open>Properties of the mouse\<close>

text \<open>
  The packets in a byte stream: bytes without the sync bit are skipped until a packet starts,
  and a packet is three bytes. What remains is an unfinished packet.
\<close>

fun packets_of :: "u8 list \<Rightarrow> MousePacket list \<times> u8 list" where
  "packets_of [] = ([], [])"
| "packets_of (b0 # bs) =
     (if b0 AND 0x08 = 0 then packets_of bs
      else case bs of
             b1 # b2 # rest \<Rightarrow> (let (ps, left) = packets_of rest in (the (MousePacket_parse b0 b1 b2) # ps, left))
           | _ \<Rightarrow> ([], b0 # bs))"

text \<open>The bytes of the unfinished packet that a decoder keeps.\<close>

definition pending :: "PacketDecoder \<Rightarrow> u8 list" where
  "pending d = (if decoder_count d = 0 then [] else if decoder_count d = 1 then [first_byte d] else [first_byte d, second_byte d])"

definition decoder_ok :: "PacketDecoder \<Rightarrow> bool" where
  "decoder_ok d \<longleftrightarrow> decoder_count d \<le> 2 \<and> (decoder_count d \<noteq> 0 \<longrightarrow> first_byte d AND 0x08 \<noteq> 0)"

text \<open>The position after a packet, on a screen of the given resolution.\<close>

definition move :: "nat \<Rightarrow> nat \<Rightarrow> MousePacket \<Rightarrow> MouseState \<Rightarrow> MouseState" where
  "move w h p s =
     \<lparr>mouse_x = min (max (mouse_x s + delta_x p) 0) (int (w - 16)), mouse_y = min (max (mouse_y s + delta_y p) 0) (int (h - 16)),
      mouse_left = left_button p, mouse_right = right_button p, mouse_middle = middle_button p\<rparr>"

definition on_screen :: "nat \<Rightarrow> nat \<Rightarrow> MouseState \<Rightarrow> bool" where
  "on_screen w h s \<longleftrightarrow> 0 \<le> mouse_x s \<and> mouse_x s \<le> int (w - 16) \<and> 0 \<le> mouse_y s \<and> mouse_y s \<le> int (h - 16)"

lemma move_on_screen: "on_screen w h (move w h p s)"
  by (auto simp: on_screen_def move_def)

lemma parse_deltas:
  assumes "MousePacket_parse b0 b1 b2 = Some p"
  shows "\<bar>delta_x p\<bar> \<le> 128" "\<bar>delta_y p\<bar> \<le> 128"
  using assms sint_ge [of b1] sint_lt [of b1] sint_ge [of b2] sint_lt [of b2]
  by (auto simp: MousePacket_parse_def split: if_splits)

lemma process_packet_eq:
  assumes "on_screen (unat w) (unat h) s" "unat w \<le> 2 ^ 30" "unat h \<le> 2 ^ 30" "\<bar>delta_x p\<bar> \<le> 128" "\<bar>delta_y p\<bar> \<le> 128"
  shows "process_packet (Some (w, h)) s p = Done (move (unat w) (unat h) p s)"
proof -
  have "i32_add (mouse_x s) (delta_x p) = Done (mouse_x s + delta_x p)" "i32_add (mouse_y s) (delta_y p) = Done (mouse_y s + delta_y p)"
    using assms by (auto simp: i32_add_def on_screen_def)
  moreover have "i32_try_from w = Some (int (unat w))" "i32_try_from h = Some (int (unat h))" using assms(2,3) by (simp_all add: i32_try_from_def)
  moreover have cl: "clamp v 0 (max (int n - 16) 0) = min (max v 0) (int (n - 16))" for v n by (auto simp: clamp_def)
  ultimately show ?thesis using cl [of _ "unat w"] cl [of _ "unat h"] by (simp add: process_packet_def move_def)
qed

lemma decoder_step:
  assumes "decoder_ok d" "decoder_push_byte d b = (d', r)"
  shows "decoder_ok d' \<and> (case r of
     None \<Rightarrow> packets_of (pending d @ b # bs) = packets_of (pending d' @ bs)
   | Some p \<Rightarrow> MousePacket_parse (first_byte d) (second_byte d) b = Some p \<and> pending d' = []
       \<and> packets_of (pending d @ b # bs) = (let (ps, left) = packets_of bs in (p # ps, left)))"
proof -
  consider "decoder_count d = 0" | "decoder_count d = 1" "first_byte d AND 8 \<noteq> 0" | "decoder_count d = 2" "first_byte d AND 8 \<noteq> 0"
  proof -
    have "unat (decoder_count d) \<le> 2" using assms(1) by (simp add: decoder_ok_def word_le_nat_alt)
    then have "unat (decoder_count d) = 0 \<or> unat (decoder_count d) = 1 \<or> unat (decoder_count d) = 2" by linarith
    then have "decoder_count d = 0 \<or> decoder_count d = 1 \<or> decoder_count d = 2" by (simp add: word_unat_eq_iff)
    with assms(1) that show thesis by (auto simp: decoder_ok_def)
  qed
  then show ?thesis
    using assms(2) by cases (auto simp: decoder_push_byte_def decoder_ok_def pending_def MousePacket_parse_def
      split: if_splits prod.splits cong: list.case_cong)
qed


definition two_bytes :: byte_queue where
  "two_bytes = \<lparr>rb_buffer = [Some 5, Some 250, None, None], rb_head = 2, rb_tail = 0\<rparr>"

lemma two_bytes_holds: "ring_holds two_bytes [5, 250]"
  by (auto simp: ring_holds_def slots_hold_def two_bytes_def less_Suc_eq)


end
