(* ===== verification/Fs_Node.thy ===== *)
theory Fs_Node
  imports Input_Queues "HOL-Library.List_Lexorder" "HOL-Library.Char_ord"
begin

text \<open>
  File nodes (\<open>kernel/filesystem\<close>): the node kinds behind the \<open>FileNode\<close> trait, their reads and
  writes, and path normalization. Strings are their UTF-8 bytes. A node is shared through
  \<open>Arc\<close>, so the data of a \<open>RamFile\<close>, the only node whose contents change, lives in a store and the
  node holds its address. The listing of a directory node is set once, before the node is
  shared. The rest of the state that nodes touch is the keyboard queue and the serial output.
\<close>

section \<open>Nodes\<close>

datatype FileSystemError =
    NotFound | InvalidFileDescriptor | UnsupportedOperation | TooManyOpenFiles | AlreadyInitialized
  | NotDirectory | IsDirectory | InvalidPath | InvalidArgument | WouldBlock

datatype FileType = Regular | Directory | Device

record FileMetadata =
  file_type :: FileType
  md_size :: usize
  md_writable :: bool

record DirectoryEntry =
  entry_name :: string
  entry_metadata :: FileMetadata

text \<open>The callback of a backend file returns the new contents of the buffer and the count.\<close>

type_synonym BackendRead = "usize \<Rightarrow> usize \<Rightarrow> u8 list \<Rightarrow> (u8 list \<times> usize) option"

datatype FileNode =
    RamFile nat
  | ReadOnlyFile "u8 list"
  | ReadOnlyBackendFile usize usize BackendRead
  | DirectoryNode "DirectoryEntry list"
  | ConsoleDevice
  | KeyboardInputDevice
  | NullDevice

record world =
  ram_files :: "u8 list list"
  stdin_queue :: byte_queue
  serial_output :: "u8 list"

text \<open>\<open>RamFile::from_bytes\<close> allocates the data of a new file.\<close>

definition RamFile_from_bytes :: "world \<Rightarrow> u8 list \<Rightarrow> world \<times> FileNode" where
  "RamFile_from_bytes w bytes = (w\<lparr>ram_files := ram_files w @ [bytes]\<rparr>, RamFile (length (ram_files w)))"

section \<open>Reads and writes\<close>

text \<open>The read shared by the memory-backed files: the new contents of the buffer, and the count.\<close>

definition read_bytes :: "u8 list \<Rightarrow> usize \<Rightarrow> u8 list \<Rightarrow> u8 list \<times> usize" where
  "read_bytes data offset buffer =
     (if of_nat (length data) \<le> offset then (buffer, 0)
      else let available = length data - unat offset; count = min available (length buffer) in
           (take count (drop (unat offset) data) @ drop count buffer, of_nat count))"

text \<open>
  \<open>Vec::resize\<close> panics with a capacity overflow above \<open>isize::MAX\<close> bytes, and the end of the
  copied slice is computed with a checked addition.
\<close>

definition write_bytes :: "u8 list \<Rightarrow> usize \<Rightarrow> u8 list \<Rightarrow> u8 list run" where
  "write_bytes data offset buffer =
     (let required_length = saturating_add offset (of_nat (length buffer)) in
      bind_run (if of_nat (length data) < required_length
                then bind_run (assert_run (unat required_length < 2 ^ 63)) (\<lambda>_.
                  Done (data @ replicate (unat required_length - length data) 0))
                else Done data) (\<lambda>data.
      bind_run (expect (checked_add offset (of_nat (length buffer)))) (\<lambda>end.
      bind_run (assert_run (unat end \<le> length data)) (\<lambda>_.
        Done (take (unat offset) data @ buffer @ drop (unat end) data)))))"

subsection \<open>Files\<close>

definition RamFile_read_at :: "world \<Rightarrow> nat \<Rightarrow> usize \<Rightarrow> u8 list \<Rightarrow> (u8 list \<times> usize) run" where
  "RamFile_read_at w i offset buffer = bind_run (array_get (ram_files w) i) (\<lambda>data. Done (read_bytes data offset buffer))"

definition RamFile_write_at :: "world \<Rightarrow> nat \<Rightarrow> usize \<Rightarrow> u8 list \<Rightarrow> (world \<times> usize) run" where
  "RamFile_write_at w i offset buffer =
     bind_run (array_get (ram_files w) i) (\<lambda>data.
     bind_run (write_bytes data offset buffer) (\<lambda>data.
     bind_run (array_set (ram_files w) i data) (\<lambda>files.
       Done (w\<lparr>ram_files := files\<rparr>, of_nat (length buffer)))))"

definition RamFile_metadata :: "world \<Rightarrow> nat \<Rightarrow> FileMetadata run" where
  "RamFile_metadata w i = bind_run (array_get (ram_files w) i) (\<lambda>data.
     Done \<lparr>file_type = Regular, md_size = of_nat (length data), md_writable = True\<rparr>)"

definition ReadOnlyFile_read_at :: "u8 list \<Rightarrow> usize \<Rightarrow> u8 list \<Rightarrow> u8 list \<times> usize" where
  "ReadOnlyFile_read_at data offset buffer = read_bytes data offset buffer"

definition ReadOnlyFile_metadata :: "u8 list \<Rightarrow> FileMetadata" where
  "ReadOnlyFile_metadata data = \<lparr>file_type = Regular, md_size = of_nat (length data), md_writable = False\<rparr>"

definition ReadOnlyBackendFile_read_at ::
    "usize \<Rightarrow> BackendRead \<Rightarrow> usize \<Rightarrow> u8 list \<Rightarrow> u8 list \<times> (FileSystemError + usize)" where
  "ReadOnlyBackendFile_read_at context read offset buffer =
     (case read context offset buffer of
        None \<Rightarrow> (buffer, Inl UnsupportedOperation)
      | Some (buffer, count) \<Rightarrow> (buffer, Inr count))"

definition DirectoryNode_metadata :: "DirectoryEntry list \<Rightarrow> FileMetadata" where
  "DirectoryNode_metadata entries = \<lparr>file_type = Directory, md_size = of_nat (length entries), md_writable = False\<rparr>"

subsection \<open>Devices\<close>

text \<open>\<open>str::from_utf8\<close> of the Rust core library: the well-formed byte sequences.\<close>

definition continuation :: "u8 \<Rightarrow> bool" where
  "continuation b \<longleftrightarrow> 0x80 \<le> b \<and> b \<le> 0xbf"

definition utf8_two :: "u8 \<Rightarrow> u8 \<Rightarrow> bool" where
  "utf8_two a b \<longleftrightarrow> 0xc2 \<le> a \<and> a \<le> 0xdf \<and> continuation b"

definition utf8_three :: "u8 \<Rightarrow> u8 \<Rightarrow> u8 \<Rightarrow> bool" where
  "utf8_three a b c \<longleftrightarrow> 0xe0 \<le> a \<and> a \<le> 0xef \<and> continuation b \<and> continuation c
     \<and> (a = 0xe0 \<longrightarrow> 0xa0 \<le> b) \<and> (a = 0xed \<longrightarrow> b \<le> 0x9f)"

definition utf8_four :: "u8 \<Rightarrow> u8 \<Rightarrow> u8 \<Rightarrow> u8 \<Rightarrow> bool" where
  "utf8_four a b c d \<longleftrightarrow> 0xf0 \<le> a \<and> a \<le> 0xf4 \<and> continuation b \<and> continuation c \<and> continuation d
     \<and> (a = 0xf0 \<longrightarrow> 0x90 \<le> b) \<and> (a = 0xf4 \<longrightarrow> b \<le> 0x8f)"

fun utf8_valid :: "u8 list \<Rightarrow> bool" where
  "utf8_valid [] = True"
| "utf8_valid (a # rest) =
     (if a < 0x80 then utf8_valid rest
      else case rest of
             [] \<Rightarrow> False
           | b # rest2 \<Rightarrow> if utf8_two a b then utf8_valid rest2
               else (case rest2 of
                       [] \<Rightarrow> False
                     | c # rest3 \<Rightarrow> if utf8_three a b c then utf8_valid rest3
                         else (case rest3 of
                                 [] \<Rightarrow> False
                               | d # rest4 \<Rightarrow> utf8_four a b c d \<and> utf8_valid rest4)))"

text \<open>The format \<open>{byte:02x}\<close>.\<close>

definition hex_digit :: "u8 \<Rightarrow> u8" where
  "hex_digit d = (if d < 10 then 48 + d else 87 + d)"

definition hex_byte :: "u8 \<Rightarrow> u8 list" where
  "hex_byte b = [hex_digit (drop_bit 4 b), hex_digit (b AND 15)]"

text \<open>The bytes the serial port sends for a text: a carriage return before each line feed.\<close>

definition serial_write_str :: "u8 list \<Rightarrow> u8 list" where
  "serial_write_str text = concat (map (\<lambda>byte. if byte = 10 then [13, 10] else [byte]) text)"

definition ConsoleDevice_write_at :: "world \<Rightarrow> u8 list \<Rightarrow> world \<times> usize" where
  "ConsoleDevice_write_at w buffer =
     (w\<lparr>serial_output := serial_output w @ serial_write_str (if utf8_valid buffer then buffer else concat (map hex_byte buffer))\<rparr>,
      of_nat (length buffer))"

definition KeyboardInputDevice_read_at :: "world \<Rightarrow> u8 list \<Rightarrow> ((world \<times> u8 list) \<times> (FileSystemError + usize)) run" where
  "KeyboardInputDevice_read_at w buffer =
     (if buffer = [] then Done ((w, buffer), Inr 0)
      else bind_run (stdin_get_bytes (stdin_queue w) buffer) (\<lambda>((queue, buffer), bytes_read).
        Done ((w\<lparr>stdin_queue := queue\<rparr>, buffer), if bytes_read = 0 then Inl WouldBlock else Inr (of_nat bytes_read))))"

definition device_metadata :: "bool \<Rightarrow> FileMetadata" where
  "device_metadata writable = \<lparr>file_type = Device, md_size = 0, md_writable = writable\<rparr>"

subsection \<open>The trait\<close>

definition node_read_at ::
    "world \<Rightarrow> FileNode \<Rightarrow> usize \<Rightarrow> u8 list \<Rightarrow> ((world \<times> u8 list) \<times> (FileSystemError + usize)) run" where
  "node_read_at w node offset buffer =
     (case node of
        RamFile i \<Rightarrow> bind_run (RamFile_read_at w i offset buffer) (\<lambda>(buffer, count). Done ((w, buffer), Inr count))
      | ReadOnlyFile data \<Rightarrow> let (buffer, count) = ReadOnlyFile_read_at data offset buffer in Done ((w, buffer), Inr count)
      | ReadOnlyBackendFile _ context read \<Rightarrow>
          let (buffer, r) = ReadOnlyBackendFile_read_at context read offset buffer in Done ((w, buffer), r)
      | DirectoryNode _ \<Rightarrow> Done ((w, buffer), Inl IsDirectory)
      | ConsoleDevice \<Rightarrow> Done ((w, buffer), Inl UnsupportedOperation)
      | KeyboardInputDevice \<Rightarrow> KeyboardInputDevice_read_at w buffer
      | NullDevice \<Rightarrow> Done ((w, buffer), Inr 0))"

definition node_write_at :: "world \<Rightarrow> FileNode \<Rightarrow> usize \<Rightarrow> u8 list \<Rightarrow> (world \<times> (FileSystemError + usize)) run" where
  "node_write_at w node offset buffer =
     (case node of
        RamFile i \<Rightarrow> bind_run (RamFile_write_at w i offset buffer) (\<lambda>(w, count). Done (w, Inr count))
      | ConsoleDevice \<Rightarrow> let (w, count) = ConsoleDevice_write_at w buffer in Done (w, Inr count)
      | NullDevice \<Rightarrow> Done (w, Inr (of_nat (length buffer)))
      | _ \<Rightarrow> Done (w, Inl UnsupportedOperation))"

definition node_metadata :: "world \<Rightarrow> FileNode \<Rightarrow> FileMetadata run" where
  "node_metadata w node =
     (case node of
        RamFile i \<Rightarrow> RamFile_metadata w i
      | ReadOnlyFile data \<Rightarrow> Done (ReadOnlyFile_metadata data)
      | ReadOnlyBackendFile byte_len _ _ \<Rightarrow> Done \<lparr>file_type = Regular, md_size = byte_len, md_writable = False\<rparr>
      | DirectoryNode entries \<Rightarrow> Done (DirectoryNode_metadata entries)
      | ConsoleDevice \<Rightarrow> Done (device_metadata True)
      | KeyboardInputDevice \<Rightarrow> Done (device_metadata False)
      | NullDevice \<Rightarrow> Done (device_metadata True))"

definition node_list_entries :: "FileNode \<Rightarrow> FileSystemError + DirectoryEntry list" where
  "node_list_entries node = (case node of DirectoryNode entries \<Rightarrow> Inr entries | _ \<Rightarrow> Inl NotDirectory)"

lemmas node_operation_defs = node_read_at_def node_write_at_def RamFile_read_at_def RamFile_write_at_def

lemmas node_metadata_defs = node_metadata_def RamFile_metadata_def ReadOnlyFile_metadata_def DirectoryNode_metadata_def device_metadata_def

section \<open>Paths\<close>

text \<open>\<open>str::split\<close> on one character: a string without it is one segment.\<close>

fun split_on :: "'a \<Rightarrow> 'a list \<Rightarrow> 'a list list" where
  "split_on c [] = [[]]"
| "split_on c (x # xs) = (if x = c then [] # split_on c xs else (x # hd (split_on c xs)) # tl (split_on c xs))"

definition path_step :: "string \<Rightarrow> string list \<Rightarrow> string list" where
  "path_step segment segments =
     (if segment = [] \<or> segment = ''.'' then segments
      else if segment = ''..'' then butlast segments
      else segments @ [segment])"

definition path_segments :: "string \<Rightarrow> string list" where
  "path_segments path = fold path_step (split_on CHR ''/'' path) []"

definition join_path :: "string list \<Rightarrow> string" where
  "join_path segments = (let normalized = concat (map (\<lambda>s. CHR ''/'' # s) segments) in
     if normalized = [] then ''/'' else normalized)"

definition normalize_path :: "string \<Rightarrow> string" where
  "normalize_path path = join_path (path_segments path)"

definition resolve_path :: "string \<Rightarrow> string \<Rightarrow> string" where
  "resolve_path current_working_directory path =
     (if take 1 path = ''/'' then normalize_path path else normalize_path (current_working_directory @ ''/'' @ path))"

section \<open>Canonical paths\<close>

text \<open>A segment list is canonical when no segment is empty, a dot name or holds a slash.\<close>

definition segment_name :: "string \<Rightarrow> bool" where
  "segment_name s \<longleftrightarrow> s \<noteq> [] \<and> s \<noteq> ''.'' \<and> s \<noteq> ''..'' \<and> CHR ''/'' \<notin> set s"

lemma split_on_ne [simp]: "split_on c xs \<noteq> []"
  by (cases xs) auto

lemma split_on_free: "s \<in> set (split_on c xs) \<Longrightarrow> c \<notin> set s"
proof (induction xs arbitrary: s)
  case (Cons x xs)
  have h: "hd (split_on c xs) \<in> set (split_on c xs)" by (rule hd_in_set [OF split_on_ne])
  have "s \<in> set (tl (split_on c xs)) \<Longrightarrow> s \<in> set (split_on c xs)" by (rule list.set_sel(2) [OF split_on_ne])
  with Cons h show ?case by (auto split: if_splits)
qed simp

lemma split_on_single: "c \<notin> set s \<Longrightarrow> split_on c s = [s]"
  by (induction s) auto

lemma split_on_append: "c \<notin> set s \<Longrightarrow> split_on c (s @ c # xs) = s # split_on c xs"
  by (induction s) auto

lemma path_step_names: "\<forall>s\<in>set ss. segment_name s \<Longrightarrow> CHR ''/'' \<notin> set x \<Longrightarrow> \<forall>s\<in>set (path_step x ss). segment_name s"
  by (auto simp: path_step_def segment_name_def dest: in_set_butlastD)

lemma path_segments_names: "\<forall>s\<in>set (path_segments path). segment_name s"
proof -
  have "\<forall>s\<in>set (fold path_step xs ss). segment_name s" if "\<forall>s\<in>set ss. segment_name s" "\<forall>x\<in>set xs. CHR ''/'' \<notin> set x" for xs ss
    using that
  proof (induction xs arbitrary: ss)
    case (Cons x xs)
    then show ?case using path_step_names [of ss x] by simp
  qed simp
  then show ?thesis using split_on_free unfolding path_segments_def by (metis empty_iff list.set(1))
qed

lemma split_join:
  assumes "\<forall>s\<in>set ss. segment_name s" "ss \<noteq> []"
  shows "split_on CHR ''/'' (concat (map (\<lambda>s. CHR ''/'' # s) ss)) = [] # ss"
  using assms
proof (induction ss)
  case (Cons s ss)
  have s: "CHR ''/'' \<notin> set s" using Cons.prems by (simp add: segment_name_def)
  show ?case
  proof (cases ss)
    case Nil
    then show ?thesis using split_on_single [OF s] by simp
  next
    case (Cons t ts)
    let ?rest = "concat (map (\<lambda>s. CHR ''/'' # s) ts)"
    have "split_on CHR ''/'' (CHR ''/'' # t @ ?rest) = [] # ss" using Cons.IH Cons.prems Cons by simp
    then have "split_on CHR ''/'' (t @ ?rest) = ss" by simp
    then show ?thesis using Cons split_on_append [OF s, of "t @ ?rest"] by simp
  qed
qed simp

lemma fold_names: "\<forall>s\<in>set ss. segment_name s \<Longrightarrow> fold path_step ss acc = acc @ ss"
  by (induction ss arbitrary: acc) (auto simp: path_step_def segment_name_def)

lemma segments_join:
  assumes "\<forall>s\<in>set ss. segment_name s"
  shows "path_segments (join_path ss) = ss"
proof (cases ss)
  case Nil
  then show ?thesis by (simp add: join_path_def path_segments_def path_step_def)
next
  case (Cons s xs)
  then have "split_on CHR ''/'' (join_path ss) = [] # ss" using split_join [OF assms] by (simp add: join_path_def Let_def)
  then show ?thesis using fold_names [OF assms] by (simp add: path_segments_def path_step_def)
qed

lemma join_path_inj:
  "\<forall>s\<in>set ss. segment_name s \<Longrightarrow> \<forall>s\<in>set ts. segment_name s \<Longrightarrow> join_path ss = join_path ts \<longleftrightarrow> ss = ts"
  by (metis segments_join)

text \<open>A path is canonical when it is the path of a canonical segment list.\<close>

definition canonical :: "string \<Rightarrow> bool" where
  "canonical p \<longleftrightarrow> normalize_path p = p"

lemma canonical_iff: "canonical p \<longleftrightarrow> (\<exists>ss. (\<forall>s\<in>set ss. segment_name s) \<and> p = join_path ss)"
proof
  assume "canonical p"
  then have "p = join_path (path_segments p)" by (simp add: canonical_def normalize_path_def)
  then show "\<exists>ss. (\<forall>s\<in>set ss. segment_name s) \<and> p = join_path ss" using path_segments_names by blast
next
  assume "\<exists>ss. (\<forall>s\<in>set ss. segment_name s) \<and> p = join_path ss"
  then show "canonical p" by (auto simp: canonical_def normalize_path_def segments_join)
qed

lemma normalize_canonical [simp]: "canonical (normalize_path p)"
  using path_segments_names by (auto simp: canonical_iff normalize_path_def)

end
