(* ===== verification/Fs_Descriptor.thy ===== *)
theory Fs_Descriptor
  imports Fs_Node
begin

text \<open>
  The open file table of \<open>kernel/filesystem/descriptor.rs\<close>: every operation, the slot discipline
  of \<open>open\<close> and \<open>close\<close>, inheritance across spawn and exec, and reading back what was written.
\<close>

section \<open>The table\<close>

abbreviation MAX_OPEN_FILES :: nat where "MAX_OPEN_FILES \<equiv> 64"
abbreviation STANDARD_DESCRIPTOR_COUNT :: nat where "STANDARD_DESCRIPTOR_COUNT \<equiv> 3"

datatype SeekWhence = Seek_Start | Seek_Current | Seek_End

record OpenFile =
  of_node :: FileNode
  of_offset :: usize
  of_close_on_exec :: bool

definition OpenFile_new :: "FileNode \<Rightarrow> bool \<Rightarrow> OpenFile" where
  "OpenFile_new node close_on_exec = \<lparr>of_node = node, of_offset = 0, of_close_on_exec = close_on_exec\<rparr>"

record SpawnDescriptorInheritanceSnapshot =
  snapshot_inherited :: usize
  snapshot_standard :: usize
  snapshot_close_on_exec :: usize

type_synonym FileDescriptorTable = "OpenFile option list"

definition FileDescriptorTable_new :: FileDescriptorTable where
  "FileDescriptorTable_new = []"

definition initialize_standard_descriptors :: "FileNode \<Rightarrow> FileNode \<Rightarrow> FileNode \<Rightarrow> FileDescriptorTable" where
  "initialize_standard_descriptors input output error =
     [Some (OpenFile_new input False), Some (OpenFile_new output False), Some (OpenFile_new error False)]"

fun first_free :: "FileDescriptorTable \<Rightarrow> nat option" where
  "first_free [] = None"
| "first_free (e # es) = (if e = None then Some 0 else map_option Suc (first_free es))"

definition open_with_close_on_exec ::
    "FileDescriptorTable \<Rightarrow> FileNode \<Rightarrow> bool \<Rightarrow> FileDescriptorTable \<times> (FileSystemError + nat)" where
  "open_with_close_on_exec entries node close_on_exec =
     (case first_free entries of
        Some descriptor \<Rightarrow> (entries[descriptor := Some (OpenFile_new node close_on_exec)], Inr descriptor)
      | None \<Rightarrow>
          if MAX_OPEN_FILES \<le> length entries then (entries, Inl TooManyOpenFiles)
          else (entries @ [Some (OpenFile_new node close_on_exec)], Inr (length entries)))"

definition open_descriptor :: "FileDescriptorTable \<Rightarrow> FileNode \<Rightarrow> FileDescriptorTable \<times> (FileSystemError + nat)" where
  "open_descriptor entries node = open_with_close_on_exec entries node False"

definition get_open_file :: "FileDescriptorTable \<Rightarrow> nat \<Rightarrow> FileSystemError + OpenFile" where
  "get_open_file entries descriptor =
     (if descriptor < length entries
      then case entries ! descriptor of None \<Rightarrow> Inl InvalidFileDescriptor | Some f \<Rightarrow> Inr f
      else Inl InvalidFileDescriptor)"

definition close_descriptor :: "FileDescriptorTable \<Rightarrow> nat \<Rightarrow> FileDescriptorTable \<times> (FileSystemError + unit)" where
  "close_descriptor entries descriptor =
     (if descriptor < length entries
      then if entries ! descriptor = None then (entries, Inl InvalidFileDescriptor)
           else (entries[descriptor := None], Inr ())
      else (entries, Inl InvalidFileDescriptor))"

definition marked :: "OpenFile option \<Rightarrow> bool" where
  "marked e = is_some_and e of_close_on_exec"

definition close_on_exec_descriptors :: "FileDescriptorTable \<Rightarrow> FileDescriptorTable \<times> nat" where
  "close_on_exec_descriptors entries =
     (map (\<lambda>e. if marked e then None else e) entries, length (filter marked entries))"

definition snapshot_step ::
    "nat \<times> OpenFile option \<Rightarrow> SpawnDescriptorInheritanceSnapshot \<Rightarrow> SpawnDescriptorInheritanceSnapshot" where
  "snapshot_step = (\<lambda>(descriptor, e) s. case e of
     None \<Rightarrow> s
   | Some f \<Rightarrow>
       if of_close_on_exec f then s\<lparr>snapshot_close_on_exec := saturating_add (snapshot_close_on_exec s) 1\<rparr>
       else (let s = s\<lparr>snapshot_inherited := saturating_add (snapshot_inherited s) 1\<rparr> in
             if descriptor < STANDARD_DESCRIPTOR_COUNT
             then s\<lparr>snapshot_standard := saturating_add (snapshot_standard s) 1\<rparr> else s))"

definition get_spawn_descriptor_inheritance_snapshot :: "FileDescriptorTable \<Rightarrow> SpawnDescriptorInheritanceSnapshot" where
  "get_spawn_descriptor_inheritance_snapshot entries =
     fold snapshot_step (List.enumerate 0 entries) \<lparr>snapshot_inherited = 0, snapshot_standard = 0, snapshot_close_on_exec = 0\<rparr>"

definition inherit_for_spawn :: "FileDescriptorTable \<Rightarrow> FileDescriptorTable" where
  "inherit_for_spawn entries = map (\<lambda>e. case e of None \<Rightarrow> None | Some f \<Rightarrow> if of_close_on_exec f then None else Some f) entries"

section \<open>Operations on open files\<close>

definition advance :: "FileDescriptorTable \<Rightarrow> nat \<Rightarrow> OpenFile \<Rightarrow> usize \<Rightarrow> FileDescriptorTable" where
  "advance entries descriptor f count = entries[descriptor := Some (f\<lparr>of_offset := saturating_add (of_offset f) count\<rparr>)]"

definition descriptor_read ::
    "world \<Rightarrow> FileDescriptorTable \<Rightarrow> nat \<Rightarrow> u8 list
       \<Rightarrow> ((world \<times> FileDescriptorTable \<times> u8 list) \<times> (FileSystemError + usize)) run" where
  "descriptor_read w entries descriptor buffer =
     (case get_open_file entries descriptor of
        Inl e \<Rightarrow> Done ((w, entries, buffer), Inl e)
      | Inr f \<Rightarrow> bind_run (node_read_at w (of_node f) (of_offset f) buffer) (\<lambda>((w, buffer), r).
          case r of
            Inl e \<Rightarrow> Done ((w, entries, buffer), Inl e)
          | Inr count \<Rightarrow> Done ((w, advance entries descriptor f count, buffer), Inr count)))"

definition descriptor_read_at ::
    "world \<Rightarrow> FileDescriptorTable \<Rightarrow> nat \<Rightarrow> usize \<Rightarrow> u8 list \<Rightarrow> ((world \<times> u8 list) \<times> (FileSystemError + usize)) run" where
  "descriptor_read_at w entries descriptor offset buffer =
     (case get_open_file entries descriptor of
        Inl e \<Rightarrow> Done ((w, buffer), Inl e)
      | Inr f \<Rightarrow> node_read_at w (of_node f) offset buffer)"

definition descriptor_write ::
    "world \<Rightarrow> FileDescriptorTable \<Rightarrow> nat \<Rightarrow> u8 list
       \<Rightarrow> ((world \<times> FileDescriptorTable) \<times> (FileSystemError + usize)) run" where
  "descriptor_write w entries descriptor buffer =
     (case get_open_file entries descriptor of
        Inl e \<Rightarrow> Done ((w, entries), Inl e)
      | Inr f \<Rightarrow> bind_run (node_write_at w (of_node f) (of_offset f) buffer) (\<lambda>(w, r).
          case r of
            Inl e \<Rightarrow> Done ((w, entries), Inl e)
          | Inr count \<Rightarrow> Done ((w, advance entries descriptor f count), Inr count)))"

definition seek :: "FileDescriptorTable \<Rightarrow> nat \<Rightarrow> usize \<Rightarrow> FileDescriptorTable \<times> (FileSystemError + usize)" where
  "seek entries descriptor offset =
     (case get_open_file entries descriptor of
        Inl e \<Rightarrow> (entries, Inl e)
      | Inr f \<Rightarrow> (entries[descriptor := Some (f\<lparr>of_offset := offset\<rparr>)], Inr offset))"

text \<open>An \<open>i64\<close> offset is a signed 64-bit word.\<close>

definition add_signed_offset :: "usize \<Rightarrow> 64 word \<Rightarrow> usize option" where
  "add_signed_offset base offset =
     (if 0 \<le> sint offset then checked_add base offset
      else if sint offset = - (2 ^ 63) then None
      else checked_sub base (- offset))"

definition seek_from ::
    "world \<Rightarrow> FileDescriptorTable \<Rightarrow> nat \<Rightarrow> 64 word \<Rightarrow> SeekWhence \<Rightarrow> (FileDescriptorTable \<times> (FileSystemError + usize)) run" where
  "seek_from w entries descriptor offset whence =
     (case get_open_file entries descriptor of
        Inl e \<Rightarrow> Done (entries, Inl e)
      | Inr f \<Rightarrow>
          bind_run (case whence of
                      Seek_Start \<Rightarrow> Done 0
                    | Seek_Current \<Rightarrow> Done (of_offset f)
                    | Seek_End \<Rightarrow> map_run md_size (node_metadata w (of_node f))) (\<lambda>base.
          case add_signed_offset base offset of
            None \<Rightarrow> Done (entries, Inl InvalidArgument)
          | Some next_offset \<Rightarrow> Done (entries[descriptor := Some (f\<lparr>of_offset := next_offset\<rparr>)], Inr next_offset)))"

definition descriptor_metadata :: "world \<Rightarrow> FileDescriptorTable \<Rightarrow> nat \<Rightarrow> (FileSystemError + FileMetadata) run" where
  "descriptor_metadata w entries descriptor =
     (case get_open_file entries descriptor of
        Inl e \<Rightarrow> Done (Inl e)
      | Inr f \<Rightarrow> map_run Inr (node_metadata w (of_node f)))"

definition read_directory ::
    "FileDescriptorTable \<Rightarrow> nat \<Rightarrow> FileDescriptorTable \<times> (FileSystemError + DirectoryEntry option)" where
  "read_directory entries descriptor =
     (case get_open_file entries descriptor of
        Inl e \<Rightarrow> (entries, Inl e)
      | Inr f \<Rightarrow>
          (case node_list_entries (of_node f) of
             Inl e \<Rightarrow> (entries, Inl e)
           | Inr listing \<Rightarrow>
               if unat (of_offset f) < length listing
               then (advance entries descriptor f 1, Inr (Some (listing ! unat (of_offset f))))
               else (entries, Inr None)))"

section \<open>Slots\<close>

text \<open>The open file behind a descriptor number, if any.\<close>

definition open_at :: "FileDescriptorTable \<Rightarrow> nat \<Rightarrow> OpenFile option" where
  "open_at entries d = (if d < length entries then entries ! d else None)"

lemma get_open_file_eq: "get_open_file entries d = (case open_at entries d of None \<Rightarrow> Inl InvalidFileDescriptor | Some f \<Rightarrow> Inr f)"
  by (simp add: get_open_file_def open_at_def)

lemma open_at_update: "d < length entries \<Longrightarrow> open_at (entries[d := v]) = (open_at entries)(d := v)"
  by (auto simp: open_at_def fun_eq_iff nth_list_update)

lemma open_at_append: "open_at (entries @ [v]) = (open_at entries)(length entries := v)"
  by (auto simp: open_at_def fun_eq_iff nth_append)

lemma open_at_Some_less: "open_at entries d = Some f \<Longrightarrow> d < length entries"
  by (auto simp: open_at_def split: if_splits)

lemma first_free_spec:
  "case first_free entries of
     Some d \<Rightarrow> d < length entries \<and> entries ! d = None \<and> (\<forall>i<d. entries ! i \<noteq> None)
   | None \<Rightarrow> (\<forall>i<length entries. entries ! i \<noteq> None)"
proof (induction entries)
  case (Cons e es)
  show ?case
  proof (cases "e = None")
    case False
    show ?thesis
    proof (cases "first_free es")
      case None
      then show ?thesis using Cons False by (auto simp: less_Suc_eq_0_disj)
    next
      case (Some d)
      then show ?thesis using Cons False by (auto simp: less_Suc_eq_0_disj)
    qed
  qed simp
qed simp

lemma open_exact:
  assumes "length entries \<le> 64"
  shows "case open_with_close_on_exec entries node c of
       (entries', Inr d) \<Rightarrow> d < 64 \<and> length entries' \<le> 64 \<and> open_at entries d = None \<and> (\<forall>i<d. open_at entries i \<noteq> None)
          \<and> open_at entries' = (open_at entries)(d := Some \<lparr>of_node = node, of_offset = 0, of_close_on_exec = c\<rparr>)
     | (entries', Inl e) \<Rightarrow> entries' = entries \<and> e = TooManyOpenFiles \<and> (\<forall>i<64. open_at entries i \<noteq> None)"
proof (cases "first_free entries")
  case None
  then have all: "\<forall>i<length entries. entries ! i \<noteq> None" using first_free_spec [of entries] by simp
  show ?thesis
    using None all assms by (auto simp: open_with_close_on_exec_def OpenFile_new_def open_at_append) (auto simp: open_at_def)
next
  case (Some d)
  then have d: "d < length entries" "entries ! d = None" "\<forall>i<d. entries ! i \<noteq> None" using first_free_spec [of entries] by simp_all
  then show ?thesis
    using Some assms by (auto simp: open_with_close_on_exec_def OpenFile_new_def open_at_update) (auto simp: open_at_def)
qed

lemma close_exact:
  "case close_descriptor entries d of
     (entries', Inr _) \<Rightarrow> open_at entries d \<noteq> None \<and> open_at entries' = (open_at entries)(d := None) \<and> length entries' = length entries
   | (entries', Inl e) \<Rightarrow> entries' = entries \<and> e = InvalidFileDescriptor \<and> open_at entries d = None"
  by (auto simp: close_descriptor_def open_at_update) (auto simp: open_at_def)

text \<open>
  C14: opening and closing. \<open>open\<close> installs the file at the lowest descriptor that is not in use,
  at offset zero, and fails exactly when the 64 descriptors are all open; the table never grows
  past 64 entries. \<open>close\<close> frees exactly its descriptor and fails exactly when it is not open.
  No other descriptor changes.
\<close>

theorem descriptor_slots_exact:
  assumes "length entries \<le> 64"
  shows "(case open_with_close_on_exec entries node c of
       (entries', Inr d) \<Rightarrow> d < 64 \<and> length entries' \<le> 64 \<and> open_at entries d = None \<and> (\<forall>i<d. open_at entries i \<noteq> None)
          \<and> open_at entries' = (open_at entries)(d := Some \<lparr>of_node = node, of_offset = 0, of_close_on_exec = c\<rparr>)
     | (entries', Inl e) \<Rightarrow> entries' = entries \<and> e = TooManyOpenFiles \<and> (\<forall>i<64. open_at entries i \<noteq> None))
   \<and> (case close_descriptor entries d of
       (entries', Inr _) \<Rightarrow> open_at entries d \<noteq> None \<and> open_at entries' = (open_at entries)(d := None) \<and> length entries' = length entries
     | (entries', Inl e) \<Rightarrow> entries' = entries \<and> e = InvalidFileDescriptor \<and> open_at entries d = None)"
  using open_exact [OF assms] close_exact by (rule conjI)

theorem descriptor_slots_exact_witness:
  "length [Some (OpenFile_new NullDevice False), None] \<le> 64
   \<and> (case open_with_close_on_exec [Some (OpenFile_new NullDevice False), None] ConsoleDevice True of
        (entries', Inr d) \<Rightarrow> d = 1 \<and> open_at entries' 1 = Some \<lparr>of_node = ConsoleDevice, of_offset = 0, of_close_on_exec = True\<rparr>
      | (entries', Inl e) \<Rightarrow> False)"
proof -
  let ?e = "[Some (OpenFile_new NullDevice False), None]"
  have len: "length ?e \<le> 64" by simp
  have o: "open_with_close_on_exec ?e ConsoleDevice True = (?e[1 := Some (OpenFile_new ConsoleDevice True)], Inr 1)"
    by (simp add: open_with_close_on_exec_def)
  show ?thesis using descriptor_slots_exact [OF len, of ConsoleDevice True 0] unfolding o by simp
qed

section \<open>Spawn and exec\<close>

lemma enumerate_card:
  "length (filter (\<lambda>(d, e). p d e) (List.enumerate 0 xs)) = card {i. i < length xs \<and> p i (xs ! i)}"
proof -
  have "card {i. i < length (List.enumerate 0 xs) \<and> (\<lambda>(d, e). p d e) (List.enumerate 0 xs ! i)} = card {i. i < length xs \<and> p i (xs ! i)}"
    by (rule arg_cong [of _ _ card]) (auto simp: nth_enumerate_eq)
  then show ?thesis unfolding length_filter_conv_card by simp
qed

lemma snapshot_counts:
  fixes get :: "SpawnDescriptorInheritanceSnapshot \<Rightarrow> usize"
  assumes step: "\<And>x s. get (snapshot_step x s) = (if (\<lambda>(d, e). p d e) x then saturating_add (get s) 1 else get s)"
    and start: "get \<lparr>snapshot_inherited = 0, snapshot_standard = 0, snapshot_close_on_exec = 0\<rparr> = 0" and len: "length entries \<le> 64"
  shows "unat (get (get_spawn_descriptor_inheritance_snapshot entries)) = card {i. i < length entries \<and> p i (entries ! i)}"
proof -
  have "{i. i < length entries \<and> p i (entries ! i)} \<subseteq> {..<length entries}" by auto
  from card_mono [OF finite_lessThan this] have le: "card {i. i < length entries \<and> p i (entries ! i)} \<le> 64" using len by simp
  have one: "sum_list (map (\<lambda>x. unat (1 :: usize)) ys) = length ys" for ys :: "(nat \<times> OpenFile option) list" by (induction ys) auto
  show ?thesis
    using fold_saturating [of get snapshot_step "\<lambda>(d, e). p d e" "\<lambda>_. 1", OF step, of "List.enumerate 0 entries"] le start
    unfolding one enumerate_card by (simp add: get_spawn_descriptor_inheritance_snapshot_def)
qed

lemma exec_closed: "(if marked e then None else e) = (case e of None \<Rightarrow> None | Some f \<Rightarrow> if of_close_on_exec f then None else Some f)"
  by (cases e) (auto simp: marked_def)

text \<open>
  C15: descriptors across spawn and exec. A child inherits exactly the descriptors that are not
  marked close-on-exec, at the same numbers and offsets; exec closes exactly the marked ones and
  reports how many; and the diagnostic snapshot counts the inherited, the inherited standard and
  the marked descriptors.
\<close>

theorem descriptor_inheritance_exact:
  assumes "length entries \<le> 64"
  shows "(\<forall>d. open_at (inherit_for_spawn entries) d = (case open_at entries d of None \<Rightarrow> None | Some f \<Rightarrow> if of_close_on_exec f then None else Some f))
    \<and> close_on_exec_descriptors entries = (inherit_for_spawn entries, card {d. is_some_and (open_at entries d) of_close_on_exec})
    \<and> (let s = get_spawn_descriptor_inheritance_snapshot entries in
        unat (snapshot_inherited s) = card {d. open_at (inherit_for_spawn entries) d \<noteq> None}
        \<and> unat (snapshot_standard s) = card {d. d < 3 \<and> open_at (inherit_for_spawn entries) d \<noteq> None}
        \<and> unat (snapshot_close_on_exec s) = card {d. is_some_and (open_at entries d) of_close_on_exec})"
proof -
  let ?s = "get_spawn_descriptor_inheritance_snapshot entries"
  have sets: "{d. is_some_and (open_at entries d) of_close_on_exec} = {i. i < length entries \<and> marked (entries ! i)}"
    "{d. open_at (inherit_for_spawn entries) d \<noteq> None} = {i. i < length entries \<and> entries ! i \<noteq> None \<and> \<not> marked (entries ! i)}"
    "{d. d < 3 \<and> open_at (inherit_for_spawn entries) d \<noteq> None} = {i. i < length entries \<and> i < 3 \<and> entries ! i \<noteq> None \<and> \<not> marked (entries ! i)}"
    by (auto simp: open_at_def marked_def inherit_for_spawn_def split: if_splits option.splits)
  have "unat (snapshot_inherited ?s) = card {i. i < length entries \<and> entries ! i \<noteq> None \<and> \<not> marked (entries ! i)}"
    by (rule snapshot_counts [OF _ _ assms]) (auto simp: snapshot_step_def Let_def marked_def split: option.splits if_splits)
  moreover have "unat (snapshot_standard ?s) = card {i. i < length entries \<and> i < 3 \<and> entries ! i \<noteq> None \<and> \<not> marked (entries ! i)}"
    by (rule snapshot_counts [OF _ _ assms]) (auto simp: snapshot_step_def Let_def marked_def split: option.splits if_splits)
  moreover have "unat (snapshot_close_on_exec ?s) = card {i. i < length entries \<and> marked (entries ! i)}"
    by (rule snapshot_counts [OF _ _ assms]) (auto simp: snapshot_step_def Let_def marked_def split: option.splits if_splits)
  moreover have "close_on_exec_descriptors entries = (inherit_for_spawn entries, card {i. i < length entries \<and> marked (entries ! i)})"
    by (simp add: close_on_exec_descriptors_def inherit_for_spawn_def exec_closed length_filter_conv_card)
  moreover have "\<forall>d. open_at (inherit_for_spawn entries) d = (case open_at entries d of None \<Rightarrow> None | Some f \<Rightarrow> if of_close_on_exec f then None else Some f)"
    by (simp add: open_at_def inherit_for_spawn_def)
  ultimately show ?thesis unfolding sets Let_def by blast
qed

theorem descriptor_inheritance_exact_witness:
  "length [Some (OpenFile_new NullDevice False), None, Some (OpenFile_new ConsoleDevice True)] \<le> 64
   \<and> open_at (inherit_for_spawn [Some (OpenFile_new NullDevice False), None, Some (OpenFile_new ConsoleDevice True)]) 0 = Some (OpenFile_new NullDevice False)
   \<and> open_at (inherit_for_spawn [Some (OpenFile_new NullDevice False), None, Some (OpenFile_new ConsoleDevice True)]) 2 = None"
proof -
  let ?e = "[Some (OpenFile_new NullDevice False), None, Some (OpenFile_new ConsoleDevice True)]"
  have len: "length ?e \<le> 64" by simp
  have "open_at ?e 0 = Some (OpenFile_new NullDevice False)" "open_at ?e 2 = Some (OpenFile_new ConsoleDevice True)" by (simp_all add: open_at_def)
  with descriptor_inheritance_exact [OF len] show ?thesis by (simp add: OpenFile_new_def)
qed

section \<open>Reading back what was written\<close>

lemma write_bytes_runs:
  assumes "length data < 2 ^ 63" "unat offset + length bytes < 2 ^ 63"
  shows "runs (write_bytes data offset bytes) (\<lambda>data'. length data' = max (length data) (unat offset + length bytes)
     \<and> take (length bytes) (drop (unat offset) data') = bytes
     \<and> (\<forall>k < length data'. k < unat offset \<or> unat offset + length bytes \<le> k \<longrightarrow> data' ! k = (if k < length data then data ! k else 0)))"
proof -
  let ?n = "unat offset + length bytes"
  have l: "unat (of_nat (length bytes) :: usize) = length bytes" "unat (of_nat (length data) :: usize) = length data"
    using assms by (simp_all add: unat_of_nat)
  obtain e where e: "checked_add offset (of_nat (length bytes)) = Some e" "unat e = ?n"
    using assms l by (auto simp: checked_add_def unat_word_ariths)
  have r: "unat (saturating_add offset (of_nat (length bytes)) :: usize) = ?n" using assms l by (simp add: unat_saturating_add)
  let ?data = "data @ replicate (?n - length data) 0"
  have eq: "write_bytes data offset bytes = Done (take (unat offset) ?data @ bytes @ drop ?n ?data)"
    using e assms l r by (auto simp: write_bytes_def Let_def word_less_nat_alt)
  let ?d = "take (unat offset) ?data @ bytes @ drop ?n ?data"
  have 1: "length ?d = max (length data) ?n" by (auto simp: max_def min_def)
  have 2: "take (length bytes) (drop (unat offset) ?d) = bytes" by simp
  have 3: "\<forall>k < length ?d. k < unat offset \<or> ?n \<le> k \<longrightarrow> ?d ! k = (if k < length data then data ! k else 0)"
    unfolding 1 by (auto simp: nth_append)
  show ?thesis unfolding eq runs.simps by (intro conjI 1 2 3)
qed

text \<open>
  C13: reading back a memory file. After a write through an open descriptor, seeking back and
  reading the same number of bytes returns the bytes written. The file grows as needed, filled
  with zeros, its other bytes and all other files are unchanged, and so is every other
  descriptor; the offset ends after the bytes.
\<close>

theorem ram_file_round_trip:
  assumes f: "open_at entries d = Some f" "of_node f = RamFile i" and i: "i < length (ram_files w)" "length (ram_files w ! i) < 2 ^ 63"
    and small: "unat (of_offset f) + length bytes < 2 ^ 63" and buf: "length buf = length bytes"
  shows "runs (bind_run (descriptor_write w entries d bytes) (\<lambda>((w, entries), _).
       case seek entries d (of_offset f) of (entries, _) \<Rightarrow> descriptor_read w entries d buf)) (\<lambda>((w', entries', buf'), r).
     r = Inr (of_nat (length bytes)) \<and> buf' = bytes
     \<and> open_at entries' = (open_at entries)(d := Some (f\<lparr>of_offset := of_offset f + of_nat (length bytes)\<rparr>))
     \<and> length (ram_files w' ! i) = max (length (ram_files w ! i)) (unat (of_offset f) + length bytes)
     \<and> (\<forall>k. k < length (ram_files w' ! i) \<and> (k < unat (of_offset f) \<or> unat (of_offset f) + length bytes \<le> k) \<longrightarrow>
          ram_files w' ! i ! k = (if k < length (ram_files w ! i) then ram_files w ! i ! k else 0))
     \<and> (\<forall>j. j \<noteq> i \<longrightarrow> ram_files w' ! j = ram_files w ! j))"
proof -
  let ?n = "unat (of_offset f) + length bytes" and ?o = "of_offset f + of_nat (length bytes)"
  have d: "d < length entries" by (rule open_at_Some_less [OF f(1)])
  have u: "unat (of_nat (length bytes) :: usize) = length bytes" using small by (simp add: unat_of_nat)
  have sat: "saturating_add (of_offset f) (of_nat (length bytes)) = ?o" using small u by (simp add: saturating_add_def)
  obtain data where data: "write_bytes (ram_files w ! i) (of_offset f) bytes = Done data" "length data = max (length (ram_files w ! i)) ?n"
    "take (length bytes) (drop (unat (of_offset f)) data) = bytes"
    "\<forall>k < length data. k < unat (of_offset f) \<or> ?n \<le> k \<longrightarrow> data ! k = (if k < length (ram_files w ! i) then ram_files w ! i ! k else 0)"
    using write_bytes_runs [OF i(2) small] by (auto simp: runs_iff)
  let ?w = "w\<lparr>ram_files := (ram_files w)[i := data]\<rparr>" and ?e1 = "entries[d := Some (f\<lparr>of_offset := ?o\<rparr>)]" and ?e2 = "entries[d := Some f]"
  have w1: "descriptor_write w entries d bytes = Done ((?w, ?e1), Inr (of_nat (length bytes)))"
    using f i data(1) by (simp add: descriptor_write_def get_open_file_eq node_operation_defs advance_def sat)
  have s: "seek ?e1 d (of_offset f) = (?e2, Inr (of_offset f))" using d by (simp add: seek_def get_open_file_eq open_at_update)
  have len: "length data < 2 ^ 63" using data(2) i(2) small by simp
  have rd: "read_bytes data (of_offset f) buf = (bytes, of_nat (length bytes))"
  proof (cases "bytes = []")
    case True
    then show ?thesis using buf by (simp add: read_bytes_def)
  next
    case False
    have "unat (of_nat (length data) :: usize) = length data" using len by (simp add: unat_of_nat)
    then have lt: "\<not> of_nat (length data) \<le> of_offset f" using data(2) False by (simp add: word_le_nat_alt)
    have "min (length data - unat (of_offset f)) (length buf) = length bytes" using data(2) buf by simp
    then show ?thesis using lt data(3) buf by (simp add: read_bytes_def)
  qed
  have r: "descriptor_read ?w ?e2 d buf = Done ((?w, ?e1, bytes), Inr (of_nat (length bytes)))"
    using d f i(1) rd by (simp add: descriptor_read_def get_open_file_eq open_at_update node_operation_defs advance_def sat)
  show ?thesis unfolding w1 using s r data i d by (auto simp: open_at_update)
qed

theorem ram_file_round_trip_witness:
  "runs (bind_run (descriptor_write \<lparr>ram_files = [[1, 2]], stdin_queue = ring_new 4, serial_output = []\<rparr> [Some (OpenFile_new (RamFile 0) False)] 0 [7, 8, 9])
      (\<lambda>((w, entries), _). case seek entries 0 0 of (entries, _) \<Rightarrow> descriptor_read w entries 0 [0, 0, 0])) (\<lambda>((w', entries', buf'), r).
     r = Inr 3 \<and> buf' = [7, 8, 9] \<and> length (ram_files w' ! 0) = 3)"
proof -
  let ?f = "OpenFile_new (RamFile 0) False" and ?w = "\<lparr>ram_files = [[1, 2]], stdin_queue = ring_new 4, serial_output = []\<rparr>"
  have h: "open_at [Some ?f] 0 = Some ?f" "of_node ?f = RamFile 0" "0 < length (ram_files ?w)" "length (ram_files ?w ! 0) < 2 ^ 63"
    "unat (of_offset ?f) + length [7, 8, 9 :: u8] < 2 ^ 63" "length [0, 0, 0 :: u8] = length [7, 8, 9 :: u8]"
    by (simp_all add: open_at_def OpenFile_new_def)
  have "of_offset ?f = 0" by (simp add: OpenFile_new_def)
  then show ?thesis using ram_file_round_trip [OF h] by (auto elim!: runs_conseq)
qed

text \<open>
  C36: a write far past the end. A program that opens a memory file for writing, seeks to the
  largest offset and writes one byte or more makes the kernel panic: the file would have to
  grow past the largest size a vector may have.
\<close>

theorem ram_file_far_write_panics:
  assumes f: "open_at entries d = Some f" "of_node f = RamFile i" and i: "i < length (ram_files w)" "length (ram_files w ! i) < 2 ^ 63"
    and bytes: "bytes \<noteq> []" "length bytes < 2 ^ 63"
  shows "bind_run (seek_from w entries d (2 ^ 63 - 1) Seek_Start) (\<lambda>(entries, _). descriptor_write w entries d bytes) = Panic"
proof -
  let ?o = "2 ^ 63 - 1 :: 64 word"
  have d: "d < length entries" by (rule open_at_Some_less [OF f(1)])
  have o: "add_signed_offset 0 ?o = Some ?o" by (simp add: add_signed_offset_def checked_add_def)
  have u: "unat ?o = 2 ^ 63 - 1" by simp
  have l: "unat (of_nat (length bytes) :: usize) = length bytes" "unat (of_nat (length (ram_files w ! i)) :: usize) = length (ram_files w ! i)"
    using bytes(2) i(2) by (simp_all add: unat_of_nat)
  have pos: "1 \<le> length bytes" using bytes(1) by (simp add: Suc_le_eq)
  have r: "unat (saturating_add ?o (of_nat (length bytes))) = 2 ^ 63 - 1 + length bytes"
    unfolding unat_saturating_add u l using bytes(2) by simp
  have "2 ^ 63 \<le> unat (saturating_add ?o (of_nat (length bytes)))" unfolding r using pos by simp
  moreover from this have "of_nat (length (ram_files w ! i)) < saturating_add ?o (of_nat (length bytes))"
    unfolding word_less_nat_alt l using i(2) by linarith
  ultimately have "write_bytes (ram_files w ! i) ?o bytes = Panic" by (simp add: write_bytes_def Let_def)
  then show ?thesis
    using f i d o by (simp add: seek_from_def descriptor_write_def get_open_file_eq open_at_update node_operation_defs)
qed

theorem ram_file_far_write_panics_witness:
  "bind_run (seek_from \<lparr>ram_files = [[1, 2]], stdin_queue = ring_new 4, serial_output = []\<rparr> [Some (OpenFile_new (RamFile 0) False)] 0 (2 ^ 63 - 1) Seek_Start)
     (\<lambda>(entries, _). descriptor_write \<lparr>ram_files = [[1, 2]], stdin_queue = ring_new 4, serial_output = []\<rparr> entries 0 [7]) = Panic"
proof -
  let ?f = "OpenFile_new (RamFile 0) False" and ?w = "\<lparr>ram_files = [[1, 2]], stdin_queue = ring_new 4, serial_output = []\<rparr>"
  have h: "open_at [Some ?f] 0 = Some ?f" "of_node ?f = RamFile 0" "0 < length (ram_files ?w)" "length (ram_files ?w ! 0) < 2 ^ 63"
    "[7 :: u8] \<noteq> []" "length [7 :: u8] < 2 ^ 63"
    by (simp_all add: open_at_def OpenFile_new_def)
  show ?thesis by (rule ram_file_far_write_panics [OF h])
qed

end
