(* ===== verification/Fs_Namespace.thy ===== *)
theory Fs_Namespace
  imports Fs_Descriptor
begin

text \<open>
  The mounted namespace (\<open>kernel/filesystem/namespace.rs\<close>, \<open>mount.rs\<close> and the facade in
  \<open>service.rs\<close>). A \<open>BTreeMap\<close> is an association list in key order. Directory nodes hold a
  snapshot of their children, rebuilt after every mount.
\<close>

section \<open>State\<close>

datatype MountSource = Mount_Ram | Mount_Device | Mount_Fat32

record MountFlags =
  flags_writable :: bool

definition read_only_flags :: MountFlags where "read_only_flags = \<lparr>flags_writable = False\<rparr>"
definition read_write_flags :: MountFlags where "read_write_flags = \<lparr>flags_writable = True\<rparr>"

record MountInfo =
  mount_path :: string
  mount_source :: MountSource
  mount_flags :: MountFlags

record VirtualFileSystem =
  nodes :: "(string \<times> FileNode) list"
  mounts :: "MountInfo list"
  initialized :: bool

definition VirtualFileSystem_new :: VirtualFileSystem where
  "VirtualFileSystem_new = \<lparr>nodes = [], mounts = [], initialized = False\<rparr>"

fun btree_insert :: "'k::linorder \<Rightarrow> 'v \<Rightarrow> ('k \<times> 'v) list \<Rightarrow> ('k \<times> 'v) list" where
  "btree_insert k v [] = [(k, v)]"
| "btree_insert k v ((k', v') # m) =
     (if k < k' then (k, v) # (k', v') # m else if k = k' then (k, v) # m else (k', v') # btree_insert k v m)"

fun traverse :: "('a \<Rightarrow> 'b run) \<Rightarrow> 'a list \<Rightarrow> 'b list run" where
  "traverse f [] = Done []"
| "traverse f (x # xs) = bind_run (f x) (\<lambda>y. bind_run (traverse f xs) (\<lambda>ys. Done (y # ys)))"

section \<open>Path helpers\<close>

definition rsplit_once :: "'a \<Rightarrow> 'a list \<Rightarrow> ('a list \<times> 'a list) option" where
  "rsplit_once c xs =
     (if c \<in> set xs
      then Some (rev (tl (dropWhile (\<lambda>x. x \<noteq> c) (rev xs))), rev (takeWhile (\<lambda>x. x \<noteq> c) (rev xs)))
      else None)"

definition current_path_parent :: "string \<Rightarrow> string" where
  "current_path_parent path =
     (if path = ''/'' then ''/''
      else case rsplit_once CHR ''/'' path of
             None \<Rightarrow> ''/''
           | Some (parent, _) \<Rightarrow> if parent = [] then ''/'' else parent)"

definition strip_prefix :: "'a list \<Rightarrow> 'a list \<Rightarrow> 'a list option" where
  "strip_prefix p xs = (if take (length p) xs = p then Some (drop (length p) xs) else None)"

definition direct_child_name :: "string \<Rightarrow> string \<Rightarrow> string option" where
  "direct_child_name directory_path path =
     (let directory_path = normalize_path directory_path; path = normalize_path path in
      case (if directory_path = ''/'' then strip_prefix ''/'' path else strip_prefix (directory_path @ ''/'') path) of
        None \<Rightarrow> None
      | Some remainder \<Rightarrow> if remainder = [] \<or> CHR ''/'' \<in> set remainder then None else Some remainder)"

section \<open>Operations\<close>

fun upsert_mount :: "MountInfo list \<Rightarrow> string \<Rightarrow> MountSource \<Rightarrow> MountFlags \<Rightarrow> MountInfo list" where
  "upsert_mount [] path source flags = [\<lparr>mount_path = path, mount_source = source, mount_flags = flags\<rparr>]"
| "upsert_mount (m # ms) path source flags =
     (if mount_path m = path then m\<lparr>mount_source := source, mount_flags := flags\<rparr> # ms
      else m # upsert_mount ms path source flags)"

fun parent_paths :: "string \<Rightarrow> string list \<Rightarrow> string list" where
  "parent_paths current [] = []"
| "parent_paths current (segment # segments) =
     (let next = (if current = [] then CHR ''/'' # segment else current @ CHR ''/'' # segment) in
      current_path_parent next # parent_paths next segments)"

definition add_parent :: "MountSource \<Rightarrow> MountFlags \<Rightarrow> string \<Rightarrow> VirtualFileSystem \<Rightarrow> VirtualFileSystem" where
  "add_parent source flags parent self =
     (if map_of (nodes self) parent = None
      then self\<lparr>nodes := btree_insert parent (DirectoryNode []) (nodes self), mounts := upsert_mount (mounts self) parent source flags\<rparr>
      else self)"

definition ensure_parent_directories :: "VirtualFileSystem \<Rightarrow> string \<Rightarrow> MountSource \<Rightarrow> MountFlags \<Rightarrow> VirtualFileSystem" where
  "ensure_parent_directories self path source flags =
     fold (add_parent source flags) (parent_paths [] (filter (\<lambda>s. s \<noteq> []) (split_on CHR ''/'' path))) self"

definition collect_step ::
    "world \<Rightarrow> string \<Rightarrow> string \<times> FileNode \<Rightarrow> string list \<times> DirectoryEntry list \<Rightarrow> (string list \<times> DirectoryEntry list) run" where
  "collect_step w directory_path = (\<lambda>(path, node) (seen, entries).
     if path = directory_path then Done (seen, entries)
     else case direct_child_name directory_path path of
            None \<Rightarrow> Done (seen, entries)
          | Some name \<Rightarrow>
              if name \<in> set seen then Done (seen, entries)
              else bind_run (node_metadata w node) (\<lambda>md.
                Done (name # seen, entries @ [\<lparr>entry_name = name, entry_metadata = md\<rparr>])))"

definition collect_directory_entries :: "world \<Rightarrow> (string \<times> FileNode) list \<Rightarrow> string \<Rightarrow> DirectoryEntry list run" where
  "collect_directory_entries w ns directory_path = map_run snd (for_each (collect_step w directory_path) ns ([], []))"

definition directory_paths :: "world \<Rightarrow> (string \<times> FileNode) list \<Rightarrow> string list run" where
  "directory_paths w ns =
     map_run (List.map_filter id) (traverse (\<lambda>(path, node). bind_run (node_metadata w node) (\<lambda>md.
       Done (if file_type md = Directory then Some path else None))) ns)"

definition refresh_directories :: "world \<Rightarrow> VirtualFileSystem \<Rightarrow> VirtualFileSystem run" where
  "refresh_directories w self =
     bind_run (directory_paths w (nodes self)) (\<lambda>paths.
     bind_run (for_each (\<lambda>directory_path ns. bind_run (collect_directory_entries w ns directory_path) (\<lambda>entries.
       Done (btree_insert directory_path (DirectoryNode entries) ns))) paths (nodes self)) (\<lambda>ns.
       Done (self\<lparr>nodes := ns\<rparr>)))"

definition mount_node ::
    "world \<Rightarrow> VirtualFileSystem \<Rightarrow> string \<Rightarrow> FileNode \<Rightarrow> MountSource \<Rightarrow> MountFlags \<Rightarrow> VirtualFileSystem run" where
  "mount_node w self path node source flags =
     (let path = normalize_path path; self = ensure_parent_directories self path source flags in
      refresh_directories w (self\<lparr>nodes := btree_insert path node (nodes self),
        mounts := upsert_mount (mounts self) path source flags\<rparr>))"

definition mount_directory :: "world \<Rightarrow> VirtualFileSystem \<Rightarrow> string \<Rightarrow> MountSource \<Rightarrow> MountFlags \<Rightarrow> VirtualFileSystem run" where
  "mount_directory w self path source flags = mount_node w self path (DirectoryNode []) source flags"

text \<open>\<open>''ManaOS ramfs is initialized.''\<close> and a line feed.\<close>

definition readme_bytes :: "u8 list" where
  "readme_bytes = map (\<lambda>c. of_nat (of_char c)) ''ManaOS ramfs is initialized.'' @ [10]"

definition initialize :: "world \<Rightarrow> VirtualFileSystem \<Rightarrow> ((world \<times> VirtualFileSystem) \<times> (FileSystemError + unit)) run" where
  "initialize w self =
     (if initialized self then Done ((w, self), Inl AlreadyInitialized)
      else
        bind_run (mount_directory w self ''/'' Mount_Ram read_write_flags) (\<lambda>self.
        bind_run (mount_directory w self ''/dev'' Mount_Device read_write_flags) (\<lambda>self.
        bind_run (mount_node w self ''/dev/console'' ConsoleDevice Mount_Device read_write_flags) (\<lambda>self.
        bind_run (mount_node w self ''/dev/keyboard'' KeyboardInputDevice Mount_Device read_write_flags) (\<lambda>self.
        bind_run (mount_node w self ''/dev/null'' NullDevice Mount_Device read_write_flags) (\<lambda>self.
        let (w, readme) = RamFile_from_bytes w readme_bytes in
        bind_run (mount_node w self ''/README'' readme Mount_Ram read_write_flags) (\<lambda>self.
        bind_run (refresh_directories w self) (\<lambda>self.
          Done ((w, self\<lparr>initialized := True\<rparr>), Inr ())))))))))"

definition get_node :: "VirtualFileSystem \<Rightarrow> string \<Rightarrow> FileSystemError + FileNode" where
  "get_node self path =
     (if CHR 0x00 \<in> set path then Inl InvalidPath
      else case map_of (nodes self) (normalize_path path) of None \<Rightarrow> Inl NotFound | Some node \<Rightarrow> Inr node)"

definition fs_metadata :: "world \<Rightarrow> VirtualFileSystem \<Rightarrow> string \<Rightarrow> (FileSystemError + FileMetadata) run" where
  "fs_metadata w self path = (case get_node self path of Inl e \<Rightarrow> Done (Inl e) | Inr node \<Rightarrow> map_run Inr (node_metadata w node))"

definition list_directory :: "VirtualFileSystem \<Rightarrow> string \<Rightarrow> FileSystemError + DirectoryEntry list" where
  "list_directory self path = (case get_node self path of Inl e \<Rightarrow> Inl e | Inr node \<Rightarrow> node_list_entries node)"

definition list_mounts :: "VirtualFileSystem \<Rightarrow> MountInfo list" where
  "list_mounts self = mounts self"

section \<open>The service facade\<close>

definition get_required_node :: "VirtualFileSystem \<Rightarrow> string \<Rightarrow> FileNode run" where
  "get_required_node self path = (case get_node self path of Inl _ \<Rightarrow> Panic | Inr node \<Rightarrow> Done node)"

definition create_standard_file_descriptor_table :: "VirtualFileSystem \<Rightarrow> FileDescriptorTable run" where
  "create_standard_file_descriptor_table self =
     bind_run (get_required_node self ''/dev/null'') (\<lambda>input.
     bind_run (get_required_node self ''/dev/console'') (\<lambda>output.
     bind_run (get_required_node self ''/dev/console'') (\<lambda>error.
       Done (initialize_standard_descriptors input output error))))"

definition create_keyboard_standard_file_descriptor_table :: "VirtualFileSystem \<Rightarrow> FileDescriptorTable run" where
  "create_keyboard_standard_file_descriptor_table self =
     bind_run (get_required_node self ''/dev/keyboard'') (\<lambda>input.
     bind_run (get_required_node self ''/dev/console'') (\<lambda>output.
     bind_run (get_required_node self ''/dev/console'') (\<lambda>error.
       Done (initialize_standard_descriptors input output error))))"

text \<open>The service's \<open>initialize\<close>: the namespace and the kernel's own descriptor table.\<close>

definition initialize_service :: "world \<Rightarrow> VirtualFileSystem \<Rightarrow> ((world \<times> VirtualFileSystem) \<times> FileDescriptorTable) run" where
  "initialize_service w self =
     bind_run (initialize w self) (\<lambda>((w, self), r).
       case r of
         Inl _ \<Rightarrow> Panic
       | Inr _ \<Rightarrow> bind_run (create_standard_file_descriptor_table self) (\<lambda>table. Done ((w, self), table)))"

definition mount_ram_file :: "world \<Rightarrow> VirtualFileSystem \<Rightarrow> string \<Rightarrow> u8 list \<Rightarrow> (world \<times> VirtualFileSystem) run" where
  "mount_ram_file w self path contents =
     (let (w, node) = RamFile_from_bytes w contents in
      bind_run (mount_node w self path node Mount_Ram read_write_flags) (\<lambda>self. Done (w, self)))"

definition mount_read_only_file :: "world \<Rightarrow> VirtualFileSystem \<Rightarrow> string \<Rightarrow> u8 list \<Rightarrow> VirtualFileSystem run" where
  "mount_read_only_file w self path contents = mount_node w self path (ReadOnlyFile contents) Mount_Ram read_only_flags"

definition mount_fat32_file :: "world \<Rightarrow> VirtualFileSystem \<Rightarrow> string \<Rightarrow> usize \<Rightarrow> usize \<Rightarrow> BackendRead \<Rightarrow> VirtualFileSystem run" where
  "mount_fat32_file w self path byte_len context read =
     mount_node w self path (ReadOnlyBackendFile byte_len context read) Mount_Fat32 read_only_flags"

definition open_with_close_on_exec_in ::
    "VirtualFileSystem \<Rightarrow> FileDescriptorTable \<Rightarrow> string \<Rightarrow> bool \<Rightarrow> FileDescriptorTable \<times> (FileSystemError + nat)" where
  "open_with_close_on_exec_in self entries path close_on_exec =
     (case get_node self path of
        Inl e \<Rightarrow> (entries, Inl e)
      | Inr node \<Rightarrow> if close_on_exec then open_with_close_on_exec entries node True else open_descriptor entries node)"

end
