(* ===== verification/Fs_Namespace_Proofs.thy ===== *)
theory Fs_Namespace_Proofs
  imports Fs_Namespace
begin

text \<open>
  What the namespace operations do: the tree of paths stays closed under parents, every directory
  lists exactly its children, and a mount changes nothing but its own path and the listings.
\<close>

section \<open>Paths of segments\<close>

definition slashed :: "string list \<Rightarrow> string" where
  "slashed ss = concat (map (\<lambda>s. CHR ''/'' # s) ss)"

lemma slashed_simps [simp]: "slashed [] = []" "slashed (s # ss) = CHR ''/'' # s @ slashed ss" "slashed (ss @ ts) = slashed ss @ slashed ts"
  by (simp_all add: slashed_def)

lemma slashed_Nil_iff [simp]: "slashed ss = [] \<longleftrightarrow> ss = []"
  by (cases ss) auto

lemma join_slashed: "join_path ss = (if ss = [] then ''/'' else slashed ss)"
  by (cases ss) (simp_all add: join_path_def slashed_def Let_def)

definition no_slash :: "string \<Rightarrow> bool" where
  "no_slash s \<longleftrightarrow> CHR ''/'' \<notin> set s"

lemma split_slashed: "\<forall>s\<in>set ss. no_slash s \<Longrightarrow> split_on CHR ''/'' (slashed ss) = [] # ss"
proof (induction ss)
  case (Cons s ss)
  have s: "CHR ''/'' \<notin> set s" using Cons.prems by (simp add: no_slash_def)
  have IH: "split_on CHR ''/'' (slashed ss) = [] # ss" using Cons by simp
  show ?case
  proof (cases ss)
    case Nil
    then show ?thesis using split_on_single [OF s] by simp
  next
    case (Cons t ts)
    then have "slashed ss = CHR ''/'' # t @ slashed ts" by simp
    then show ?thesis using IH split_on_append [OF s, of "t @ slashed ts"] by simp
  qed
qed simp

lemma slashed_inj: "\<forall>s\<in>set ss. no_slash s \<Longrightarrow> \<forall>s\<in>set ts. no_slash s \<Longrightarrow> slashed ss = slashed ts \<Longrightarrow> ss = ts"
  by (metis split_slashed list.inject)

abbreviation names :: "string list \<Rightarrow> bool" where
  "names ss \<equiv> \<forall>s\<in>set ss. segment_name s"

lemma names_no_slash: "names ss \<Longrightarrow> \<forall>s\<in>set ss. no_slash s"
  by (auto simp: segment_name_def no_slash_def)

lemma normalize_join: "names ss \<Longrightarrow> normalize_path (join_path ss) = join_path ss"
  by (simp add: normalize_path_def segments_join)

lemma split_join_path: "names ss \<Longrightarrow> filter (\<lambda>s. s \<noteq> []) (split_on CHR ''/'' (join_path ss)) = ss"
proof (cases ss)
  case (Cons s xs)
  assume n: "names ss"
  then have "split_on CHR ''/'' (join_path ss) = [] # ss" using Cons split_slashed [OF names_no_slash [OF n]] by (simp add: join_slashed)
  moreover have "filter (\<lambda>s. s \<noteq> []) ss = ss" using n by (auto simp: segment_name_def intro: filter_True)
  ultimately show ?thesis by simp
qed (simp add: join_slashed)

text \<open>The parent of a path, and the list of its ancestors.\<close>

lemma parent_join:
  assumes "names (ss @ [s])"
  shows "current_path_parent (join_path (ss @ [s])) = join_path ss"
proof -
  let ?p = "slashed ss @ CHR ''/'' # s"
  have s: "CHR ''/'' \<notin> set s" "s \<noteq> []" using assms by (auto simp: segment_name_def)
  have r: "rsplit_once CHR ''/'' ?p = Some (slashed ss, s)"
  proof -
    have ns: "\<forall>x\<in>set (rev s). x \<noteq> CHR ''/''" using s(1) by auto
    have "dropWhile (\<lambda>x. x \<noteq> CHR ''/'') (rev ?p) = CHR ''/'' # rev (slashed ss)"
      using dropWhile_append2 [of "rev s" "\<lambda>x. x \<noteq> CHR ''/''" "CHR ''/'' # rev (slashed ss)"] ns by simp
    moreover have "takeWhile (\<lambda>x. x \<noteq> CHR ''/'') (rev ?p) = rev s"
      using takeWhile_append2 [of "rev s" "\<lambda>x. x \<noteq> CHR ''/''" "CHR ''/'' # rev (slashed ss)"] ns by simp
    ultimately show ?thesis by (simp add: rsplit_once_def)
  qed
  have "?p \<noteq> ''/''" using s(2) by (cases ss) auto
  then show ?thesis using r by (simp add: join_slashed current_path_parent_def)
qed

lemma parent_paths_eq:
  assumes "names (ps @ ss)"
  shows "parent_paths (slashed ps) ss = map (\<lambda>i. join_path (ps @ take i ss)) [0..<length ss]"
  using assms
proof (induction ss arbitrary: ps)
  case (Cons s ss)
  let ?next = "slashed ps @ CHR ''/'' # s"
  have n: "names (ps @ [s])" using Cons.prems by simp
  have "(if slashed ps = [] then CHR ''/'' # s else slashed ps @ CHR ''/'' # s) = slashed (ps @ [s])" by simp
  moreover have "current_path_parent (slashed (ps @ [s])) = join_path ps" using parent_join [OF n] by (simp add: join_slashed)
  moreover have "parent_paths (slashed (ps @ [s])) ss = map (\<lambda>i. join_path ((ps @ [s]) @ take i ss)) [0..<length ss]"
    using Cons.IH [of "ps @ [s]"] Cons.prems by simp
  moreover have "[0..<length (s # ss)] = 0 # map Suc [0..<length ss]" by (simp add: map_Suc_upt upt_conv_Cons del: upt_Suc)
  ultimately show ?case by (simp add: Let_def comp_def del: slashed_simps(3))
qed simp

lemma parents_of_join:
  assumes "names ss"
  shows "parent_paths [] (filter (\<lambda>s. s \<noteq> []) (split_on CHR ''/'' (join_path ss))) = map (\<lambda>i. join_path (take i ss)) [0..<length ss]"
  using parent_paths_eq [of "[]" ss] assms split_join_path [OF assms] by simp

text \<open>Direct children.\<close>

lemma strip_prefix_Some: "strip_prefix p xs = Some r \<longleftrightarrow> xs = p @ r"
  by (auto simp: strip_prefix_def) (metis append_take_drop_id)

lemma child_name_iff:
  assumes "names ds" "names ps"
  shows "direct_child_name (join_path ds) (join_path ps) = Some r \<longleftrightarrow> ps = ds @ [r]"
proof -
  let ?pre = "if join_path ds = ''/'' then ''/'' else join_path ds @ ''/''"
  have root: "join_path ds = ''/'' \<longleftrightarrow> ds = []" using assms(1) by (cases ds) (auto simp: join_slashed segment_name_def)
  have pre: "?pre = slashed ds @ ''/''" using root by (simp add: join_slashed)
  have "direct_child_name (join_path ds) (join_path ps) = Some r \<longleftrightarrow> join_path ps = ?pre @ r \<and> r \<noteq> [] \<and> no_slash r"
    using assms by (auto simp: direct_child_name_def Let_def normalize_join option_iffs strip_prefix_Some no_slash_def split: option.splits if_splits)
  also have "\<dots> \<longleftrightarrow> ps = ds @ [r]"
  proof
    assume l: "join_path ps = ?pre @ r \<and> r \<noteq> [] \<and> no_slash r"
    then have ne: "ps \<noteq> []" unfolding pre by (cases ds) (auto simp: join_slashed)
    then have "slashed ps = slashed (ds @ [r])" using l unfolding pre by (simp add: join_slashed)
    then show "ps = ds @ [r]" using slashed_inj [of ps "ds @ [r]"] assms names_no_slash l by auto
  next
    assume e: "ps = ds @ [r]"
    then have "r \<noteq> []" "no_slash r" using assms(2) by (auto simp: segment_name_def no_slash_def)
    then show "join_path ps = ?pre @ r \<and> r \<noteq> [] \<and> no_slash r" unfolding pre e by (simp add: join_slashed)
  qed
  finally show ?thesis .
qed

section \<open>Ordered maps\<close>

abbreviation ordered_map :: "('k::linorder \<times> 'v) list \<Rightarrow> bool" where
  "ordered_map m \<equiv> sorted_wrt (<) (map fst m)"

lemma keys_btree_insert [simp]: "fst ` set (btree_insert k v m) = insert k (fst ` set m)"
  by (induction k v m rule: btree_insert.induct) auto

lemma ordered_btree_insert: "ordered_map m \<Longrightarrow> ordered_map (btree_insert k v m)"
proof (induction k v m rule: btree_insert.induct)
  case (2 k v k' v' m)
  have keys: "set (map fst (btree_insert k v m)) = insert k (set (map fst m))" by simp
  show ?case
  proof (cases "k < k'")
    case True
    then show ?thesis using 2(2) by (auto dest: less_trans)
  next
    case False
    show ?thesis
    proof (cases "k = k'")
      case True
      then show ?thesis using 2(2) by simp
    next
      case ne: False
      then have "ordered_map (btree_insert k v m)" using 2 False by simp
      then show ?thesis using 2(2) False ne keys by auto
    qed
  qed
qed simp

lemma map_of_btree_insert: "ordered_map m \<Longrightarrow> map_of (btree_insert k v m) = (map_of m)(k \<mapsto> v)"
proof (induction k v m rule: btree_insert.induct)
  case (2 k v k' v' m)
  have "map_of m k = None" if "k < k'" using 2(2) that by (auto simp: map_of_eq_None_iff)
  with 2 show ?case by (auto simp: fun_eq_iff)
qed auto

lemma ordered_distinct: "ordered_map m \<Longrightarrow> distinct (map fst m)"
  by (simp add: strict_sorted_iff)

text \<open>Replacing the value of a key keeps the key list.\<close>

lemma btree_replace_keys: "ordered_map m \<Longrightarrow> k \<in> fst ` set m \<Longrightarrow> map fst (btree_insert k v m) = map fst m"
proof (induction k v m rule: btree_insert.induct)
  case (2 k v k' v' m)
  then show ?case by force
qed simp

section \<open>Listings\<close>

fun node_type :: "FileNode \<Rightarrow> FileType" where
  "node_type (RamFile i) = Regular"
| "node_type (ReadOnlyFile data) = Regular"
| "node_type (ReadOnlyBackendFile n c r) = Regular"
| "node_type (DirectoryNode es) = Directory"
| "node_type ConsoleDevice = Device"
| "node_type KeyboardInputDevice = Device"
| "node_type NullDevice = Device"

definition node_valid :: "world \<Rightarrow> FileNode \<Rightarrow> bool" where
  "node_valid w n \<longleftrightarrow> (\<forall>i. n = RamFile i \<longrightarrow> i < length (ram_files w))"

lemma node_metadata_valid: "node_valid w n \<Longrightarrow> \<exists>md. node_metadata w n = Done md \<and> file_type md = node_type n"
  by (cases n) (simp_all add: node_metadata_defs node_valid_def)

text \<open>The names of the children of a directory among a list of paths.\<close>

definition children :: "string \<Rightarrow> string list \<Rightarrow> string list" where
  "children d ks = List.map_filter (\<lambda>k. if k = d then None else direct_child_name d k) ks"

lemma in_children: "s \<in> set (children d ks) \<longleftrightarrow> (\<exists>k\<in>set ks. k \<noteq> d \<and> direct_child_name d k = Some s)"
  by (induction ks) (auto simp: children_def map_filter_def)

text \<open>A listing matches the nodes: the children in order, each with the type of its node.\<close>

definition listing_ok :: "(string \<times> FileNode) list \<Rightarrow> string \<Rightarrow> DirectoryEntry list \<Rightarrow> bool" where
  "listing_ok ns d es \<longleftrightarrow> map entry_name es = children d (map fst ns)
     \<and> (\<forall>e\<in>set es. \<exists>k n. (k, n) \<in> set ns \<and> direct_child_name d k = Some (entry_name e) \<and> file_type (entry_metadata e) = node_type n)"

lemma collect_runs:
  assumes valid: "\<forall>(k, n)\<in>set ns. node_valid w n" and dis: "distinct (map fst ns)"
    and inj: "\<And>k l s. k \<in> fst ` set ns \<Longrightarrow> l \<in> fst ` set ns \<Longrightarrow> direct_child_name d k = Some s \<Longrightarrow> direct_child_name d l = Some s \<Longrightarrow> k = l"
  shows "\<exists>es. collect_directory_entries w ns d = Done es \<and> listing_ok ns d es"
proof -
  have "\<exists>seen' es'. for_each (collect_step w d) ms (seen, es) = Done (seen', es @ es') \<and> map entry_name es' = children d (map fst ms)
     \<and> (\<forall>e\<in>set es'. \<exists>k n. (k, n) \<in> set ms \<and> direct_child_name d k = Some (entry_name e) \<and> file_type (entry_metadata e) = node_type n)"
    if "\<forall>(k, n)\<in>set ms. node_valid w n" "\<forall>(k, n)\<in>set ms. k \<noteq> d \<longrightarrow> (\<forall>s. direct_child_name d k = Some s \<longrightarrow> s \<notin> set seen)"
      "distinct (map fst ms)" "fst ` set ms \<subseteq> fst ` set ns" for ms seen es
    using that
  proof (induction ms arbitrary: seen es)
    case (Cons m ms)
    obtain k n where m: "m = (k, n)" by (cases m)
    have IH: "\<exists>seen' es''. for_each (collect_step w d) ms (seen1, es1) = Done (seen', es1 @ es'') \<and> map entry_name es'' = children d (map fst ms)
     \<and> (\<forall>e\<in>set es''. \<exists>k n. (k, n) \<in> set ms \<and> direct_child_name d k = Some (entry_name e) \<and> file_type (entry_metadata e) = node_type n)"
      if "\<forall>(k, n)\<in>set ms. k \<noteq> d \<longrightarrow> (\<forall>s. direct_child_name d k = Some s \<longrightarrow> s \<notin> set seen1)" for seen1 es1
      using Cons.IH [OF _ that] Cons.prems by simp
    show ?case
    proof (cases "k = d \<or> direct_child_name d k = None")
      case True
      then have "collect_step w d m (seen, es) = Done (seen, es)" "children d (map fst (m # ms)) = children d (map fst ms)"
        using m by (auto simp: collect_step_def children_def map_filter_def)
      moreover have "\<forall>(k, n)\<in>set ms. k \<noteq> d \<longrightarrow> (\<forall>s. direct_child_name d k = Some s \<longrightarrow> s \<notin> set seen)" using Cons.prems(2) by simp
      moreover from IH [OF this, of es] obtain seen' es'' where
        r: "for_each (collect_step w d) ms (seen, es) = Done (seen', es @ es'')" "map entry_name es'' = children d (map fst ms)"
        "\<forall>e\<in>set es''. \<exists>k n. (k, n) \<in> set ms \<and> direct_child_name d k = Some (entry_name e) \<and> file_type (entry_metadata e) = node_type n" by blast
      moreover from r(3) have "\<forall>e\<in>set es''. \<exists>k n. (k, n) \<in> set (m # ms) \<and> direct_child_name d k = Some (entry_name e) \<and> file_type (entry_metadata e) = node_type n"
        by (meson list.set_intros(2))
      ultimately show ?thesis by (intro exI [of _ seen'] exI [of _ es'']) simp
    next
      case False
      then obtain s where s: "k \<noteq> d" "direct_child_name d k = Some s" by auto
      obtain md where md: "node_metadata w n = Done md" "file_type md = node_type n" using node_metadata_valid Cons.prems(1) m by force
      have ns: "s \<notin> set seen" using Cons.prems(2) m s by simp
      let ?e = "\<lparr>entry_name = s, entry_metadata = md\<rparr>"
      have step: "collect_step w d m (seen, es) = Done (s # seen, es @ [?e])" using m s md ns by (simp add: collect_step_def)
      have ch: "children d (map fst (m # ms)) = s # children d (map fst ms)" using m s by (simp add: children_def map_filter_def)
      have "\<forall>(l, n)\<in>set ms. l \<noteq> d \<longrightarrow> (\<forall>t. direct_child_name d l = Some t \<longrightarrow> t \<notin> set (s # seen))"
      proof (clarify, goal_cases)
        case (1 l n' t)
        have "l \<noteq> k" using Cons.prems(3) m 1(1) by force
        moreover have "l \<in> fst ` set ns" "k \<in> fst ` set ns" using Cons.prems(4) m 1(1) by force+
        ultimately have "t \<noteq> s" using inj [of l k s] s(2) 1(3) by auto
        then show False using 1 Cons.prems(2) by auto
      qed
      from IH [OF this, of "es @ [?e]"] obtain seen' es'' where r: "for_each (collect_step w d) ms (s # seen, es @ [?e]) = Done (seen', (es @ [?e]) @ es'')"
        "map entry_name es'' = children d (map fst ms)"
        "\<forall>e\<in>set es''. \<exists>k n. (k, n) \<in> set ms \<and> direct_child_name d k = Some (entry_name e) \<and> file_type (entry_metadata e) = node_type n" by blast
      have "\<forall>e\<in>set (?e # es''). \<exists>k n. (k, n) \<in> set (m # ms) \<and> direct_child_name d k = Some (entry_name e) \<and> file_type (entry_metadata e) = node_type n"
        using r(3) m s(2) md(2) by fastforce
      then show ?thesis using step r(1,2) ch by (intro exI [of _ seen'] exI [of _ "?e # es''"]) simp
    qed
  qed (simp add: children_def map_filter_def)
  from this [of ns "[]" "[]"] valid dis show ?thesis by (fastforce simp: collect_directory_entries_def listing_ok_def)
qed

section \<open>Refreshing the directories\<close>

definition nodes_ok :: "world \<Rightarrow> (string \<times> FileNode) list \<Rightarrow> bool" where
  "nodes_ok w ns \<longleftrightarrow> ordered_map ns \<and> (\<forall>(k, n)\<in>set ns. canonical k \<and> node_valid w n)"

lemma children_inj:
  assumes "canonical d" "canonical k" "canonical l" "direct_child_name d k = Some s" "direct_child_name d l = Some s"
  shows "k = l"
proof -
  obtain ds ks ls where j: "names ds" "names ks" "names ls" "d = join_path ds" "k = join_path ks" "l = join_path ls"
    using assms(1-3) unfolding canonical_iff by blast
  then show ?thesis using assms(4,5) child_name_iff [OF j(1,2)] child_name_iff [OF j(1,3)] by simp
qed

lemma collect_ok:
  assumes "nodes_ok w ns" "canonical d"
  shows "\<exists>es. collect_directory_entries w ns d = Done es \<and> listing_ok ns d es"
proof (rule collect_runs)
  show "\<forall>(k, n)\<in>set ns. node_valid w n" "distinct (map fst ns)" using assms(1) ordered_distinct by (auto simp: nodes_ok_def)
  have can: "canonical k" if "k \<in> fst ` set ns" for k using assms(1) that by (auto simp: nodes_ok_def)
  show "k = l" if "k \<in> fst ` set ns" "l \<in> fst ` set ns" "direct_child_name d k = Some s" "direct_child_name d l = Some s" for k l s
    by (rule children_inj [OF assms(2) can [OF that(1)] can [OF that(2)] that(3,4)])
qed

lemma map_of_mem: "ordered_map m \<Longrightarrow> (k, v) \<in> set m \<longleftrightarrow> map_of m k = Some v"
  using ordered_distinct by (metis map_of_eq_Some_iff)

lemma nodes_ok_insert: "nodes_ok w ns \<Longrightarrow> canonical k \<Longrightarrow> node_valid w n \<Longrightarrow> nodes_ok w (btree_insert k n ns)"
proof -
  assume a: "nodes_ok w ns" "canonical k" "node_valid w n"
  have o: "ordered_map (btree_insert k n ns)" using a(1) unfolding nodes_ok_def by (intro ordered_btree_insert) (rule conjunct1)
  have "canonical l \<and> node_valid w v" if "(l, v) \<in> set (btree_insert k n ns)" for l v
  proof -
    have "((map_of ns)(k \<mapsto> n)) l = Some v" using that a(1) map_of_mem [OF o] map_of_btree_insert [of ns k n] by (simp add: nodes_ok_def)
    then show ?thesis using a map_of_SomeD [of ns l v] by (auto simp: nodes_ok_def split: if_splits)
  qed
  then show ?thesis using o by (auto simp: nodes_ok_def)
qed

text \<open>Two node lists with the same keys and the same node types have the same listings.\<close>

definition same_shape :: "(string \<times> FileNode) list \<Rightarrow> (string \<times> FileNode) list \<Rightarrow> bool" where
  "same_shape ms ns \<longleftrightarrow> map fst ms = map fst ns \<and> (\<forall>k. map_option node_type (map_of ms k) = map_option node_type (map_of ns k))"

lemma listing_shape:
  assumes "same_shape ms ns" "ordered_map ms" "listing_ok ms d es"
  shows "listing_ok ns d es"
proof -
  have o: "ordered_map ns" using assms(1,2) by (simp add: same_shape_def)
  have "\<exists>n'. (k, n') \<in> set ns \<and> node_type n' = node_type n" if "(k, n) \<in> set ms" for k n
  proof -
    have "map_of ms k = Some n" using that map_of_mem [OF assms(2)] by simp
    then have "map_option node_type (map_of ns k) = Some (node_type n)" using assms(1) by (metis same_shape_def option.simps(9))
    then show ?thesis using map_of_mem [OF o] by auto
  qed
  then show ?thesis using assms(1,3) unfolding listing_ok_def same_shape_def by metis
qed

lemma same_shape_replace:
  assumes "ordered_map ns" "map_of ns d = Some n" "node_type n = node_type v"
  shows "same_shape (btree_insert d v ns) ns"
proof -
  have "d \<in> fst ` set ns" using assms(2) by (metis domI dom_map_of_conv_image_fst)
  then show ?thesis using assms btree_replace_keys [OF assms(1), of d v] by (auto simp: same_shape_def map_of_btree_insert)
qed

abbreviation refresh_one :: "world \<Rightarrow> string \<Rightarrow> (string \<times> FileNode) list \<Rightarrow> (string \<times> FileNode) list run" where
  "refresh_one w d ns \<equiv> bind_run (collect_directory_entries w ns d) (\<lambda>entries. Done (btree_insert d (DirectoryNode entries) ns))"

lemma refresh_loop:
  assumes "nodes_ok w ns" "\<forall>d\<in>set ds. \<exists>es. map_of ns d = Some (DirectoryNode es)"
  shows "\<exists>ms. for_each (refresh_one w) ds ns = Done ms \<and> nodes_ok w ms \<and> same_shape ms ns
     \<and> (\<forall>d\<in>set ds. \<exists>es. map_of ms d = Some (DirectoryNode es) \<and> listing_ok ns d es) \<and> (\<forall>k. k \<notin> set ds \<longrightarrow> map_of ms k = map_of ns k)"
  using assms
proof (induction ds arbitrary: ns)
  case Nil
  then show ?case by (simp add: same_shape_def)
next
  case (Cons d ds)
  have o: "ordered_map ns" using Cons.prems(1) by (simp add: nodes_ok_def)
  obtain old where old: "map_of ns d = Some (DirectoryNode old)" using Cons.prems(2) by auto
  have can: "canonical d" using Cons.prems(1) map_of_SomeD [OF old] by (auto simp: nodes_ok_def)
  obtain es where es: "collect_directory_entries w ns d = Done es" "listing_ok ns d es" using collect_ok [OF Cons.prems(1) can] by blast
  let ?ns = "btree_insert d (DirectoryNode es) ns"
  have ok: "nodes_ok w ?ns" using nodes_ok_insert [OF Cons.prems(1) can] by (simp add: node_valid_def)
  have sh: "same_shape ?ns ns" by (rule same_shape_replace [OF o old]) simp
  have mo: "map_of ?ns = (map_of ns)(d \<mapsto> DirectoryNode es)" by (rule map_of_btree_insert [OF o])
  have "\<forall>c\<in>set ds. \<exists>fs. map_of ?ns c = Some (DirectoryNode fs)" using Cons.prems(2) mo by auto
  from Cons.IH [OF ok this] obtain ms where ms: "for_each (refresh_one w) ds ?ns = Done ms" "nodes_ok w ms" "same_shape ms ?ns"
    "\<forall>c\<in>set ds. \<exists>fs. map_of ms c = Some (DirectoryNode fs) \<and> listing_ok ?ns c fs" "\<forall>k. k \<notin> set ds \<longrightarrow> map_of ms k = map_of ?ns k" by blast
  have o': "ordered_map ?ns" using ok by (simp add: nodes_ok_def)
  have "same_shape ms ns" using ms(3) sh by (simp add: same_shape_def)
  moreover have "\<exists>fs. map_of ms c = Some (DirectoryNode fs) \<and> listing_ok ns c fs" if "c \<in> set (d # ds)" for c
  proof (cases "c \<in> set ds")
    case True
    then show ?thesis using ms(4) listing_shape [OF sh o'] by blast
  next
    case False
    then show ?thesis using that ms(5) mo es(2) by auto
  qed
  moreover have "\<forall>k. k \<notin> set (d # ds) \<longrightarrow> map_of ms k = map_of ns k" using ms(5) mo by auto
  ultimately show ?case using ms(1,2) es(1) by auto
qed

lemma directory_paths_eq:
  assumes "\<forall>(k, n)\<in>set ns. node_valid w n"
  shows "directory_paths w ns = Done (map fst (filter (\<lambda>(k, n). node_type n = Directory) ns))"
proof -
  have "traverse (\<lambda>(path, node). bind_run (node_metadata w node) (\<lambda>md. Done (if file_type md = Directory then Some path else None))) ns
      = Done (map (\<lambda>(k, n). if node_type n = Directory then Some k else None) ns)"
    using assms
  proof (induction ns)
    case (Cons m ms)
    obtain k n where m: "m = (k, n)" by (cases m)
    then obtain md where "node_metadata w n = Done md" "file_type md = node_type n" using node_metadata_valid Cons.prems by force
    then show ?case using Cons m by simp
  qed simp
  moreover have "List.map_filter id (map (\<lambda>(k, n). if node_type n = Directory then Some k else None) ns) = map fst (filter (\<lambda>(k, n). node_type n = Directory) ns)"
    by (induction ns) (auto simp: map_filter_def split: if_splits)
  ultimately show ?thesis by (simp add: directory_paths_def)
qed

lemma refresh_runs:
  assumes "nodes_ok w (nodes fs)"
  shows "runs (refresh_directories w fs) (\<lambda>fs'. nodes_ok w (nodes fs') \<and> same_shape (nodes fs') (nodes fs) \<and> mounts fs' = mounts fs \<and> initialized fs' = initialized fs
     \<and> (\<forall>d es. map_of (nodes fs') d = Some (DirectoryNode es) \<longrightarrow> listing_ok (nodes fs') d es)
     \<and> (\<forall>k n. map_of (nodes fs) k = Some n \<and> node_type n \<noteq> Directory \<longrightarrow> map_of (nodes fs') k = Some n))"
proof -
  let ?ns = "nodes fs" and ?ds = "map fst (filter (\<lambda>(k, n). node_type n = Directory) (nodes fs))"
  have o: "ordered_map ?ns" using assms by (simp add: nodes_ok_def)
  have ds: "d \<in> set ?ds \<longleftrightarrow> (\<exists>es. map_of ?ns d = Some (DirectoryNode es))" for d
  proof -
    have "d \<in> set ?ds \<longleftrightarrow> (\<exists>n. map_of ?ns d = Some n \<and> node_type n = Directory)" using map_of_mem [OF o] by force
    moreover have "node_type n = Directory \<longleftrightarrow> (\<exists>es. n = DirectoryNode es)" for n by (cases n) auto
    ultimately show ?thesis by auto
  qed
  then have "\<forall>d\<in>set ?ds. \<exists>es. map_of ?ns d = Some (DirectoryNode es)" by blast
  from refresh_loop [OF assms this] obtain ms where ms: "for_each (refresh_one w) ?ds ?ns = Done ms" "nodes_ok w ms" "same_shape ms ?ns"
    "\<forall>d\<in>set ?ds. \<exists>es. map_of ms d = Some (DirectoryNode es) \<and> listing_ok ?ns d es" "\<forall>k. k \<notin> set ?ds \<longrightarrow> map_of ms k = map_of ?ns k" by blast
  have eq: "refresh_directories w fs = Done (fs\<lparr>nodes := ms\<rparr>)"
    using ms(1) directory_paths_eq [of ?ns w] assms by (simp add: refresh_directories_def nodes_ok_def case_prod_beta)
  have o': "same_shape ?ns ms" using ms(3) by (simp add: same_shape_def)
  have "listing_ok ms d es" if "map_of ms d = Some (DirectoryNode es)" for d es
  proof -
    have "map_option node_type (map_of ?ns d) = Some Directory" using ms(3) that by (metis same_shape_def node_type.simps(4) option.simps(9))
    then have "d \<in> set ?ds" using ds by (auto elim: node_type.elims)
    then have "listing_ok ?ns d es" using ms(4) that by fastforce
    then show ?thesis by (rule listing_shape [OF o' o])
  qed
  moreover have "map_of ms k = Some n" if n: "map_of ?ns k = Some n" "node_type n \<noteq> Directory" for k n
  proof -
    have "k \<notin> set ?ds" unfolding ds using n by auto
    then show ?thesis using ms(5) n(1) by simp
  qed
  ultimately show ?thesis using eq ms(2,3) by simp
qed

end
