(* ===== verification/Fs_Properties.thy ===== *)
theory Fs_Properties
  imports Fs_Namespace_Proofs
begin

text \<open>The namespace invariant, mounts, and the namespace after initialization.\<close>

section \<open>Invariant\<close>

definition paths :: "VirtualFileSystem \<Rightarrow> string set" where
  "paths fs = fst ` set (nodes fs)"

definition fs_ok :: "world \<Rightarrow> VirtualFileSystem \<Rightarrow> bool" where
  "fs_ok w fs \<longleftrightarrow> nodes_ok w (nodes fs)
     \<and> (\<forall>ss s. names (ss @ [s]) \<and> join_path (ss @ [s]) \<in> paths fs \<longrightarrow> join_path ss \<in> paths fs)
     \<and> (\<forall>d es. map_of (nodes fs) d = Some (DirectoryNode es) \<longrightarrow> listing_ok (nodes fs) d es)"

lemma fs_ok_new: "fs_ok w VirtualFileSystem_new"
  by (simp add: fs_ok_def VirtualFileSystem_new_def nodes_ok_def paths_def)

lemma fs_ok_more_files:
  assumes "fs_ok w fs" "length (ram_files w) \<le> length (ram_files w')"
  shows "fs_ok w' fs"
proof -
  have "node_valid w n \<Longrightarrow> node_valid w' n" for n using assms(2) by (auto simp: node_valid_def)
  then show ?thesis using assms(1) unfolding fs_ok_def nodes_ok_def by blast
qed

lemma paths_dom: "ordered_map (nodes fs) \<Longrightarrow> k \<in> paths fs \<longleftrightarrow> map_of (nodes fs) k \<noteq> None"
  by (auto simp: paths_def map_of_eq_None_iff)

section \<open>Parents\<close>

lemma add_parents:
  assumes "nodes_ok w (nodes fs)" "\<forall>p\<in>set ps. canonical p"
  shows "nodes_ok w (nodes (fold (add_parent src fl) ps fs)) \<and> paths (fold (add_parent src fl) ps fs) = paths fs \<union> set ps
     \<and> (\<forall>k n. map_of (nodes fs) k = Some n \<longrightarrow> map_of (nodes (fold (add_parent src fl) ps fs)) k = Some n)
     \<and> initialized (fold (add_parent src fl) ps fs) = initialized fs"
  using assms
proof (induction ps arbitrary: fs)
  case (Cons p ps)
  let ?fs = "add_parent src fl p fs"
  have o: "ordered_map (nodes fs)" using Cons.prems(1) by (simp add: nodes_ok_def)
  have ok: "nodes_ok w (nodes ?fs)"
    using Cons.prems nodes_ok_insert [of w "nodes fs" p "DirectoryNode []"] by (simp add: add_parent_def node_valid_def)
  have "p \<in> fst ` set (nodes fs) \<longleftrightarrow> map_of (nodes fs) p \<noteq> None" by (auto simp: map_of_eq_None_iff)
  then have pa: "paths ?fs = insert p (paths fs)" by (auto simp: add_parent_def paths_def)
  have keep: "map_of (nodes ?fs) k = Some n" if "map_of (nodes fs) k = Some n" for k n
    using that map_of_btree_insert [OF o, of p "DirectoryNode []"] by (auto simp: add_parent_def)
  have init: "initialized ?fs = initialized fs" by (simp add: add_parent_def)
  show ?case using Cons.IH [OF ok] Cons.prems(2) pa keep init by auto
qed simp

lemma listing_names:
  assumes "nodes_ok w ns" "names ds" "listing_ok ns (join_path ds) es"
  shows "distinct (map entry_name es) \<and> entry_name ` set es = {s. segment_name s \<and> join_path (ds @ [s]) \<in> fst ` set ns}"
proof -
  let ?d = "join_path ds" and ?ks = "map fst ns"
  have can: "canonical k" if "k \<in> set ?ks" for k using assms(1) that by (auto simp: nodes_ok_def)
  have dis: "distinct ?ks" using assms(1) unfolding nodes_ok_def by (intro ordered_distinct) (rule conjunct1)
  have dc: "canonical ?d" using assms(2) canonical_iff by blast
  have "distinct (children ?d ks)" if "distinct ks" "set ks \<subseteq> set ?ks" for ks
    using that
  proof (induction ks)
    case (Cons k ks)
    show ?case
    proof (cases "k = ?d \<or> direct_child_name ?d k = None")
      case True
      then have "children ?d (k # ks) = children ?d ks" by (auto simp: children_def map_filter_def)
      then show ?thesis using Cons by simp
    next
      case False
      then obtain s where s: "direct_child_name ?d k = Some s" "k \<noteq> ?d" by auto
      have "s \<notin> set (children ?d ks)"
      proof
        assume "s \<in> set (children ?d ks)"
        then obtain l where l: "l \<in> set ks" "direct_child_name ?d l = Some s" by (auto simp: in_children)
        then have "k = l" using Cons.prems(2) can children_inj [OF dc _ _ s(1) l(2)] by auto
        then show False using Cons.prems(1) l(1) by simp
      qed
      moreover have "children ?d (k # ks) = s # children ?d ks" using s by (simp add: children_def map_filter_def)
      ultimately show ?thesis using Cons by simp
    qed
  qed (simp add: children_def map_filter_def)
  then have "distinct (children ?d ?ks)" using dis by simp
  moreover have "set (children ?d ?ks) = {s. segment_name s \<and> join_path (ds @ [s]) \<in> set ?ks}"
  proof (intro set_eqI iffI)
    fix s assume "s \<in> set (children ?d ?ks)"
    then obtain k where k: "k \<in> set ?ks" "direct_child_name ?d k = Some s" by (auto simp: in_children)
    obtain ks where ks: "names ks" "k = join_path ks" using can [OF k(1)] canonical_iff by blast
    then have "ks = ds @ [s]" using child_name_iff [OF assms(2) ks(1)] k(2) by simp
    then show "s \<in> {s. segment_name s \<and> join_path (ds @ [s]) \<in> set ?ks}" using ks k(1) by simp
  next
    fix s assume "s \<in> {s. segment_name s \<and> join_path (ds @ [s]) \<in> set ?ks}"
    then have n: "names (ds @ [s])" and k: "join_path (ds @ [s]) \<in> set ?ks" using assms(2) by auto
    have "direct_child_name ?d (join_path (ds @ [s])) = Some s" using child_name_iff [OF assms(2) n] by simp
    moreover have "join_path (ds @ [s]) \<noteq> ?d" using join_path_inj [OF n assms(2)] by simp
    ultimately show "s \<in> set (children ?d ?ks)" using k in_children by blast
  qed
  ultimately show ?thesis using assms(3) unfolding listing_ok_def by (metis list.set_map)
qed

section \<open>Mounts\<close>

text \<open>The paths a mount brings into being: the path itself and all its ancestors.\<close>

definition lineage :: "string \<Rightarrow> string set" where
  "lineage path = {join_path (take i (path_segments path)) | i. i \<le> length (path_segments path)}"

lemma names_take: "names ss \<Longrightarrow> names (take i ss)"
  by (meson in_set_takeD)

lemma lineage_parents:
  "lineage path = set (map (\<lambda>i. join_path (take i (path_segments path))) [0..<length (path_segments path)]) \<union> {normalize_path path}"
proof -
  let ?f = "\<lambda>i. join_path (take i (path_segments path))" and ?n = "length (path_segments path)"
  have "lineage path = ?f ` {0..?n}" by (auto simp: lineage_def)
  also have "{0..?n} = {0..<?n} \<union> {?n}" by auto
  also have "?f ` ({0..<?n} \<union> {?n}) = ?f ` {0..<?n} \<union> {normalize_path path}" by (simp add: normalize_path_def)
  finally show ?thesis by simp
qed

lemma lineage_closed:
  assumes "names (ss @ [s])" "join_path (ss @ [s]) \<in> lineage path"
  shows "join_path ss \<in> lineage path"
proof -
  let ?ss = "path_segments path"
  obtain i where i: "join_path (ss @ [s]) = join_path (take i ?ss)" "i \<le> length ?ss" using assms(2) by (auto simp: lineage_def)
  have t: "ss @ [s] = take i ?ss" using i(1) join_path_inj [OF assms(1) names_take [OF path_segments_names]] by simp
  have "ss = butlast (take i ?ss)" by (simp flip: t)
  also have "\<dots> = take (i - 1) ?ss" using i(2) by (rule butlast_take)
  finally have e: "ss = take (i - 1) ?ss" .
  have "i - 1 \<le> length ?ss" using i(2) by simp
  then show ?thesis unfolding lineage_def using e by blast
qed

lemma mount_node_runs:
  assumes ok: "fs_ok w fs" and valid: "node_valid w node"
  shows "runs (mount_node w fs path node src fl) (\<lambda>fs'. fs_ok w fs' \<and> paths fs' = paths fs \<union> lineage path \<and> initialized fs' = initialized fs
     \<and> (node_type node \<noteq> Directory \<longrightarrow> map_of (nodes fs') (normalize_path path) = Some node)
     \<and> (\<forall>k n. k \<noteq> normalize_path path \<and> map_of (nodes fs) k = Some n \<and> node_type n \<noteq> Directory \<longrightarrow> map_of (nodes fs') k = Some n))"
proof -
  let ?ss = "path_segments path" and ?p = "normalize_path path"
  let ?ps = "map (\<lambda>i. join_path (take i ?ss)) [0..<length ?ss]"
  let ?fs1 = "ensure_parent_directories fs ?p src fl"
  have p: "?p = join_path ?ss" by (simp add: normalize_path_def)
  have "canonical (join_path (take i ?ss))" for i using canonical_iff names_take [OF path_segments_names] by blast
  then have pc: "\<forall>q\<in>set ?ps. canonical q" by simp
  have e1: "?fs1 = fold (add_parent src fl) ?ps fs"
    unfolding ensure_parent_directories_def p parents_of_join [OF path_segments_names] ..
  have nok: "nodes_ok w (nodes fs)" using ok unfolding fs_ok_def by (rule conjunct1)
  have ap: "nodes_ok w (nodes ?fs1)" "paths ?fs1 = paths fs \<union> set ?ps" "initialized ?fs1 = initialized fs"
    and keep1: "\<And>k n. map_of (nodes fs) k = Some n \<Longrightarrow> map_of (nodes ?fs1) k = Some n"
    using add_parents [OF nok pc, of src fl] unfolding e1 by blast+
  let ?fs2 = "?fs1\<lparr>nodes := btree_insert ?p node (nodes ?fs1), mounts := upsert_mount (mounts ?fs1) ?p src fl\<rparr>"
  have ok2: "nodes_ok w (nodes ?fs2)" using nodes_ok_insert [OF ap(1) normalize_canonical valid] by simp
  have "paths ?fs2 = paths ?fs1 \<union> {?p}" by (auto simp: paths_def)
  then have paths2: "paths ?fs2 = paths fs \<union> lineage path" unfolding ap(2) lineage_parents by blast
  have o1: "ordered_map (nodes ?fs1)" using ap(1) unfolding nodes_ok_def by (rule conjunct1)
  have m2: "map_of (nodes ?fs2) = (map_of (nodes ?fs1))(?p \<mapsto> node)" using map_of_btree_insert [OF o1] by simp
  have closed: "join_path ss \<in> paths fs \<union> lineage path" if "names (ss @ [s])" "join_path (ss @ [s]) \<in> paths fs \<union> lineage path" for ss s
    using that ok lineage_closed [OF that(1)] unfolding fs_ok_def by blast
  show ?thesis
    unfolding mount_node_def Let_def
  proof (rule runs_conseq [OF refresh_runs [OF ok2]], elim conjE, goal_cases)
    case (1 fs')
    have pa: "paths fs' = paths fs \<union> lineage path" using 1(2) paths2 unfolding same_shape_def paths_def by (metis list.set_map)
    have "fs_ok w fs'" unfolding fs_ok_def pa using 1(1,5) closed by blast
    moreover have "map_of (nodes fs') ?p = Some node" if "node_type node \<noteq> Directory"
      using 1(6) [rule_format, of ?p node] m2 that by simp
    moreover have "map_of (nodes fs') k = Some n" if "k \<noteq> ?p" "map_of (nodes fs) k = Some n" "node_type n \<noteq> Directory" for k n
      using 1(6) [rule_format, of k n] m2 that keep1 [OF that(2)] by simp
    ultimately show ?case using pa 1(4) ap(3) by simp
  qed
qed


definition empty_world :: world where
  "empty_world = \<lparr>ram_files = [], stdin_queue = ring_new 1, serial_output = []\<rparr>"


section \<open>The namespace after initialization\<close>

text \<open>A stage of the initialization: the paths so far and the files and devices among them.\<close>

definition stage :: "world \<Rightarrow> string set \<Rightarrow> (string \<times> FileNode) list \<Rightarrow> VirtualFileSystem \<Rightarrow> bool" where
  "stage w ps ds fs \<longleftrightarrow> fs_ok w fs \<and> \<not> initialized fs \<and> paths fs = ps
     \<and> (\<forall>k n. map_of ds k = Some n \<longrightarrow> map_of (nodes fs) k = Some n \<and> node_type n \<noteq> Directory)"

lemma stage_node:
  assumes "stage w ps ds fs" "node_valid w node" "node_type node \<noteq> Directory"
  shows "runs (mount_node w fs path node src fl) (stage w (ps \<union> lineage path) ((normalize_path path, node) # ds))"
proof (rule runs_conseq [OF mount_node_runs [OF _ assms(2)]])
  show "fs_ok w fs" using assms(1) by (simp add: stage_def)
qed (use assms in \<open>auto simp: stage_def\<close>)

lemma stage_directory:
  assumes "stage w ps ds fs" "map_of ds (normalize_path path) = None"
  shows "runs (mount_directory w fs path src fl) (stage w (ps \<union> lineage path) ds)"
  unfolding mount_directory_def
proof (rule runs_conseq [OF mount_node_runs])
  show "fs_ok w fs" using assms(1) by (simp add: stage_def)
next
  fix x
  assume "fs_ok w x \<and> paths x = paths fs \<union> lineage path \<and> initialized x = initialized fs
     \<and> (node_type (DirectoryNode []) \<noteq> Directory \<longrightarrow> map_of (nodes x) (normalize_path path) = Some (DirectoryNode []))
     \<and> (\<forall>k n. k \<noteq> normalize_path path \<and> map_of (nodes fs) k = Some n \<and> node_type n \<noteq> Directory \<longrightarrow> map_of (nodes x) k = Some n)"
  moreover from this have "map_of (nodes x) k = Some n" if "map_of ds k = Some n" for k n
    using that assms by (cases "k = normalize_path path") (auto simp: stage_def)
  ultimately show "stage w (ps \<union> lineage path) ds x" using assms(1) by (simp add: stage_def)
qed (simp add: node_valid_def)

lemma stage_more_files: "stage w ps ds fs \<Longrightarrow> stage (w\<lparr>ram_files := ram_files w @ [bs]\<rparr>) ps ds fs"
  by (auto simp: stage_def intro: fs_ok_more_files)

lemma stage_refresh:
  assumes "stage w ps ds fs"
  shows "runs (refresh_directories w fs) (stage w ps ds)"
proof -
  have nok: "nodes_ok w (nodes fs)" using assms unfolding stage_def fs_ok_def by blast
  show ?thesis
  proof (rule runs_conseq [OF refresh_runs [OF nok]], elim conjE, goal_cases)
    case (1 fs')
    have pa: "paths fs' = paths fs" using 1(2) unfolding same_shape_def paths_def by (metis list.set_map)
    have ok: "fs_ok w fs'" unfolding fs_ok_def pa using 1(1,5) assms unfolding stage_def fs_ok_def by blast
    have "map_of (nodes fs') k = Some n \<and> node_type n \<noteq> Directory" if "map_of ds k = Some n" for k n
      using 1(6) [rule_format, of k n] assms that unfolding stage_def by blast
    then show ?case unfolding stage_def pa using ok 1(4) assms unfolding stage_def by simp
  qed
qed

lemma initial_segments:
  "path_segments ''/'' = []" "path_segments ''/dev'' = [''dev'']" "path_segments ''/dev/console'' = [''dev'', ''console'']"
  "path_segments ''/dev/keyboard'' = [''dev'', ''keyboard'']" "path_segments ''/dev/null'' = [''dev'', ''null'']"
  "path_segments ''/README'' = [''README'']"
  by code_simp+

lemma initial_normal:
  "normalize_path ''/'' = ''/''" "normalize_path ''/dev'' = ''/dev''" "normalize_path ''/dev/console'' = ''/dev/console''"
  "normalize_path ''/dev/keyboard'' = ''/dev/keyboard''" "normalize_path ''/dev/null'' = ''/dev/null''" "normalize_path ''/README'' = ''/README''"
  unfolding normalize_path_def initial_segments by (simp_all add: join_path_def)

lemma initial_lineages:
  "lineage ''/'' = {''/''}" "lineage ''/dev'' = {''/'', ''/dev''}" "lineage ''/dev/console'' = {''/'', ''/dev'', ''/dev/console''}"
  "lineage ''/dev/keyboard'' = {''/'', ''/dev'', ''/dev/keyboard''}" "lineage ''/dev/null'' = {''/'', ''/dev'', ''/dev/null''}"
  "lineage ''/README'' = {''/'', ''/README''}"
  unfolding lineage_parents initial_normal initial_segments by (simp_all add: join_path_def insert_commute)

definition initial_paths :: "string set" where
  "initial_paths = {''/'', ''/dev'', ''/dev/console'', ''/dev/keyboard'', ''/dev/null'', ''/README''}"

definition initial_files :: "nat \<Rightarrow> (string \<times> FileNode) list" where
  "initial_files readme = [(''/README'', RamFile readme), (''/dev/null'', NullDevice), (''/dev/keyboard'', KeyboardInputDevice), (''/dev/console'', ConsoleDevice)]"

lemma lineages_union: "{} \<union> {a} \<union> {a, b} \<union> {a, b, c} \<union> {a, b, d} \<union> {a, b, e} \<union> {a, f} = {a, b, c, d, e, f}"
  by blast

lemma initialize_runs:
  "runs (initialize w VirtualFileSystem_new) (\<lambda>((w', fs), r). r = Inr () \<and> w' = w\<lparr>ram_files := ram_files w @ [readme_bytes]\<rparr> \<and> initialized fs
     \<and> stage w' initial_paths (initial_files (length (ram_files w))) (fs\<lparr>initialized := False\<rparr>))"
proof -
  let ?i = "length (ram_files w)" and ?w = "w\<lparr>ram_files := ram_files w @ [readme_bytes]\<rparr>"
  have snd: "RamFile_from_bytes w readme_bytes = (?w, RamFile ?i)" and files: "length (ram_files ?w) = Suc ?i"
    by (simp_all add: RamFile_from_bytes_def)
  have start: "stage w {} [] VirtualFileSystem_new" using fs_ok_new by (simp add: stage_def paths_def VirtualFileSystem_new_def)
  have ni: "\<not> initialized VirtualFileSystem_new" by (simp add: VirtualFileSystem_new_def)
  have device: "node_valid w ConsoleDevice" "node_valid w KeyboardInputDevice" "node_valid w NullDevice" "node_valid ?w (RamFile ?i)"
    "node_type ConsoleDevice \<noteq> Directory" "node_type KeyboardInputDevice \<noteq> Directory" "node_type NullDevice \<noteq> Directory"
    "node_type (RamFile ?i) \<noteq> Directory"
    by (simp_all add: node_valid_def)
  let ?ps = "{} \<union> lineage ''/'' \<union> lineage ''/dev'' \<union> lineage ''/dev/console'' \<union> lineage ''/dev/keyboard'' \<union> lineage ''/dev/null'' \<union> lineage ''/README''"
  have ps: "?ps = initial_paths" unfolding initial_lineages initial_paths_def by (rule lineages_union)
  have finish: "runs (Done ((?w, fs\<lparr>initialized := True\<rparr>), Inr ())) (\<lambda>((w', fs), r). r = Inr () \<and> w' = ?w \<and> initialized fs
     \<and> stage w' initial_paths (initial_files ?i) (fs\<lparr>initialized := False\<rparr>))"
    if "stage ?w initial_paths (initial_files ?i) fs" for fs
  proof -
    have "fs\<lparr>initialized := False\<rparr> = fs" using that by (simp add: stage_def)
    then show ?thesis using that by simp
  qed
  show ?thesis
    unfolding initialize_def snd Let_def prod.case if_not_P [OF ni] runs_bind
    apply (rule runs_conseq [OF stage_directory [OF start]], simp only: map_of.simps)
    apply (rule runs_conseq [OF stage_directory], assumption, simp only: map_of.simps)
    apply (rule runs_conseq [OF stage_node], assumption, rule device, rule device)
    apply (rule runs_conseq [OF stage_node], assumption, rule device, rule device)
    apply (rule runs_conseq [OF stage_node], assumption, rule device, rule device)
    apply (rule runs_conseq [OF stage_node [OF stage_more_files]], assumption, rule device, rule device)
    apply (rule runs_conseq [OF stage_refresh], assumption)
    apply (rule finish)
    apply (simp only: ps initial_normal initial_files_def)
    done
qed

lemma stage_get:
  assumes "stage w ps ds fs" "map_of ds p = Some n" "normalize_path p = p" "CHR 0x00 \<notin> set p"
  shows "get_node fs p = Inr n"
  using assms by (auto simp: stage_def get_node_def)

lemma get_node_initialized: "get_node (fs\<lparr>initialized := b\<rparr>) = get_node fs"
  by (rule ext) (simp add: get_node_def)

lemma fs_ok_initialized: "fs_ok w (fs\<lparr>initialized := b\<rparr>) = fs_ok w fs" "paths (fs\<lparr>initialized := b\<rparr>) = paths fs"
  by (simp_all add: fs_ok_def paths_def)

text \<open>
  C19: bringing up the file system. Initializing the service on the empty namespace never panics,
  although every lookup of a standard device would panic if it failed. The namespace satisfies its
  invariant and has the six initial paths; the kernel's own descriptors 0, 1 and 2 are the null
  device and twice the console, and the table for keyboard input can be made as well. The README
  is a memory file with the initial text, and a second initialization is refused and changes nothing.
\<close>

theorem service_comes_up:
  "runs (initialize_service w VirtualFileSystem_new) (\<lambda>((w', fs), table).
     fs_ok w' fs \<and> paths fs = initial_paths
     \<and> table = initialize_standard_descriptors NullDevice ConsoleDevice ConsoleDevice
     \<and> create_keyboard_standard_file_descriptor_table fs = Done (initialize_standard_descriptors KeyboardInputDevice ConsoleDevice ConsoleDevice)
     \<and> (\<exists>i. get_node fs ''/README'' = Inr (RamFile i) \<and> i < length (ram_files w') \<and> ram_files w' ! i = readme_bytes)
     \<and> initialize w' fs = Done ((w', fs), Inl AlreadyInitialized))"
  unfolding initialize_service_def runs_bind
proof (rule runs_conseq [OF initialize_runs], clarsimp, goal_cases)
  case (1 fs)
  note st = 1(2)
  have "get_node fs ''/dev/null'' = Inr NullDevice" "get_node fs ''/dev/console'' = Inr ConsoleDevice"
    "get_node fs ''/dev/keyboard'' = Inr KeyboardInputDevice" "get_node fs ''/README'' = Inr (RamFile (length (ram_files w)))"
    using stage_get [OF st, unfolded get_node_initialized initial_files_def] initial_normal by simp_all
  moreover have "fs_ok (w\<lparr>ram_files := ram_files w @ [readme_bytes]\<rparr>) fs" "paths fs = initial_paths"
    using st unfolding stage_def fs_ok_initialized by simp_all
  ultimately show ?case using 1(1)
    by (simp add: create_standard_file_descriptor_table_def create_keyboard_standard_file_descriptor_table_def get_required_node_def initialize_def)
qed

lemma stale_normal:
  "normalize_path ''/'' = ''/''" "normalize_path ''/bin'' = ''/bin''" "normalize_path ''/bin/sh'' = ''/bin/sh''"
proof -
  have seg: "path_segments ''/'' = []" "path_segments ''/bin'' = [''bin'']" "path_segments ''/bin/sh'' = [''bin'', ''sh'']" by code_simp+
  show "normalize_path ''/'' = ''/''" "normalize_path ''/bin'' = ''/bin''" "normalize_path ''/bin/sh'' = ''/bin/sh''"
    unfolding normalize_path_def seg by (simp_all add: join_path_def)
qed

lemma stale_children:
  "direct_child_name ''/'' ''/bin'' = Some ''bin''" "direct_child_name ''/'' ''/bin/sh'' = None"
  "direct_child_name ''/bin'' ''/'' = None" "direct_child_name ''/bin'' ''/bin/sh'' = Some ''sh''"
  unfolding direct_child_name_def stale_normal Let_def by (simp_all add: strip_prefix_def)

lemma stale_parents: "parent_paths [] (filter (\<lambda>s. s \<noteq> []) (split_on CHR ''/'' ''/bin/sh'')) = [''/'', ''/bin'']"
  by code_simp

lemma stale_order: "''/'' < ''/bin''" "''/'' < ''/bin/sh''" "''/bin'' < ''/bin/sh''" "\<not> ''/bin'' < ''/''" "\<not> ''/bin/sh'' < ''/''" "\<not> ''/bin/sh'' < ''/bin''"
  by code_simp+

lemma stale_ensured: "ensure_parent_directories VirtualFileSystem_new ''/bin/sh'' src fl = \<lparr>
    nodes = [(''/'', DirectoryNode []), (''/bin'', DirectoryNode [])],
    mounts = map (\<lambda>p. \<lparr>mount_path = p, mount_source = src, mount_flags = fl\<rparr>) [''/'', ''/bin''], initialized = False\<rparr>"
  unfolding ensure_parent_directories_def stale_parents by (simp add: stale_order add_parent_def VirtualFileSystem_new_def)


end
