(* ===== verification/Spec2Isabelle.thy ===== *)
theory Spec2Isabelle
  imports Address_Checks Frame_Accounting Virtual_Properties Heap_Properties User_Mapping_Requests Elf_Loading
    Ring_Concurrent Fs_Properties
begin

text \<open>
  Verification library for the ManaOS kernel, a single-processor x86-64 kernel in Rust. It covers
  the memory manager of user and kernel memory, the loading of user programs, the queues behind
  the input devices, and the virtual file system with its descriptors.

  \<^bold>\<open>How the parts interact.\<close> At boot, \<open>import_boot_memory_map\<close> hands the firmware's memory map to the
  physical frame allocator. Every other consumer of memory takes frames from it under an owner
  tag: page tables, user stacks, the user heap, private mappings and the ELF loader. User memory is
  reached through page tables that are walked by the \<open>x86_64\<close> crate. A program is validated, its
  segments are mapped and copied, and a stack with its arguments is built; later it grows its heap
  with \<open>brk\<close>, and maps and unmaps memory. Interrupt handlers push scancodes and mouse bytes into
  lock-free rings that the main loop drains; the keyboard ends in the standard input queue, which
  a program reads through a file descriptor. Descriptors refer to nodes of a mounted namespace.

  \<^bold>\<open>Conventions.\<close> Rust's integers are words of their width (\<open>u8\<close> to \<open>u64\<close>, \<open>usize\<close> has 64 bits). An
  operation that can panic (a failed assertion or \<open>expect\<close>, an index out of range, an overflow, which
  the kernel's build checks) returns \<open>'a run\<close>, with \<open>Panic\<close> as a value; \<open>Result\<close> is a sum with the
  error on the left. \<open>runs m P\<close> says that \<open>m\<close> does not panic and its result satisfies \<open>P\<close>, so a
  theorem of this form is total correctness. State is passed and returned. Log lines are dropped;
  locks are not modelled, since every operation of a locked object runs under its lock.

  \<^bold>\<open>Theories and what they show.\<close>

  \<^item> \<open>Mana_Prelude\<close>, \<open>Fixed_Table\<close>, \<open>Range_Cells\<close>, \<open>Byte_Fields\<close>, \<open>Allocator_Contract\<close>: arithmetic and panics;
    the table loops that several components share (search, shift, merge), each equal to a list
    operation; the locale of sorted tables of address ranges; byte slices and little-endian fields;
    the locale of range allocators, in which a client's held ranges are disjoint and nothing is lost.
  \<^item> \<open>Address\<close>, \<open>Address_Checks\<close> (\<open>memory/address.rs\<close>): the typed addresses and ranges, the exact
    conditions of their constructors, page rounding and page bounds, and the boot self-checks.
  \<^item> \<open>Frame_Allocator\<close> (\<open>memory/frame_allocator.rs\<close>), with the proofs in \<open>Frame_Tables\<close>,
    \<open>Frame_Allocator_Proofs\<close>, \<open>Frame_Reserve\<close>, \<open>Frame_Allocator_Spec\<close> and \<open>Frame_Reference\<close>, and the
    properties in \<open>Frame_Properties\<close>, \<open>Frame_Contract\<close>, \<open>Frame_Accounting\<close> and \<open>Frame_Allocator_Checks\<close>
    (\<open>frame_allocator/verification.rs\<close>; \<open>boot_services.rs\<close>): the table's abstract value gives each frame
    its state and owner; allocation, release, registration and reservation act exactly on it; the
    implementation refines a reference on lists; the counters count frames; frames are conserved.
  \<^item> \<open>Virtual_Allocator\<close>, \<open>Virtual_Allocator_Proofs\<close>, \<open>Virtual_Allocator_Spec\<close>, \<open>Virtual_Properties\<close>
    (\<open>memory/virtual_allocator.rs\<close>): the same for kernel virtual pages.
  \<^item> \<open>User_Address_Space\<close>, \<open>Address_Space_Properties\<close> (\<open>memory/address_space.rs\<close>): mapping, unmapping and
    the validation of user ranges over the page walker. The walker is a record of functions, a
    parameter, and \<open>mapper_ok\<close> states what its documentation promises; \<open>flat_mapper\<close> satisfies it.
  \<^item> \<open>User_Heap\<close>, \<open>Heap_Properties\<close> (\<open>memory/user_heap.rs\<close>): the effect of a \<open>brk\<close> request on every branch.
  \<^item> \<open>User_Mapping\<close> and its proof theories, \<open>User_Mapping_Properties\<close>, \<open>User_Mapping_Requests\<close>
    (\<open>memory/user_mapping.rs\<close>): the record table, placement, \<open>mmap\<close> with replacement and rollback,
    and \<open>munmap\<close> with splitting.
  \<^item> \<open>User_Stack\<close> (\<open>memory/user_stack.rs\<close>): stack slots, and the initial stack image with the
    arguments and the environment. These are definitions that the loader uses in part.
  \<^item> \<open>Elf_Parser\<close>, \<open>Elf_Loader\<close> (\<open>elf/parser.rs\<close>, \<open>elf/loader.rs\<close>), with \<open>Elf_Segments\<close>, \<open>Elf_Properties\<close>,
    \<open>Elf_Image\<close>, \<open>Elf_Checks\<close> and \<open>Elf_Loading\<close>: the parser and the validation accept exactly the
    well-formed images, and loading leaves every byte of every segment visible with its rights.
  \<^item> \<open>Ring_Buffer\<close>, \<open>Ring_Concurrent\<close> (\<open>sync/ring_buffer.rs\<close>): the queue held by a ring, and the same
    ring as a step relation of one producer and one consumer, with order, absence of races and
    progress under every interleaving.
  \<^item> \<open>Input_Queues\<close> (\<open>driver/input/keyboard/queue.rs\<close> and \<open>stdin.rs\<close>, \<open>driver/input/mouse\<close>): the clients of
    the ring, the packet decoder and the cursor.
  \<^item> \<open>Fs_Node\<close>, \<open>Fs_Descriptor\<close>, \<open>Fs_Namespace\<close>, with \<open>Fs_Namespace_Proofs\<close> and \<open>Fs_Properties\<close>
    (\<open>filesystem\<close>): the node kinds, descriptor tables, mounts and directory listings.

  \<^bold>\<open>Bounds, loops and termination.\<close> No definition uses fuel. Loops over tables recurse on the number
  of entries left; loops over pages recurse on the number of pages left; the loops that drain a
  ring end because each \<open>pop\<close> empties a slot; the walk of the page validation ends because the
  addresses are bounded. Hypotheses such as \<open>n < 2 ^ 64\<close> for the size of a ring or \<open>2 ^ 63\<close> for the
  length of a file hold for every Rust allocation. Theorems about operations that allocate state
  how many frames must be free, and the branch without memory has its own theorem.

  \<^bold>\<open>Not modelled.\<close> Page table creation, activation and reclaim in \<open>address_space.rs\<close>, and \<open>paging.rs\<close>:
  raw writes to page tables through pointers and control registers. The kernel heap (\<open>heap.rs\<close>): a
  third-party allocator. \<open>user_pointer.rs\<close> and the system calls (\<open>syscall.rs\<close>, \<open>syscall/\<close>,
  \<open>process.rs\<close>): dispatch over the operations verified here together with raw user memory accesses.
  The scheduler and the tasks (\<open>task\<close>): state behind the context switch, which is assembly. The
  storage drivers, ACPI tables, interrupt controllers and \<open>arch/x86_64\<close>: device registers, port
  input and output, and memory that firmware or devices write. The framebuffer, fonts and console:
  pixel output. The diagnostics and the profiler: counters and log lines that read the state of
  other parts. User programs and \<open>build.rs\<close>: code outside the kernel.
\<close>

end
